(* ===== verification/Prelude.thy ===== *)
theory Prelude
  imports Main "HOL-Library.Word" "HOL-Library.Monad_Syntax"
begin

text \<open>
  What every component of the kernel shares: the machine's integer types, the byte-addressed
  memory that C pointers range over, multi-byte loads and stores (the kernel is built with
  \<open>-m32\<close>, so pointers, \<open>int\<close> and \<open>long\<close> have 32 bits and are little-endian), and the
  predicates that say what a region of memory holds.

  A computation that may fail to return to its caller (an endless loop, or a CPU exception, which
  \<open>kernel/cpu/idt.c\<close> answers with \<open>panic\<close> and its \<open>for(;;);\<close>) has a result of type
  \<open>'a option\<close>: \<open>None\<close> is "control never comes back", never "an error code is returned".
\<close>

unbundle bit_operations_syntax

type_synonym u8 = "8 word"
type_synonym u16 = "16 word"
type_synonym u32 = "32 word"
type_synonym ptr = "32 word"
type_synonym mem = "32 word \<Rightarrow> 8 word"

named_theorems mem_simps "loads from memory after stores"
named_theorems region_simps "what regions of memory hold"

subsection \<open>Words\<close>

lemma unat_of_nat_u32 [simp]: "i < 2 ^ 32 \<Longrightarrow> unat (of_nat i :: u32) = i"
  by (simp add: unat_of_nat)

lemma of_nat_eq_iff_u32:
  "i < 2 ^ 32 \<Longrightarrow> j < 2 ^ 32 \<Longrightarrow> (of_nat i :: u32) = of_nat j \<longleftrightarrow> i = j"
  by (metis unat_of_nat_u32)

lemma of_nat_add_neq_self_u32:
  "0 < i \<Longrightarrow> i < 2 ^ 32 \<Longrightarrow> (a + of_nat i :: u32) \<noteq> a"
  by (metis add_cancel_left_right less_irrefl unat_0 unat_of_nat_u32)

lemma unat_add_u32: "unat (a + b :: u32) = (unat a + unat b) mod 2 ^ 32"
  by (simp add: unat_word_ariths)

lemma unat_pred_u32: "w \<noteq> 0 \<Longrightarrow> unat (w - 1 :: u32) = unat w - 1"
  by unat_arith

lemma uint_pred_u32: "w \<noteq> 0 \<Longrightarrow> uint (w - 1 :: u32) = uint w - 1"
  by uint_arith

lemma unat_m1_u32: "unat (- 1 :: u32) = 2 ^ 32 - 1"
  by (simp add: unsigned_minus_1_eq_mask mask_eq_exp_minus_1)

lemma unat_lt_u32: "unat (w :: u32) < 4294967296"
  by (rule order_less_le_trans [OF unsigned_less]) simp

lemma unat_succ_u32:
  assumes "w \<noteq> (- 1 :: u32)"
  shows "unat (w + 1) = unat w + 1"
proof -
  have "unat w \<noteq> 2 ^ 32 - 1" using assms unat_m1_u32 by (metis unsigned_word_eqI)
  then have "unat w + 1 < 2 ^ 32" using unat_lt_u32 [of w] by simp
  then show ?thesis by (simp add: unat_add_u32)
qed

lemma unat_lt_u8: "unat (w :: u8) < 256"
  by (rule order_less_le_trans [OF unsigned_less]) simp

lemma unat_lt_u16: "unat (w :: u16) < 65536"
  by (rule order_less_le_trans [OF unsigned_less]) simp

text \<open>A fact about every byte, by evaluation at each.\<close>

lemma all_u8:
  "list_all P (map word_of_nat [0..<256]) \<Longrightarrow> P (c :: u8)"
proof -
  assume a: "list_all P (map word_of_nat [0..<256])"
  have "unat c \<in> set [0..<256]" using unat_lt_u8 [of c] by simp
  with a have "P (word_of_nat (unat c))" unfolding list_all_iff set_map by (rule bspec [OF _ imageI])
  then show ?thesis by simp
qed

lemma unat_ucast_u8_u32 [simp]: "unat (ucast (w :: u8) :: u32) = unat w"
  using order_less_trans [OF unat_lt_u8 [of w], of 4294967296]
  by (simp add: unsigned_ucast_eq take_bit_nat_def)

lemma unat_ucast_u16_u32 [simp]: "unat (ucast (w :: u16) :: u32) = unat w"
  using order_less_trans [OF unat_lt_u16 [of w], of 4294967296]
  by (simp add: unsigned_ucast_eq take_bit_nat_def)

lemma ucast_u8_u32_inj [simp]: "(ucast (v :: u8) :: u32) = ucast w \<longleftrightarrow> v = w"
  by (metis unat_ucast_u8_u32 unsigned_word_eqI)

lemma ucast_u16_u32_inj [simp]: "(ucast (v :: u16) :: u32) = ucast w \<longleftrightarrow> v = w"
  by (metis unat_ucast_u16_u32 unsigned_word_eqI)

lemma ucast_u16_u32_0 [simp]: "(ucast (v :: u16) :: u32) = 0 \<longleftrightarrow> v = 0"
  using ucast_u16_u32_inj [of v 0] by simp

lemma ucast_u16_u32_m1 [simp]: "(ucast (v :: u16) :: u32) \<noteq> - 1"
proof
  assume "(ucast v :: u32) = - 1"
  then have "unat (ucast v :: u32) = unat (- 1 :: u32)" by simp
  then have "unat v = unat (- 1 :: u32)" by (simp only: unat_ucast_u16_u32)
  then have "unat v = 2 ^ 32 - 1" by (simp add: unsigned_minus_1_eq_mask mask_eq_exp_minus_1)
  then show False using unat_lt_u16 [of v] by simp
qed

lemma ucast_u32_u16 [simp]: "(ucast (ucast (v :: u16) :: u32) :: u16) = v"
  by (rule bit_word_eqI) (simp add: bit_ucast_iff)

lemma sint_of_nat_u32: "n < 2 ^ 31 \<Longrightarrow> sint (of_nat n :: u32) = int n"
  by (subst signed_of_nat) (simp add: signed_take_bit_int_eq_self)

lemma sint_pred_u32: "0 < sint (w :: u32) \<Longrightarrow> sint (w - 1) = sint w - 1"
  using sint_lt [of w] by (simp add: sint_word_ariths signed_take_bit_int_eq_self)

text \<open>A string literal as the bytes the compiler emits for it.\<close>

definition ascii :: "string \<Rightarrow> u8 list" where
  "ascii s = map of_char s"

subsection \<open>Loads and stores\<close>

text \<open>Little-endian accesses of 16 and 32 bits, as the compiler emits them on x86.\<close>

definition load16 :: "mem \<Rightarrow> ptr \<Rightarrow> u16" where
  "load16 m a = ucast (m a) OR push_bit 8 (ucast (m (a + 1)))"

definition store16 :: "ptr \<Rightarrow> u16 \<Rightarrow> mem \<Rightarrow> mem" where
  "store16 a v m = m(a := ucast v, a + 1 := ucast (drop_bit 8 v))"

definition load32 :: "mem \<Rightarrow> ptr \<Rightarrow> u32" where
  "load32 m a = ucast (m a) OR push_bit 8 (ucast (m (a + 1)))
     OR push_bit 16 (ucast (m (a + 2))) OR push_bit 24 (ucast (m (a + 3)))"

definition store32 :: "ptr \<Rightarrow> u32 \<Rightarrow> mem \<Rightarrow> mem" where
  "store32 a v m = m(a := ucast v, a + 1 := ucast (drop_bit 8 v),
     a + 2 := ucast (drop_bit 16 v), a + 3 := ucast (drop_bit 24 v))"

lemma load16_store16 [simp, mem_simps]: "load16 (store16 a v m) a = v"
  by (rule bit_word_eqI)
     (auto simp: load16_def store16_def bit_or_iff bit_push_bit_iff bit_ucast_iff bit_drop_bit_eq)

lemma load32_store32 [simp, mem_simps]: "load32 (store32 a v m) a = v"
proof (rule bit_word_eqI)
  fix n assume "n < LENGTH(32)"
  then consider "n < 8" | "8 \<le> n" "n < 16" | "16 \<le> n" "n < 24" | "24 \<le> n" "n < 32"
    by fastforce
  then show "bit (load32 (store32 a v m) a) n = bit v n"
    by cases (auto simp: load32_def store32_def bit_or_iff bit_push_bit_iff bit_ucast_iff
        bit_drop_bit_eq)
qed

text \<open>A store leaves every other byte alone.\<close>

lemma store16_other [mem_simps]: "b \<noteq> a \<Longrightarrow> b \<noteq> a + 1 \<Longrightarrow> store16 a v m b = m b"
  by (simp add: store16_def)

lemma store32_other [mem_simps]:
  "b \<noteq> a \<Longrightarrow> b \<noteq> a + 1 \<Longrightarrow> b \<noteq> a + 2 \<Longrightarrow> b \<noteq> a + 3 \<Longrightarrow> store32 a v m b = m b"
  by (simp add: store32_def)

subsection \<open>Regions\<close>

text \<open>
  \<open>in_region a n x\<close>: the address \<open>x\<close> is one of the \<open>n\<close> bytes from \<open>a\<close> on (addresses wrap
  at \<open>2 ^ 32\<close>). \<open>apart a n b k\<close>: the regions of \<open>n\<close> bytes at \<open>a\<close> and of \<open>k\<close> bytes at
  \<open>b\<close> share no byte.
\<close>

definition in_region :: "ptr \<Rightarrow> nat \<Rightarrow> ptr \<Rightarrow> bool" where
  "in_region a n x \<longleftrightarrow> unat (x - a) < n"

definition apart :: "ptr \<Rightarrow> nat \<Rightarrow> ptr \<Rightarrow> nat \<Rightarrow> bool" where
  "apart a n b k \<longleftrightarrow> n = 0 \<or> k = 0 \<or> (n \<le> unat (b - a) \<and> k \<le> unat (a - b))"

fun bytes_at :: "mem \<Rightarrow> ptr \<Rightarrow> u8 list \<Rightarrow> bool" where
  "bytes_at m a [] \<longleftrightarrow> True"
| "bytes_at m a (b # bs) \<longleftrightarrow> m a = b \<and> bytes_at m (a + 1) bs"

text \<open>A C string: its characters, none of them NUL, then the terminating NUL.\<close>

definition cstr_at :: "mem \<Rightarrow> ptr \<Rightarrow> u8 list \<Rightarrow> bool" where
  "cstr_at m a cs \<longleftrightarrow> 0 \<notin> set cs \<and> bytes_at m a (cs @ [0])"

definition read_bytes :: "mem \<Rightarrow> ptr \<Rightarrow> nat \<Rightarrow> u8 list" where
  "read_bytes m a n = map (\<lambda>i. m (a + of_nat i)) [0..<n]"

lemma in_region_self [simp, region_simps]: "in_region a n a \<longleftrightarrow> 0 < n"
  by (simp add: in_region_def)

lemma in_region_offset [region_simps]:
  "i < 2 ^ 32 \<Longrightarrow> in_region a n (a + of_nat i) \<longleftrightarrow> i < n"
  by (simp add: in_region_def)

lemma in_region_offsetI: "i < n \<Longrightarrow> n \<le> 2 ^ 32 \<Longrightarrow> in_region a n (a + of_nat i)"
  by (simp add: in_region_def)

lemma in_region_0 [simp, region_simps]: "\<not> in_region a 0 x"
  by (simp add: in_region_def)

lemma in_region_Suc [region_simps]:
  "n < 2 ^ 32 - 1 \<Longrightarrow> in_region a (Suc n) x \<longleftrightarrow> x = a \<or> in_region (a + 1) n x"
  unfolding in_region_def by unat_arith

lemma in_region_mono: "in_region a n x \<Longrightarrow> n \<le> k \<Longrightarrow> in_region a k x"
  by (simp add: in_region_def)

lemma apart_sym: "apart a n b k \<longleftrightarrow> apart b k a n"
  by (auto simp: apart_def)

lemma apart_mono: "apart a n b k \<Longrightarrow> n' \<le> n \<Longrightarrow> k' \<le> k \<Longrightarrow> apart a n' b k'"
  by (auto simp: apart_def)

lemma apartD: "apart a n b k \<Longrightarrow> in_region a n x \<Longrightarrow> \<not> in_region b k x"
  unfolding apart_def in_region_def by unat_arith

lemma apart_iff: "apart a n b k \<longleftrightarrow> (\<forall>x. in_region a n x \<longrightarrow> \<not> in_region b k x)"
proof
  assume "apart a n b k"
  then show "\<forall>x. in_region a n x \<longrightarrow> \<not> in_region b k x" by (blast dest: apartD)
next
  assume no: "\<forall>x. in_region a n x \<longrightarrow> \<not> in_region b k x"
  show "apart a n b k"
    using no [THEN spec, of a] no [THEN spec, of b] by (auto simp: apart_def in_region_def)
qed

lemma in_subregion:
  assumes "in_region (a + of_nat i) k x" and "i + k \<le> n" and "n \<le> 2 ^ 32"
  shows "in_region a n x"
proof -
  let ?y = "x - (a + of_nat i)"
  have y: "unat ?y < k" using assms(1) by (simp add: in_region_def)
  have "x - a = ?y + of_nat i" by simp
  then have "unat (x - a) = (unat ?y + unat (of_nat i :: u32)) mod 2 ^ 32"
    by (simp only: unat_add_u32)
  also have "\<dots> = unat ?y + i" using y assms(2,3) by simp
  finally show ?thesis using y assms(2) by (simp add: in_region_def)
qed

lemma apart_sub: "apart a n b k \<Longrightarrow> i + k' \<le> k \<Longrightarrow> k \<le> 2 ^ 32 \<Longrightarrow> apart a n (b + of_nat i) k'"
  unfolding apart_iff by (blast intro: in_subregion)

lemma apart_sub_left:
  "apart a n b k \<Longrightarrow> i + n' \<le> n \<Longrightarrow> n \<le> 2 ^ 32 \<Longrightarrow> apart (a + of_nat i) n' b k"
  by (metis apart_sub apart_sym)

lemma apart_adjacent:
  assumes "n + k \<le> 2 ^ 32"
  shows "apart a n (a + of_nat n) k"
  unfolding apart_iff
proof (intro allI impI notI)
  fix x assume x: "in_region a n x" "in_region (a + of_nat n) k x"
  let ?y = "x - (a + of_nat n)"
  have "x - a = ?y + of_nat n" by simp
  then have "unat (x - a) = (unat ?y + unat (of_nat n :: u32)) mod 2 ^ 32"
    by (simp only: unat_add_u32)
  with x assms show False by (simp add: in_region_def)
qed

lemma bytes_at_nth:
  "bytes_at m a bs \<longleftrightarrow> (\<forall>i < length bs. m (a + of_nat i) = bs ! i)"
proof (induction bs arbitrary: a)
  case Nil
  then show ?case by simp
next
  case (Cons b bs)
  show ?case
    by (auto simp: Cons.IH All_less_Suc2 add.assoc)
qed

lemma bytes_at_append [simp, region_simps]:
  "bytes_at m a (xs @ ys) \<longleftrightarrow> bytes_at m a xs \<and> bytes_at m (a + of_nat (length xs)) ys"
  by (induction xs arbitrary: a) (auto simp: add.assoc)

lemma bytes_at_cong:
  assumes "\<And>x. in_region a (length bs) x \<Longrightarrow> m' x = m x" and "length bs \<le> 2 ^ 32"
  shows "bytes_at m' a bs = bytes_at m a bs"
  using assms by (auto simp: bytes_at_nth in_region_offsetI)

lemma bytes_at_read_bytes [simp]: "bytes_at m a (read_bytes m a n)"
  by (simp add: bytes_at_nth read_bytes_def)

lemma length_read_bytes [simp]: "length (read_bytes m a n) = n"
  by (simp add: read_bytes_def)

lemma bytes_at_iff_read_bytes: "bytes_at m a bs \<longleftrightarrow> read_bytes m a (length bs) = bs"
  by (auto simp: bytes_at_nth read_bytes_def intro!: nth_equalityI) (metis nth_map_upt add_0 minus_nat.diff_0)

lemma cstr_at_cong:
  assumes "\<And>x. in_region a (Suc (length cs)) x \<Longrightarrow> m' x = m x" and "length cs < 2 ^ 32"
  shows "cstr_at m' a cs = cstr_at m a cs"
proof -
  have "bytes_at m' a (cs @ [0]) = bytes_at m a (cs @ [0])"
    by (rule bytes_at_cong) (use assms in auto)
  then show ?thesis by (simp only: cstr_at_def)
qed

lemma cstr_at_Nil [simp, region_simps]: "cstr_at m a [] \<longleftrightarrow> m a = 0"
  by (simp add: cstr_at_def)

lemma cstr_at_Cons [region_simps]:
  "cstr_at m a (c # cs) \<longleftrightarrow> c \<noteq> 0 \<and> m a = c \<and> cstr_at m (a + 1) cs"
  by (auto simp: cstr_at_def)

lemma cstr_at_nonzero: "cstr_at m a cs \<Longrightarrow> i < length cs \<Longrightarrow> m (a + of_nat i) \<noteq> 0"
  by (metis bytes_at_append bytes_at_nth cstr_at_def nth_mem)

lemma cstr_at_end: "cstr_at m a cs \<Longrightarrow> m (a + of_nat (length cs)) = 0"
  by (simp add: cstr_at_def)

lemma cstr_at_unique: "cstr_at m a xs \<Longrightarrow> cstr_at m a ys \<Longrightarrow> xs = ys"
proof (induction xs arbitrary: a ys)
  case Nil
  then show ?case by (cases ys) (auto simp: cstr_at_Cons)
next
  case (Cons x xs)
  then show ?case by (cases ys) (auto simp: cstr_at_Cons)
qed

subsection \<open>Sequences of words\<close>

fun store_words :: "ptr \<Rightarrow> u32 list \<Rightarrow> mem \<Rightarrow> mem" where
  "store_words a [] m = m"
| "store_words a (w # ws) m = store_words (a + 4) ws (store32 a w m)"

fun load_words :: "mem \<Rightarrow> ptr \<Rightarrow> nat \<Rightarrow> u32 list" where
  "load_words m a 0 = []"
| "load_words m a (Suc n) = load32 m a # load_words m (a + 4) n"

lemma store32_outside: "\<not> in_region a 4 x \<Longrightarrow> store32 a v m x = m x"
  by (rule store32_other) (auto simp: in_region_def)

lemma load32_cong: "(\<And>x. in_region a 4 x \<Longrightarrow> m' x = m x) \<Longrightarrow> load32 m' a = load32 m a"
  using in_region_offsetI [of 1 4 a] in_region_offsetI [of 2 4 a] in_region_offsetI [of 3 4 a]
  by (simp add: load32_def)

lemma length_load_words [simp]: "length (load_words m a n) = n"
  by (induction n arbitrary: a) auto

lemma store_words_outside:
  "\<not> in_region a (4 * length ws) x \<Longrightarrow> 4 * length ws \<le> 2 ^ 32 \<Longrightarrow> store_words a ws m x = m x"
proof (induction ws arbitrary: a m)
  case (Cons w ws)
  have "\<not> in_region a 4 x" using Cons.prems(1) in_region_mono [of a 4 x] by auto
  moreover have "\<not> in_region (a + 4) (4 * length ws) x"
    using Cons.prems in_subregion [of a 4 "4 * length ws" x "4 * length (w # ws)"] by auto
  ultimately show ?case using Cons by (simp add: store32_outside)
qed simp

lemma load_words_cong:
  "(\<And>x. in_region a (4 * n) x \<Longrightarrow> m' x = m x) \<Longrightarrow> 4 * n \<le> 2 ^ 32 \<Longrightarrow> load_words m' a n = load_words m a n"
proof (induction n arbitrary: a)
  case (Suc n)
  have "load32 m' a = load32 m a"
    by (rule load32_cong) (rule Suc.prems(1), erule in_region_mono, simp)
  moreover have "load_words m' (a + 4) n = load_words m (a + 4) n"
    using Suc.prems in_subregion [of a 4 "4 * n" _ "4 * Suc n"] by (intro Suc.IH) auto
  ultimately show ?case by simp
qed simp

lemma load_words_store_words [simp]:
  "4 * length ws \<le> 2 ^ 32 \<Longrightarrow> load_words (store_words a ws m) a (length ws) = ws"
proof (induction ws arbitrary: a m)
  case (Cons w ws)
  have "load32 (store_words (a + 4) ws (store32 a w m)) a = load32 (store32 a w m) a"
  proof (rule load32_cong)
    fix x assume "in_region a 4 x"
    moreover have "apart a 4 (a + 4) (4 * length ws)"
      using apart_adjacent [of 4 "4 * length ws" a] Cons.prems by simp
    ultimately show "store_words (a + 4) ws (store32 a w m) x = store32 a w m x"
      using Cons.prems by (intro store_words_outside apartD [where a = a]) auto
  qed
  with Cons show ?case by simp
qed simp

fun load_halves :: "mem \<Rightarrow> ptr \<Rightarrow> nat \<Rightarrow> u16 list" where
  "load_halves m a 0 = []"
| "load_halves m a (Suc n) = load16 m a # load_halves m (a + 2) n"

lemma store16_outside: "\<not> in_region a 2 x \<Longrightarrow> store16 a v m x = m x"
  by (rule store16_other) (auto simp: in_region_def)

lemma load16_cong: "(\<And>x. in_region a 2 x \<Longrightarrow> m' x = m x) \<Longrightarrow> load16 m' a = load16 m a"
  using in_region_offsetI [of 1 2 a] by (simp add: load16_def)

lemma length_load_halves [simp]: "length (load_halves m a n) = n"
  by (induction n arbitrary: a) auto

lemma load_halves_append:
  "load_halves m a (n + k) = load_halves m a n @ load_halves m (a + 2 * of_nat n) k"
  by (induction n arbitrary: a) (auto simp: algebra_simps)

lemma load_halves_cong:
  "(\<And>x. in_region a (2 * n) x \<Longrightarrow> m' x = m x) \<Longrightarrow> 2 * n \<le> 2 ^ 32 \<Longrightarrow> load_halves m' a n = load_halves m a n"
proof (induction n arbitrary: a)
  case (Suc n)
  have "load16 m' a = load16 m a"
    by (rule load16_cong) (rule Suc.prems(1), erule in_region_mono, simp)
  moreover have "load_halves m' (a + 2) n = load_halves m (a + 2) n"
    using Suc.prems in_subregion [of a 2 "2 * n" _ "2 * Suc n"] by (intro Suc.IH) auto
  ultimately show ?case by simp
qed simp

lemma nth_load_words: "i < n \<Longrightarrow> load_words m a n ! i = load32 m (a + 4 * of_nat i)"
proof (induction n arbitrary: a i)
  case (Suc n)
  then show ?case by (cases i) (auto simp: algebra_simps)
qed simp

lemma apart_words:
  assumes "i \<noteq> j" and "i < 2 ^ 29" and "j < 2 ^ 29"
  shows "apart (a + 4 * of_nat i) 4 (a + 4 * of_nat j) 4"
proof -
  have less: "apart (b + 4 * of_nat i) 4 (b + 4 * of_nat j) 4" if "i < j" "j < 2 ^ 29" for i j and b :: ptr
  proof -
    have "apart b (4 * j) (b + of_nat (4 * j)) 4" by (rule apart_adjacent) (use that in simp)
    then have "apart (b + of_nat (4 * i)) 4 (b + of_nat (4 * j)) 4"
      by (rule apart_sub_left) (use that in auto)
    then show ?thesis by simp
  qed
  show ?thesis
    using less [of i j a] less [of j i a] assms apart_sym by (cases "i < j") auto
qed

lemma load32_store32_word:
  assumes "i \<noteq> j" and "i < 2 ^ 29" and "j < 2 ^ 29"
  shows "load32 (store32 (a + 4 * of_nat i) v m) (a + 4 * of_nat j) = load32 m (a + 4 * of_nat j)"
proof (rule load32_cong)
  fix x assume "in_region (a + 4 * of_nat j) 4 x"
  then have "\<not> in_region (a + 4 * of_nat i) 4 x"
    using apartD [OF apart_words [of j i a]] assms by auto
  then show "store32 (a + 4 * of_nat i) v m x = m x" by (rule store32_outside)
qed

subsection \<open>Tables of pointers\<close>

text \<open>The loop that looks for the first free slot among \<open>k\<close> slots from \<open>i\<close> on, which the tables of
  drives, of file systems and of serial listeners share.\<close>

fun first_slot :: "(int \<Rightarrow> ptr) \<Rightarrow> int \<Rightarrow> nat \<Rightarrow> int option" where
  "first_slot t i 0 = None"
| "first_slot t i (Suc k) = (if t i = 0 then Some i else first_slot t (i + 1) k)"

lemma int_range_Suc:
  "i \<le> x \<and> x < i + int (Suc k) \<longleftrightarrow> x = i \<or> (i + 1 \<le> x \<and> x < i + 1 + int k)"
  by auto

lemma first_slot_Some:
  "first_slot t i k = Some j \<longleftrightarrow>
     i \<le> j \<and> j < i + int k \<and> t j = 0 \<and> (\<forall>x. i \<le> x \<and> x < j \<longrightarrow> t x \<noteq> 0)"
proof (induction k arbitrary: i)
  case (Suc k)
  show ?case
  proof (cases "t i = 0")
    case True
    then show ?thesis by auto
  next
    case False
    then have "i \<le> j \<and> t j = 0 \<and> (\<forall>x. i \<le> x \<and> x < j \<longrightarrow> t x \<noteq> 0) \<longleftrightarrow>
        i + 1 \<le> j \<and> t j = 0 \<and> (\<forall>x. i + 1 \<le> x \<and> x < j \<longrightarrow> t x \<noteq> 0)"
      by (metis (no_types, opaque_lifting) zless_imp_add1_zle order.strict_trans2 order_le_less zless_add1_eq)
    with False Suc.IH [of "i + 1"] show ?thesis by auto
  qed
qed auto

lemma first_slot_None:
  "first_slot t i k = None \<longleftrightarrow> (\<forall>x. i \<le> x \<and> x < i + int k \<longrightarrow> t x \<noteq> 0)"
proof (induction k arbitrary: i)
  case (Suc k)
  from Suc.IH [of "i + 1"] show ?case unfolding int_range_Suc by auto
qed auto

end
