(* ===== verification/Strings.thy ===== *)
theory Strings
  imports Prelude
begin

text \<open>
  \<open>kernel/memory/string.c\<close>: the C string and memory routines over the byte memory (the one
  routine that allocates, \<open>ksprintf\<close>, is in theory \<open>Sprintf\<close>). The walks over strings are loops
  that end only at a NUL, so they are partial functions into \<open>option\<close>; the counted loops are
  structural. A \<open>char\<close> is signed on this target and is sign-extended when promoted to \<open>int\<close>.
\<close>

definition char_int :: "u8 \<Rightarrow> u32" where
  "char_int c = scast c"

subsection \<open>Lengths and comparisons\<close>

partial_function (option) kstrlen_loop :: "mem \<Rightarrow> ptr \<Rightarrow> u32 \<Rightarrow> u32 option" where
  "kstrlen_loop m s i = (if m (s + i) \<noteq> 0 then kstrlen_loop m s (i + 1) else Some i)"

definition kstrlen :: "mem \<Rightarrow> ptr \<Rightarrow> u32 option" where
  "kstrlen m s = kstrlen_loop m s 0"

partial_function (option) kstrcmp_loop :: "mem \<Rightarrow> ptr \<Rightarrow> ptr \<Rightarrow> u32 \<Rightarrow> u32 option" where
  "kstrcmp_loop m s c i =
     (if m (s + i) \<noteq> 0 then
        (if m (s + i) \<noteq> m (c + i) then Some (char_int (m (s + i)) - char_int (m (c + i)))
         else kstrcmp_loop m s c (i + 1))
      else Some 0)"

definition kstrcmp :: "mem \<Rightarrow> ptr \<Rightarrow> ptr \<Rightarrow> u32 option" where
  "kstrcmp m s c = do {
     ls \<leftarrow> kstrlen m s;
     lc \<leftarrow> kstrlen m c;
     if ls \<noteq> lc then Some (ls - lc) else kstrcmp_loop m s c 0 }"

fun kmemcmp_loop :: "mem \<Rightarrow> ptr \<Rightarrow> ptr \<Rightarrow> u32 \<Rightarrow> nat \<Rightarrow> u32" where
  "kmemcmp_loop m source dest i 0 = 0"
| "kmemcmp_loop m source dest i (Suc k) =
     (if m (source + i) \<noteq> m (dest + i) then ucast (m (source + i)) - ucast (m (dest + i))
      else kmemcmp_loop m source dest (i + 1) k)"

definition kmemcmp :: "mem \<Rightarrow> ptr \<Rightarrow> ptr \<Rightarrow> u32 \<Rightarrow> u32" where
  "kmemcmp m source dest num = kmemcmp_loop m source dest 0 (nat (sint num))"

subsection \<open>Copying and filling\<close>

fun kmemcpy_loop :: "ptr \<Rightarrow> ptr \<Rightarrow> u32 \<Rightarrow> nat \<Rightarrow> mem \<Rightarrow> mem" where
  "kmemcpy_loop s d i 0 m = m"
| "kmemcpy_loop s d i (Suc k) m = kmemcpy_loop s d (i + 1) k (m(d + i := m (s + i)))"

definition kmemcpy :: "ptr \<Rightarrow> ptr \<Rightarrow> u32 \<Rightarrow> mem \<Rightarrow> mem" where
  "kmemcpy s d bytes m = kmemcpy_loop s d 0 (nat (sint bytes)) m"

text \<open>\<open>kmemset\<close> stores 16-bit units: \<open>d\<close> is a \<open>short *\<close> and the loop runs \<open>bytes/2\<close> times.\<close>

fun kmemset_loop :: "ptr \<Rightarrow> u32 \<Rightarrow> nat \<Rightarrow> u32 \<Rightarrow> mem \<Rightarrow> mem" where
  "kmemset_loop d i 0 val m = m"
| "kmemset_loop d i (Suc k) val m = kmemset_loop d (i + 1) k val (store16 (d + 2 * i) (ucast val) m)"

definition kmemset :: "ptr \<Rightarrow> u32 \<Rightarrow> u32 \<Rightarrow> mem \<Rightarrow> mem" where
  "kmemset d bytes val m = kmemset_loop d 0 (nat (sint bytes div 2)) val m"

text \<open>\<open>clearmem\<close> assigns to its own pointer parameter, not to the memory behind it.\<close>

fun clearmem_loop :: "ptr \<Rightarrow> nat \<Rightarrow> mem \<Rightarrow> ptr \<times> mem" where
  "clearmem_loop p 0 m = (p, m)"
| "clearmem_loop p (Suc k) m = clearmem_loop 0 k m"

definition clearmem :: "ptr \<Rightarrow> u32 \<Rightarrow> mem \<Rightarrow> mem" where
  "clearmem p count m = snd (clearmem_loop p (nat (sint count)) m)"

subsection \<open>Numbers\<close>

text \<open>
  The two static arrays of \<open>ltostr\<close> lie where the linker puts them: \<open>ltostr_arr\<close> is the address
  of the digit string \<open>arr\<close> and \<open>ltostr_buffer\<close> that of the 50-byte \<open>buffer\<close> the result is
  written into. \<open>number % base\<close> and \<open>number /= base\<close> are unsigned; a base of 0 is a divide error.
\<close>

record statics =
  ltostr_arr :: ptr
  ltostr_buffer :: ptr

partial_function (option) ltostr_loop ::
    "ptr \<Rightarrow> u32 \<Rightarrow> ptr \<Rightarrow> u32 \<Rightarrow> u32 \<Rightarrow> mem \<Rightarrow> (ptr \<times> mem) option" where
  "ltostr_loop arr base ret number padding_count m =
     (let m' = m(ret - 1 := m (arr + number mod base));
          number' = number div base;
          padding' = (if sint padding_count \<le> 0 then 0 else padding_count - 1)
      in if number' \<noteq> 0 \<or> padding' \<noteq> 0
         then ltostr_loop arr base (ret - 1) number' padding' m'
         else Some (ret - 1, m'))"

definition ltostr ::
    "'a statics_scheme \<Rightarrow> u32 \<Rightarrow> u32 \<Rightarrow> u32 \<Rightarrow> mem \<Rightarrow> (ptr \<times> mem) option" where
  "ltostr L number base padding_count m =
     (let ret = ltostr_buffer L + 49; m' = m(ret := 0)
      in if base = 1 then Some (0, m')
         else if base = 0 then None
         else ltostr_loop (ltostr_arr L) base ret number padding_count m')"

partial_function (option) kstrtol_loop :: "mem \<Rightarrow> ptr \<Rightarrow> u32 \<Rightarrow> u32 option" where
  "kstrtol_loop m str ret =
     (if m str \<noteq> 0 then kstrtol_loop m (str + 1) (ret * 10 + (char_int (m str) - 48))
      else Some ret)"

definition kstrtol :: "mem \<Rightarrow> ptr \<Rightarrow> u32 option" where
  "kstrtol m str = kstrtol_loop m str 0"

subsection \<open>Concatenation\<close>

partial_function (option) kstrcat_first :: "ptr \<Rightarrow> ptr \<Rightarrow> u32 \<Rightarrow> mem \<Rightarrow> (u32 \<times> mem) option" where
  "kstrcat_first dest first pos m =
     (if m (first + pos) \<noteq> 0
      then kstrcat_first dest first (pos + 1) (m(dest + pos := m (first + pos)))
      else Some (pos, m))"

partial_function (option) kstrcat_second :: "ptr \<Rightarrow> ptr \<Rightarrow> u32 \<Rightarrow> mem \<Rightarrow> mem option" where
  "kstrcat_second dest second pos m =
     (if m second \<noteq> 0
      then kstrcat_second dest (second + 1) (pos + 1) (m(dest + pos := m second))
      else Some m)"

definition kstrcat :: "ptr \<Rightarrow> ptr \<Rightarrow> ptr \<Rightarrow> mem \<Rightarrow> mem option" where
  "kstrcat dest first second m = do {
     (pos, m1) \<leftarrow> kstrcat_first dest first 0 m;
     m2 \<leftarrow> kstrcat_second dest second pos m1;
     n \<leftarrow> kstrlen m2 dest;
     Some (m2(dest + n := 0)) }"

subsection \<open>Tokens\<close>

partial_function (option) is_delim :: "mem \<Rightarrow> u8 \<Rightarrow> ptr \<Rightarrow> bool option" where
  "is_delim m c delim =
     (if m delim \<noteq> 0 then (if c = m delim then Some True else is_delim m c (delim + 1))
      else Some False)"

text \<open>The first loop of \<open>kstrtok\<close>: skip delimiters; \<open>None\<close> inside is "end of string, return 0".\<close>

partial_function (option) kstrtok_skip :: "mem \<Rightarrow> ptr \<Rightarrow> ptr \<Rightarrow> ptr option option" where
  "kstrtok_skip m delim to_tok = do {
     d \<leftarrow> is_delim m (m to_tok) delim;
     if d then kstrtok_skip m delim (to_tok + 1)
     else if m to_tok = 0 then Some None
     else Some (Some to_tok) }"

text \<open>The second loop: find the end of the token; the result is the new \<open>static_str\<close>.\<close>

partial_function (option) kstrtok_scan :: "ptr \<Rightarrow> ptr \<Rightarrow> mem \<Rightarrow> (ptr \<times> mem) option" where
  "kstrtok_scan delim to_tok m =
     (if m to_tok = 0 then Some (to_tok, m)
      else do {
        d \<leftarrow> is_delim m (m to_tok) delim;
        if d then Some (to_tok + 1, m(to_tok := 0))
        else kstrtok_scan delim (to_tok + 1) m })"

definition kstrtok :: "ptr \<Rightarrow> ptr \<Rightarrow> ptr \<Rightarrow> mem \<Rightarrow> (ptr \<times> ptr \<times> mem) option" where
  "kstrtok to_tok delim static_str m =
     (let t = (if to_tok = 0 then static_str else to_tok)
      in if t = 0 then Some (0, static_str, m)
         else do {
           start \<leftarrow> kstrtok_skip m delim t;
           case start of
             None \<Rightarrow> Some (0, static_str, m)
           | Some ret \<Rightarrow> do {
               (static_str', m') \<leftarrow> kstrtok_scan delim ret m;
               Some (ret, static_str', m') } })"

subsection \<open>Walking a string\<close>

lemma char_int_0 [simp]: "char_int 0 = 0"
  by (simp add: char_int_def)

lemma char_int_inj [simp]: "char_int a = char_int b \<longleftrightarrow> a = b"
proof
  have low: "(ucast (char_int c) :: u8) = c" for c
    by (rule bit_word_eqI) (simp add: char_int_def bit_simps)
  assume "char_int a = char_int b"
  then show "a = b" by (metis low)
qed simp

lemma cstr_at_short: "cstr_at m a cs \<Longrightarrow> length cs < 2 ^ 32"
proof (rule ccontr)
  assume cs: "cstr_at m a cs" and "\<not> length cs < 2 ^ 32"
  define j where "j = length cs - 2 ^ 32"
  from \<open>\<not> length cs < 2 ^ 32\<close> have "length cs = j + 2 ^ 32" "j < length cs"
    by (auto simp: j_def)
  then have "(of_nat (length cs) :: u32) = of_nat j" by simp
  with cs \<open>j < length cs\<close> show False
    using cstr_at_end cstr_at_nonzero by metis
qed

lemma cstr_at_drop:
  "cstr_at m a cs \<Longrightarrow> i \<le> length cs \<Longrightarrow> cstr_at m (a + of_nat i) (drop i cs)"
proof (induction i arbitrary: a cs)
  case 0
  then show ?case by simp
next
  case (Suc i)
  then obtain c cs' where cs: "cs = c # cs'" by (cases cs) auto
  with Suc.prems have "cstr_at m (a + 1) cs'" "i \<le> length cs'" by (auto simp: cstr_at_Cons)
  then have "cstr_at m (a + 1 + of_nat i) (drop i cs')" by (rule Suc.IH)
  then show ?case by (simp add: cs add.assoc)
qed

lemma kstrlen_loop_cstr:
  "cstr_at m (s + i) cs \<Longrightarrow> kstrlen_loop m s i = Some (i + of_nat (length cs))"
proof (induction cs arbitrary: i)
  case Nil
  then show ?case by (simp add: kstrlen_loop.simps)
next
  case (Cons c cs)
  then have "cstr_at m (s + (i + 1)) cs" "m (s + i) \<noteq> 0" by (auto simp: cstr_at_Cons add.assoc)
  then show ?case by (subst kstrlen_loop.simps) (simp add: Cons.IH add.assoc)
qed

lemma kstrlen_cstr [simp]: "cstr_at m s cs \<Longrightarrow> kstrlen m s = Some (of_nat (length cs))"
  using kstrlen_loop_cstr [of m s 0 cs] by (simp add: kstrlen_def)

lemma kstrlen_loop_Some: "kstrlen_loop m s i = Some n \<Longrightarrow> \<exists>cs. cstr_at m (s + i) cs"
proof (rule kstrlen_loop.raw_induct [where P = "\<lambda>m s i n. \<exists>cs. cstr_at m (s + i) cs"])
  fix f m s i n
  assume IH: "\<And>m s i n. f m s i = Some n \<Longrightarrow> \<exists>cs. cstr_at m (s + i) cs"
    and eq: "(if m (s + i) \<noteq> 0 then f m s (i + 1) else Some i) = Some n"
  show "\<exists>cs. cstr_at m (s + i) cs"
  proof (cases "m (s + i) = 0")
    case True
    then have "cstr_at m (s + i) []" by simp
    then show ?thesis ..
  next
    case False
    with eq have "f m s (i + 1) = Some n" by simp
    then obtain cs where "cstr_at m (s + (i + 1)) cs" using IH by blast
    with False have "cstr_at m (s + i) (m (s + i) # cs)" by (simp add: cstr_at_Cons add.assoc)
    then show ?thesis ..
  qed
qed

text \<open>\<open>kstrlen\<close> returns exactly when a C string starts at its argument, and then with
  the number of characters before the NUL.\<close>

theorem kstrlen_iff:
  "kstrlen m s = Some n \<longleftrightarrow> (\<exists>cs. cstr_at m s cs \<and> n = of_nat (length cs))"
proof
  assume n: "kstrlen m s = Some n"
  then obtain cs where "cstr_at m s cs"
    using kstrlen_loop_Some [of m s 0 n] by (auto simp: kstrlen_def)
  with n show "\<exists>cs. cstr_at m s cs \<and> n = of_nat (length cs)" by auto
qed auto

subsection \<open>Comparing\<close>

lemma kstrcmp_loop_cstr:
  "cstr_at m (s + i) xs \<Longrightarrow> cstr_at m (c + i) ys \<Longrightarrow> length xs = length ys \<Longrightarrow>
   \<exists>r. kstrcmp_loop m s c i = Some r \<and> (r = 0 \<longleftrightarrow> xs = ys)"
proof (induction xs arbitrary: i ys)
  case Nil
  then show ?case by (simp add: kstrcmp_loop.simps)
next
  case (Cons x xs)
  then obtain y ys' where ys: "ys = y # ys'" by (cases ys) auto
  with Cons.prems have x: "m (s + i) = x" "x \<noteq> 0" and y: "m (c + i) = y"
    and rest: "cstr_at m (s + (i + 1)) xs" "cstr_at m (c + (i + 1)) ys'" "length xs = length ys'"
    by (auto simp: cstr_at_Cons add.assoc)
  show ?case
  proof (cases "x = y")
    case True
    with Cons.IH [OF rest] x y show ?thesis
      by (subst kstrcmp_loop.simps) (auto simp: ys)
  next
    case False
    with x y show ?thesis by (subst kstrcmp_loop.simps) (simp add: ys)
  qed
qed

lemma kstrcmp_cstr:
  assumes xs: "cstr_at m s xs" and ys: "cstr_at m c ys"
  shows "\<exists>r. kstrcmp m s c = Some r \<and> (r = 0 \<longleftrightarrow> xs = ys)"
proof (cases "length xs = length ys")
  case True
  with kstrcmp_loop_cstr [of m s 0 xs c ys] assms show ?thesis by (simp add: kstrcmp_def)
next
  case False
  with cstr_at_short [OF xs] cstr_at_short [OF ys]
  have "(of_nat (length xs) :: u32) \<noteq> of_nat (length ys)" by (simp add: of_nat_eq_iff_u32)
  with False assms show ?thesis by (auto simp: kstrcmp_def)
qed

subsection \<open>Copying\<close>

text \<open>
  \<open>kmemcpy\<close> copies upwards, so it is right on overlapping regions when the destination starts
  below the source (the kernel scrolls the screen that way) and wrong when it starts inside it.
\<close>

definition copies_up :: "ptr \<Rightarrow> ptr \<Rightarrow> nat \<Rightarrow> bool" where
  "copies_up s d n \<longleftrightarrow> d = s \<or> n \<le> unat (d - s)"

lemma apart_copies_up: "apart s n d n \<Longrightarrow> copies_up s d n"
  by (auto simp: apart_def copies_up_def)

lemma kmemcpy_loop_eq:
  "copies_up s d k \<Longrightarrow> k < 2 ^ 32 \<Longrightarrow>
   kmemcpy_loop s d i k m x = (if in_region (d + i) k x then m (s + (x - d)) else m x)"
proof (induction k arbitrary: i m)
  case 0
  then show ?case by simp
next
  case (Suc k)
  let ?m = "m(d + i := m (s + i))"
  from Suc.prems have up: "copies_up s d k" by (auto simp: copies_up_def)
  have reg: "in_region (d + i) (Suc k) x \<longleftrightarrow> x = d + i \<or> in_region (d + (i + 1)) k x"
    using Suc.prems(2) by (simp add: in_region_Suc add.assoc)
  have src: "s + (x - d) \<noteq> d + i" if "in_region (d + (i + 1)) k x"
  proof
    assume "s + (x - d) = d + i"
    then have e: "x - (d + (i + 1)) = (d - s) - 1" by (simp add: algebra_simps)
    from that have "unat ((d - s) - 1) < k" by (simp add: in_region_def e)
    moreover have "d = s \<or> Suc k \<le> unat (d - s)" using Suc.prems(1) by (simp add: copies_up_def)
    ultimately show False
      using Suc.prems(2) unat_pred_u32 [of "d - s"] unat_m1_u32 by (cases "d = s") simp_all
  qed
  have fix_di: "x = d + i \<Longrightarrow> \<not> in_region (d + (i + 1)) k x"
    using Suc.prems(2) unat_m1_u32 by (simp add: in_region_def)
  have "kmemcpy_loop s d i (Suc k) m x =
      (if in_region (d + (i + 1)) k x then ?m (s + (x - d)) else ?m x)"
    using Suc.IH [OF up] Suc.prems(2) by simp
  also have "\<dots> = (if in_region (d + i) (Suc k) x then m (s + (x - d)) else m x)"
    using src fix_di reg by auto
  finally show ?case .
qed

lemma nat_sint_bound: "nat (sint (w :: u32)) < 2 ^ 31"
  using sint_lt [of w] by simp

lemma kmemcpy_eq:
  assumes "copies_up s d (nat (sint bytes))"
  shows "kmemcpy s d bytes m =
    (\<lambda>x. if in_region d (nat (sint bytes)) x then m (s + (x - d)) else m x)"
  using kmemcpy_loop_eq [OF assms, of 0 m] nat_sint_bound [of bytes]
  by (auto simp: kmemcpy_def)

lemma kmemcpy_bytes_at:
  assumes up: "copies_up s d (nat (sint bytes))" and len: "length bs = nat (sint bytes)"
    and bs: "bytes_at m s bs"
  shows "bytes_at (kmemcpy s d bytes m) d bs"
  using bs len nat_sint_bound [of bytes]
  by (auto simp: kmemcpy_eq [OF up] bytes_at_nth in_region_offset)

lemma kmemcpy_frame:
  "copies_up s d (nat (sint bytes)) \<Longrightarrow> \<not> in_region d (nat (sint bytes)) x \<Longrightarrow>
   kmemcpy s d bytes m x = m x"
  by (simp add: kmemcpy_eq)

lemma kmemset_loop_zero:
  "k < 2 ^ 30 \<Longrightarrow>
   kmemset_loop d i k 0 m x = (if in_region (d + 2 * i) (2 * k) x then 0 else m x)"
proof (induction k arbitrary: i m)
  case 0
  then show ?case by simp
next
  case (Suc k)
  have "in_region (d + 2 * i) (2 * Suc k) x \<longleftrightarrow>
      x = d + 2 * i \<or> x = d + 2 * i + 1 \<or> in_region (d + 2 * (i + 1)) (2 * k) x"
    using Suc.prems by (simp add: in_region_Suc algebra_simps)
  then show ?case using Suc by (auto simp: store16_def)
qed

lemma kmemset_zero:
  "kmemset d bytes 0 m x =
     (if in_region d (2 * nat (sint bytes div 2)) x then 0 else m x)"
proof -
  have "nat (sint bytes div 2) < 2 ^ 30" using sint_lt [of bytes] by simp
  from kmemset_loop_zero [OF this, of d 0 m x] show ?thesis by (simp add: kmemset_def)
qed

lemma clearmem_loop_mem: "snd (clearmem_loop p k m) = m"
  by (induction k arbitrary: p) auto

subsection \<open>Numbers to strings and back\<close>

text \<open>The digit string of \<open>ltostr\<close> and what its entries are.\<close>

definition ltostr_digits :: "u8 list" where
  "ltostr_digits = ascii ''0123456789ABCDEFGHIJKLMNOPQRSTUVWXYZ''"

definition digit_char :: "nat \<Rightarrow> u8" where
  "digit_char d = (if d < 10 then 48 + of_nat d else 55 + of_nat d)"

lemma ltostr_digits_eq: "ltostr_digits = map digit_char [0..<36]"
  by code_simp

lemma length_ltostr_digits [simp]: "length ltostr_digits = 36"
  by (simp add: ltostr_digits_eq)

lemma unat_digit_char: "d < 36 \<Longrightarrow> unat (digit_char d) = (if d < 10 then 48 + d else 55 + d)"
  by (simp add: digit_char_def unat_word_ariths unat_of_nat)

lemma digit_char_nonzero: "d < 36 \<Longrightarrow> digit_char d \<noteq> 0"
  using unat_digit_char [of d] by (auto split: if_splits)

text \<open>
  The digits \<open>ltostr\<close> produces for \<open>n\<close> in base \<open>b\<close> with padding \<open>p\<close>, most significant
  first: the loop body runs at least once and until both the number and the padding are used up.
\<close>

function ltostr_out :: "nat \<Rightarrow> nat \<Rightarrow> nat \<Rightarrow> nat list" where
  "ltostr_out b n p =
     (if b < 2 then []
      else if n div b = 0 \<and> p \<le> 1 then [n mod b]
      else ltostr_out b (n div b) (p - 1) @ [n mod b])"
  by pat_completeness auto
termination
proof (relation "measure (\<lambda>(b, n, p). n + p)")
  fix b n p :: nat
  assume "\<not> b < 2" "\<not> (n div b = 0 \<and> p \<le> 1)"
  moreover from this have "n div b \<le> n" "n div b \<noteq> 0 \<Longrightarrow> n div b < n"
    by (auto intro: div_less_dividend simp: div_greater_zero_iff)
  ultimately show "((b, n div b, p - 1), b, n, p) \<in> measure (\<lambda>(b, n, p). n + p)"
    by fastforce
qed simp

declare ltostr_out.simps [simp del]

lemma ltostr_out_value: "2 \<le> b \<Longrightarrow> foldl (\<lambda>v d. v * b + d) 0 (ltostr_out b n p) = n"
proof (induction b n p rule: ltostr_out.induct)
  case (1 b n p)
  then show ?case
    by (subst ltostr_out.simps) (auto simp: div_eq_0_iff)
qed

lemma ltostr_out_digits: "d \<in> set (ltostr_out b n p) \<Longrightarrow> d < b"
proof (induction b n p rule: ltostr_out.induct)
  case (1 b n p)
  then show ?case
    by (subst (asm) ltostr_out.simps) (auto split: if_splits)
qed

lemma ltostr_out_length:
  "2 \<le> b \<Longrightarrow> n < b ^ l \<Longrightarrow> p \<le> l \<Longrightarrow> 1 \<le> l \<Longrightarrow> length (ltostr_out b n p) \<le> l"
proof (induction b n p arbitrary: l rule: ltostr_out.induct)
  case (1 b n p)
  obtain k where l: "l = Suc k" using "1.prems" by (cases l) auto
  show ?case
  proof (cases "n div b = 0 \<and> p \<le> 1")
    case True
    then show ?thesis using "1.prems" by (subst ltostr_out.simps) auto
  next
    case False
    have k: "1 \<le> k"
    proof (rule ccontr)
      assume "\<not> 1 \<le> k"
      then have "k = 0" by simp
      then have "n < b" "p \<le> 1" using "1.prems" l by simp_all
      then show False using False by simp
    qed
    have "n div b < b ^ k" using "1.prems" l by (simp add: less_mult_imp_div_less mult.commute)
    then have "length (ltostr_out b (n div b) (p - 1)) \<le> k"
      using "1.IH" [of k] "1.prems" False k l by auto
    then show ?thesis using False "1.prems" l by (subst ltostr_out.simps) auto
  qed
qed

text \<open>One pass of the loop body, in terms of the numbers.\<close>

lemma ltostr_pad_step:
  fixes pad :: u32
  defines "pad' \<equiv> (if sint pad \<le> 0 then 0 else pad - 1)"
  shows "nat (sint pad') = nat (sint pad) - 1" and "pad' \<noteq> 0 \<longleftrightarrow> \<not> nat (sint pad) \<le> 1"
proof -
  show *: "nat (sint pad') = nat (sint pad) - 1"
    by (simp add: pad'_def sint_pred_u32 nat_diff_distrib)
  have "0 \<le> sint pad'" by (auto simp: pad'_def sint_pred_u32)
  then have "pad' \<noteq> 0 \<longleftrightarrow> nat (sint pad') \<noteq> 0" by (metis nat_0_iff nle_le signed_0 signed_eq_0_iff)
  with * show "pad' \<noteq> 0 \<longleftrightarrow> \<not> nat (sint pad) \<le> 1" by simp
qed

lemma ltostr_loop_out:
  assumes "ltostr_out b n p = out" and "b = unat base" "n = unat number" "p = nat (sint pad)"
    and "2 \<le> b" "b \<le> 36" and "length out < 2 ^ 32"
    and "bytes_at m arr ltostr_digits" and "apart arr 36 (ret - of_nat (length out)) (length out)"
  shows "\<exists>m'. ltostr_loop arr base ret number pad m = Some (ret - of_nat (length out), m')
    \<and> bytes_at m' (ret - of_nat (length out)) (map digit_char out)
    \<and> (\<forall>x. \<not> in_region (ret - of_nat (length out)) (length out) x \<longrightarrow> m' x = m x)"
  using assms
proof (induction b n p arbitrary: out number pad m ret rule: ltostr_out.induct)
  case (1 b n p)
  let ?pad' = "if sint pad \<le> 0 then 0 else pad - 1"
  let ?m = "m(ret - 1 := m (arr + number mod base))"
  let ?k = "length out"
  have b: "\<not> b < 2" "b \<le> 36" using "1.prems" by auto
  have div_b: "n div b = unat (number div base)" using "1.prems" by (simp add: unat_div)
  have pad: "p - 1 = nat (sint ?pad')" "?pad' \<noteq> 0 \<longleftrightarrow> \<not> p \<le> 1"
    using "1.prems"(4) ltostr_pad_step [of pad] by auto
  have stop: "n div b = 0 \<and> p \<le> 1 \<longleftrightarrow> \<not> (number div base \<noteq> 0 \<or> ?pad' \<noteq> 0)"
    using pad div_b by (auto simp: unat_eq_0)
  have out: "out = (if n div b = 0 \<and> p \<le> 1 then [] else ltostr_out b (n div b) (p - 1)) @ [n mod b]"
    using "1.prems"(1) b by (subst (asm) ltostr_out.simps) auto
  have digit: "m (arr + number mod base) = digit_char (n mod b)"
  proof -
    have "n mod b < b" using b by simp
    then have "n mod b < 36" using b by linarith
    moreover have "number mod base = of_nat (n mod b)"
      using "1.prems"(2,3) by (simp flip: unat_mod)
    ultimately show ?thesis
      using "1.prems"(8) by (simp add: bytes_at_nth ltostr_digits_eq)
  qed
  show ?case
  proof (cases "n div b = 0 \<and> p \<le> 1")
    case True
    with out stop digit show ?thesis
      by (subst ltostr_loop.simps) (auto simp: Let_def in_region_def)
  next
    case False
    let ?out = "ltostr_out b (n div b) (p - 1)"
    have len: "?k = Suc (length ?out)" using out False by auto
    have short: "length ?out < 2 ^ 32" using len "1.prems"(7) by simp
    have start: "ret - 1 - of_nat (length ?out) = ret - of_nat ?k" by (simp add: len)
    have inreg: "in_region (ret - of_nat ?k) ?k (ret - 1)"
      using "1.prems"(7) by (simp add: in_region_def len)
    have digits: "bytes_at ?m arr ltostr_digits"
      using "1.prems"(8) apartD [OF "1.prems"(9)] inreg
      by (subst bytes_at_cong [where m = m]) auto
    have "apart arr 36 (ret - 1 - of_nat (length ?out)) (length ?out)"
      unfolding start by (rule apart_mono [OF "1.prems"(9)]) (auto simp: len)
    from "1.IH" [OF b(1) False refl "1.prems"(2) div_b pad(1) "1.prems"(5,6) short digits this]
    obtain m' where m': "ltostr_loop arr base (ret - 1) (number div base) ?pad' ?m =
          Some (ret - of_nat ?k, m')"
        "bytes_at m' (ret - of_nat ?k) (map digit_char ?out)"
        "\<And>x. \<not> in_region (ret - of_nat ?k) (length ?out) x \<Longrightarrow> m' x = ?m x"
      unfolding start by blast
    have last: "ret - of_nat ?k + of_nat (length ?out) = ret - 1" by (simp add: len)
    have "m' (ret - 1) = digit_char (n mod b)"
      using m'(3) [of "ret - 1"] "1.prems"(7) digit by (simp add: in_region_def len)
    moreover have "m' x = m x" if "\<not> in_region (ret - of_nat ?k) ?k x" for x
    proof -
      have "\<not> in_region (ret - of_nat ?k) (length ?out) x" "x \<noteq> ret - 1"
        using that inreg in_region_mono [of _ "length ?out" x ?k] len by auto
      then show ?thesis using m'(3) by simp
    qed
    moreover have "ltostr_loop arr base ret number pad m =
        ltostr_loop arr base (ret - 1) (number div base) ?pad' ?m"
      using stop False by (subst ltostr_loop.simps) (simp only: Let_def if_True simp_thms)
    moreover have "out = ?out @ [n mod b]" using out by (simp only: if_not_P [OF False])
    ultimately show ?thesis using m'(1,2) last by (intro exI [of _ m']) simp
  qed
qed

lemma ltostr_out_nonempty: "2 \<le> b \<Longrightarrow> ltostr_out b n p \<noteq> []"
  by (subst ltostr_out.simps) simp

text \<open>
  The layout \<open>ltostr\<close> needs: the digit string is in place and apart from the buffer.
\<close>

definition statics_ok :: "'a statics_scheme \<Rightarrow> mem \<Rightarrow> bool" where
  "statics_ok L m \<longleftrightarrow> bytes_at m (ltostr_arr L) ltostr_digits
     \<and> apart (ltostr_arr L) 36 (ltostr_buffer L) 50"

lemma ltostr_cstr:
  assumes L: "statics_ok L m" and b: "2 \<le> unat base" "unat base \<le> 36"
    and out: "out = ltostr_out (unat base) (unat number) (nat (sint pad))" and room: "length out \<le> 49"
  shows "\<exists>m'. ltostr L number base pad m = Some (ltostr_buffer L + 49 - of_nat (length out), m')
    \<and> cstr_at m' (ltostr_buffer L + 49 - of_nat (length out)) (map digit_char out)
    \<and> (\<forall>x. \<not> in_region (ltostr_buffer L) 50 x \<longrightarrow> m' x = m x)"
proof -
  let ?k = "length out" and ?m = "m(ltostr_buffer L + 49 := 0)"
  let ?lo = "ltostr_buffer L + of_nat (49 - ?k)"
  have off: "ltostr_buffer L + 49 - of_nat ?k = ?lo" using room by simp
  have buf: "in_region (ltostr_buffer L) 50 (ltostr_buffer L + 49)"
    by (simp add: in_region_def)
  have sub: "in_region (ltostr_buffer L) 50 x" if "in_region ?lo ?k x" for x
    by (rule in_subregion [OF that]) (use room in auto)
  have digits: "bytes_at ?m (ltostr_arr L) ltostr_digits"
    using L buf by (subst bytes_at_cong [where m = m])
      (auto simp: statics_ok_def dest: apartD)
  have "apart (ltostr_arr L) 36 ?lo ?k"
    by (rule apart_sub [where k = 50]) (use L room in \<open>auto simp: statics_ok_def\<close>)
  then obtain m' where m': "ltostr_loop (ltostr_arr L) base (ltostr_buffer L + 49) number pad ?m
        = Some (?lo, m')"
      "bytes_at m' ?lo (map digit_char out)" "\<And>x. \<not> in_region ?lo ?k x \<Longrightarrow> m' x = ?m x"
    using ltostr_loop_out [OF out [symmetric] refl refl refl b _ digits, of "ltostr_buffer L + 49"]
      room unfolding off by auto
  have "base \<noteq> 0" "base \<noteq> 1" using b by auto
  with m'(1) have "ltostr L number base pad m = Some (?lo, m')" by (simp add: ltostr_def Let_def)
  moreover have "cstr_at m' ?lo (map digit_char out)"
  proof -
    have end_lo: "?lo + of_nat ?k = ltostr_buffer L + 49" using room by simp
    have "\<not> in_region ?lo ?k (?lo + of_nat ?k)" using room by (simp add: in_region_def)
    then have "m' (?lo + of_nat ?k) = 0" using m'(3) by (simp add: end_lo)
    moreover have "d < 36" if "d \<in> set out" for d
      using that b(2) ltostr_out_digits out by (metis order_less_le_trans)
    then have "0 \<notin> digit_char ` set out" using digit_char_nonzero by (metis imageE)
    ultimately show ?thesis using m'(2) by (simp add: cstr_at_def)
  qed
  moreover have "m' x = m x" if "\<not> in_region (ltostr_buffer L) 50 x" for x
    using that m'(3) [of x] sub [of x] buf by (cases "x = ltostr_buffer L + 49") auto
  ultimately show ?thesis unfolding off by blast
qed

text \<open>Reading a decimal string back.\<close>

lemma kstrtol_loop_digits:
  "cstr_at m a (map digit_char ds) \<Longrightarrow> \<forall>d \<in> set ds. d < 10 \<Longrightarrow>
   kstrtol_loop m a (of_nat v) = Some (of_nat (foldl (\<lambda>v d. v * 10 + d) v ds))"
proof (induction ds arbitrary: a v)
  case Nil
  then show ?case by (subst kstrtol_loop.simps) simp
next
  case (Cons d ds)
  have d: "d < 10" using Cons.prems by simp
  have "list_all (\<lambda>d. char_int (digit_char d) = of_nat (48 + d)) [0..<10]"
    by code_simp
  with d have "char_int (digit_char d) = of_nat (48 + d)"
    by (simp add: list_all_iff)
  then have "of_nat v * 10 + (char_int (digit_char d) - 48) = (of_nat (v * 10 + d) :: u32)" by simp
  moreover have "kstrtol_loop m (a + 1) (of_nat (v * 10 + d)) =
      Some (of_nat (foldl (\<lambda>v d. v * 10 + d) (v * 10 + d) ds))"
    using Cons.prems by (intro Cons.IH) (auto simp: cstr_at_Cons)
  ultimately show ?case
    using Cons.prems by (subst kstrtol_loop.simps) (simp add: cstr_at_Cons)
qed

text \<open>Claim C23: a number written in decimal by \<open>ltostr\<close> (with any padding the 50-byte buffer
  has room for) and read back by \<open>kstrtol\<close> is the same 32-bit number; \<open>ltostr\<close> returns, and
  touches no byte outside its buffer.\<close>

theorem kstrtol_ltostr:
  assumes "statics_ok L m" and "sint pad \<le> 49"
  shows "\<exists>r m'. ltostr L number 10 pad m = Some (r, m') \<and> kstrtol m' r = Some number
    \<and> (\<forall>x. \<not> in_region (ltostr_buffer L) 50 x \<longrightarrow> m' x = m x)"
proof -
  let ?out = "ltostr_out 10 (unat number) (nat (sint pad))"
  have "unat number < 10 ^ 49"
    by (rule order_less_le_trans [OF unat_lt_u32]) simp
  then have room: "length ?out \<le> 49" by (intro ltostr_out_length) (use assms(2) in auto)
  obtain r m' where *: "ltostr L number 10 pad m = Some (r, m')" "cstr_at m' r (map digit_char ?out)"
      "\<forall>x. \<not> in_region (ltostr_buffer L) 50 x \<longrightarrow> m' x = m x"
    using ltostr_cstr [OF assms(1), of 10 ?out number pad] room by auto
  have "kstrtol m' r = Some (of_nat (foldl (\<lambda>v d. v * 10 + d) 0 ?out))"
    using kstrtol_loop_digits [OF *(2), of 0] by (auto simp: kstrtol_def dest: ltostr_out_digits)
  then have "kstrtol m' r = Some number" by (simp add: ltostr_out_value)
  with * show ?thesis by blast
qed

subsection \<open>Concatenation\<close>

lemma kstrcat_first_self:
  "cstr_at m (d + pos) xs \<Longrightarrow> kstrcat_first d d pos m = Some (pos + of_nat (length xs), m)"
proof (induction xs arbitrary: pos)
  case Nil
  then show ?case by (subst kstrcat_first.simps) simp
next
  case (Cons x xs)
  then have "cstr_at m (d + (pos + 1)) xs" "m (d + pos) \<noteq> 0" by (auto simp: cstr_at_Cons add.assoc)
  then show ?case by (subst kstrcat_first.simps) (simp add: Cons.IH add.assoc)
qed

lemma kstrcat_second_copies:
  "cstr_at m s ys \<Longrightarrow> apart (d + pos) (length ys) s (Suc (length ys)) \<Longrightarrow>
   \<exists>m'. kstrcat_second d s pos m = Some m' \<and> bytes_at m' (d + pos) ys
     \<and> (\<forall>x. \<not> in_region (d + pos) (length ys) x \<longrightarrow> m' x = m x)"
proof (induction ys arbitrary: s pos m)
  case Nil
  then show ?case by (subst kstrcat_second.simps) simp
next
  case (Cons y ys)
  let ?m = "m(d + pos := m s)"
  have y: "m s = y" "y \<noteq> 0" and ys: "cstr_at m (s + 1) ys" using Cons.prems by (auto simp: cstr_at_Cons)
  have len: "Suc (length ys) < 2 ^ 32" using cstr_at_short [OF Cons.prems(1)] by simp
  have ap: "apart (d + pos) (Suc (length ys)) (s + of_nat 1) (Suc (length ys))"
    by (rule apart_sub [of _ _ _ "Suc (length (y # ys))"]) (use Cons.prems(2) len in auto)
  have ys': "cstr_at ?m (s + 1) ys"
    using ys apartD [OF ap, of "d + pos"] len by (subst cstr_at_cong [where m = m]) auto
  have ap': "apart (d + (pos + 1)) (length ys) (s + 1) (Suc (length ys))"
    using apart_sub_left [OF ap, of 1 "length ys"] len by (simp add: add.assoc)
  from Cons.IH [OF ys' ap'] obtain m' where m': "kstrcat_second d (s + 1) (pos + 1) ?m = Some m'"
      "bytes_at m' (d + (pos + 1)) ys" "\<And>x. \<not> in_region (d + (pos + 1)) (length ys) x \<Longrightarrow> m' x = ?m x"
    by blast
  have reg: "in_region (d + pos) (Suc (length ys)) x \<longleftrightarrow>
      x = d + pos \<or> in_region (d + (pos + 1)) (length ys) x" for x
    using len by (simp add: in_region_Suc add.assoc)
  have "\<not> in_region (d + (pos + 1)) (length ys) (d + pos)"
    using len unat_m1_u32 by (simp add: in_region_def)
  then have "m' (d + pos) = y" using m'(3) y by simp
  with m' y reg show ?case
    by (subst kstrcat_second.simps) (auto simp: add.assoc)
qed

lemma kstrcat_append_lemma:
  assumes xs: "cstr_at m d xs" and ys: "cstr_at m s ys"
    and room: "length xs + length ys < 2 ^ 32 - 1"
    and apart_s: "apart (d + of_nat (length xs)) (length ys) s (Suc (length ys))"
    and zero: "m (d + of_nat (length xs + length ys)) = 0"
  shows "\<exists>m'. kstrcat d d s m = Some m' \<and> cstr_at m' d (xs @ ys)
    \<and> (\<forall>x. \<not> in_region (d + of_nat (length xs)) (length ys) x \<longrightarrow> m' x = m x)"
proof -
  let ?e = "d + of_nat (length xs)"
  from kstrcat_second_copies [OF ys apart_s] obtain m' where
    m': "kstrcat_second d s (of_nat (length xs)) m = Some m'" "bytes_at m' ?e ys"
      "\<And>x. \<not> in_region ?e (length ys) x \<Longrightarrow> m' x = m x"
    by blast
  have first: "kstrcat_first d d 0 m = Some (of_nat (length xs), m)"
    using kstrcat_first_self [of m d 0 xs] xs by simp
  have outside: "m' x = m x" if "in_region d (length xs) x \<or> x = ?e + of_nat (length ys)" for x
    using that m'(3) apart_adjacent [of "length xs" "length ys" d] room
    by (auto dest: apartD simp: in_region_def)
  have "cstr_at m' d (xs @ ys)"
  proof -
    have "bytes_at m' d xs"
      using xs outside room by (subst bytes_at_cong [where m = m]) (auto simp: cstr_at_def)
    moreover have "m' (d + of_nat (length xs + length ys)) = 0"
      using outside zero by (simp add: add.assoc)
    ultimately show ?thesis using m'(2) xs ys by (simp add: cstr_at_def add.assoc)
  qed
  moreover from this have "m'(d + of_nat (length (xs @ ys)) := 0) = m'"
    using cstr_at_end [of m' d "xs @ ys"] by (simp add: fun_upd_idem)
  ultimately have "kstrcat d d s m = Some m'"
    using first m'(1) by (simp add: kstrcat_def)
  with \<open>cstr_at m' d (xs @ ys)\<close> m'(3) show ?thesis by blast
qed

text \<open>Appending with \<open>kstrcat(d, d, s)\<close>: when the byte that will follow the result is
  already 0 (callers clear their buffers first) and \<open>s\<close> lies apart from the bytes written, the
  call returns, \<open>d\<close> holds the concatenation, and only the appended characters are written.\<close>

theorem kstrcat_append:
  assumes xs: "cstr_at m d xs" and ys: "cstr_at m s ys"
    and room: "length xs + length ys < 2 ^ 32 - 1"
    and apart_s: "apart (d + of_nat (length xs)) (length ys) s (Suc (length ys))"
    and zero: "m (d + of_nat (length xs + length ys)) = 0"
  shows "\<exists>m'. kstrcat d d s m = Some m' \<and> cstr_at m' d (xs @ ys)
    \<and> (\<forall>x. \<not> in_region (d + of_nat (length xs)) (length ys) x \<longrightarrow> m' x = m x)"
  by (rule kstrcat_append_lemma [OF assms])

subsection \<open>Blocks that hold a text\<close>

text \<open>The \<open>N\<close> bytes from \<open>a\<close> on are the text and then only zeros.\<close>

definition holds :: "mem \<Rightarrow> ptr \<Rightarrow> nat \<Rightarrow> u8 list \<Rightarrow> bool" where
  "holds m a N cs \<longleftrightarrow> length cs < N \<and> 0 \<notin> set cs
     \<and> (\<forall>j < N. m (a + of_nat j) = (if j < length cs then cs ! j else 0))"

lemma holds_cstr: "holds m a N cs \<Longrightarrow> cstr_at m a cs"
  unfolding holds_def cstr_at_def by (auto simp: bytes_at_nth nth_append)

lemma holds_cong:
  assumes "holds m a N cs" and "\<And>x. in_region a N x \<Longrightarrow> m' x = m x" and "N \<le> 2 ^ 32"
  shows "holds m' a N cs"
  using assms by (simp add: holds_def in_region_offsetI)

text \<open>A 0 where the last character is; in an empty text, before the block.\<close>

lemma holds_backspace:
  assumes h: "holds m a N cs" and N: "N < 2 ^ 32"
  shows "holds (m(a + of_nat (length cs) - 1 := 0)) a N (butlast cs)"
proof (cases "cs = []")
  case True
  have "a + of_nat j \<noteq> a - 1" if "j < N" for j
  proof -
    have "unat (of_nat j :: u32) \<noteq> unat (- 1 :: u32)" using that N by (simp add: unat_m1_u32)
    then show ?thesis by (metis add_left_cancel diff_conv_add_uminus)
  qed
  then show ?thesis using h True by (simp add: holds_def)
next
  case False
  then obtain k where k: "length cs = Suc k" by (cases cs) auto
  have "a + of_nat (length cs) - 1 = a + of_nat k" unfolding k by simp
  moreover have "(of_nat j = (of_nat k :: u32)) = (j = k)" if "j < N" for j
    using that h N k by (simp add: word_unat_eq_iff holds_def)
  ultimately show ?thesis using h k by (auto simp: holds_def butlast_conv_take dest: in_set_takeD)
qed

lemma holds_append:
  assumes h: "holds m a N cs" and ys: "cstr_at m src ys" and room: "length cs + length ys < N" and N: "N \<le> 2 ^ 32 - 1"
    and apart: "apart a N src (Suc (length ys))"
  shows "\<exists>m'. kstrcat a a src m = Some m' \<and> holds m' a N (cs @ ys) \<and> (\<forall>x. \<not> in_region a N x \<longrightarrow> m' x = m x)"
proof -
  let ?n = "length cs" and ?k = "length ys"
  have sub: "in_region a N x" if "in_region (a + of_nat ?n) ?k x" for x
    by (rule in_subregion [OF that]) (use room N in auto)
  have ap: "apart (a + of_nat ?n) ?k src (Suc ?k)" by (rule apart_sub_left [OF apart]) (use room N in auto)
  have zero: "m (a + of_nat (?n + ?k)) = 0" using h room by (simp add: holds_def del: of_nat_add)
  obtain m' where m': "kstrcat a a src m = Some m'" "cstr_at m' a (cs @ ys)"
    "\<And>x. \<not> in_region (a + of_nat ?n) ?k x \<Longrightarrow> m' x = m x"
    using kstrcat_append_lemma [OF holds_cstr [OF h] ys _ ap zero] room N by auto
  have "m' (a + of_nat j) = (if j < ?n + ?k then (cs @ ys) ! j else 0)" if j: "j < N" for j
  proof (cases "j < ?n + ?k")
    case True
    have "m' (a + of_nat j) = ((cs @ ys) @ [0]) ! j"
      using m'(2) True unfolding cstr_at_def bytes_at_nth by (simp del: append_assoc)
    also have "\<dots> = (cs @ ys) ! j" using True by (subst nth_append) simp
    finally show ?thesis using True by simp
  next
    case False
    have "of_nat j - of_nat ?n = (of_nat (j - ?n) :: u32)" using False by (intro of_nat_diff [symmetric]) simp
    moreover have "unat (of_nat (j - ?n) :: u32) = j - ?n" by (rule unat_of_nat_u32) (use j N in simp)
    ultimately have "unat (of_nat j - of_nat ?n :: u32) = j - ?n" by (simp only:)
    then have "\<not> in_region (a + of_nat ?n) ?k (a + of_nat j)" using False by (auto simp: in_region_def)
    then show ?thesis using m'(3) h j False by (simp add: holds_def)
  qed
  then have "holds m' a N (cs @ ys)"
    using m'(2) room by (auto simp: holds_def cstr_at_def)
  then show ?thesis using m'(1,3) sub by blast
qed

text \<open>\<open>kstrcat\<close> writes no terminator of its own: its last statement stores a 0 where
  \<open>kstrlen\<close> has just found one, so the memory it returns is that of the two copying loops.\<close>

theorem kstrcat_writes_no_terminator:
  "kstrcat d f s m = do {
     (pos, m1) \<leftarrow> kstrcat_first d f 0 m;
     m2 \<leftarrow> kstrcat_second d s pos m1;
     _ \<leftarrow> kstrlen m2 d;
     Some m2 }"
proof -
  have "m2(d + n := 0) = m2" if "kstrlen m2 d = Some n" for m2 n
    using that cstr_at_end by (fastforce simp: kstrlen_iff fun_upd_idem)
  then show ?thesis
    unfolding kstrcat_def by (auto intro!: Option.bind_cong split: prod.splits)
qed

subsection \<open>Tokens\<close>

lemma is_delim_cstr [simp]: "cstr_at m delim ds \<Longrightarrow> is_delim m c delim = Some (c \<in> set ds)"
proof (induction ds arbitrary: delim)
  case Nil
  then show ?case by (subst is_delim.simps) simp
next
  case (Cons d ds)
  then show ?case by (subst is_delim.simps) (auto simp: cstr_at_Cons)
qed

lemma kstrtok_skip_cstr:
  assumes "cstr_at m delim ds"
  shows "cstr_at m t cs \<Longrightarrow> kstrtok_skip m delim t =
    (let rest = dropWhile (\<lambda>c. c \<in> set ds) cs
     in Some (if rest = [] then None else Some (t + of_nat (length cs - length rest))))"
proof (induction cs arbitrary: t)
  case Nil
  moreover have "0 \<notin> set ds" using assms by (simp add: cstr_at_def)
  ultimately show ?case using assms by (subst kstrtok_skip.simps) simp
next
  case (Cons c cs)
  have "length (dropWhile (\<lambda>c. c \<in> set ds) cs) \<le> length cs" by (rule length_dropWhile_le)
  with Cons show ?case
    using assms by (subst kstrtok_skip.simps) (auto simp: cstr_at_Cons Let_def Suc_diff_le)
qed

lemma kstrtok_scan_cstr:
  assumes "cstr_at m delim ds"
  shows "cstr_at m t cs \<Longrightarrow> kstrtok_scan delim t m =
    (let tok = takeWhile (\<lambda>c. c \<notin> set ds) cs; e = t + of_nat (length tok)
     in Some (if length tok = length cs then (e, m) else (e + 1, m(e := 0))))"
proof (induction cs arbitrary: t)
  case Nil
  then show ?case by (subst kstrtok_scan.simps) simp
next
  case (Cons c cs)
  then show ?case
    using assms by (subst kstrtok_scan.simps) (auto simp: cstr_at_Cons Let_def add.assoc)
qed

text \<open>Cutting a string at a byte leaves the string before it and the string after it.\<close>

lemma cstr_at_cut:
  assumes "cstr_at m a cs" and "i < length cs"
  shows "cstr_at (m(a + of_nat i := 0)) a (take i cs)"
    and "cstr_at (m(a + of_nat i := 0)) (a + of_nat (Suc i)) (drop (Suc i) cs)"
proof -
  let ?m = "m(a + of_nat i := 0)"
  have len: "length cs < 2 ^ 32" using assms(1) by (rule cstr_at_short)
  have same: "?m (a + of_nat j) = m (a + of_nat j)" if "j \<noteq> i" "j \<le> length cs" for j
    using that assms(2) len by (auto simp: of_nat_eq_iff_u32)
  have nth: "m (a + of_nat j) = (cs @ [0]) ! j" if "j \<le> length cs" for j
    using that assms(1) unfolding cstr_at_def bytes_at_nth by auto
  have "bytes_at ?m a (take i cs @ [0])"
    using assms(2) same nth by (auto simp: bytes_at_nth nth_append less_Suc_eq)
  moreover have "0 \<notin> set (take i cs)"
    using assms(1) by (meson cstr_at_def in_set_takeD)
  ultimately show "cstr_at ?m a (take i cs)" by (simp only: cstr_at_def simp_thms)
  have "bytes_at ?m (a + of_nat (Suc i)) (drop (Suc i) (cs @ [0]))"
    unfolding bytes_at_nth
  proof (intro allI impI)
    fix j assume j: "j < length (drop (Suc i) (cs @ [0]))"
    have "?m (a + of_nat (Suc i + j)) = (cs @ [0]) ! (Suc i + j)"
      using j same [of "Suc i + j"] nth [of "Suc i + j"] by auto
    moreover have "drop (Suc i) (cs @ [0]) ! j = (cs @ [0]) ! (Suc i + j)"
      by (rule nth_drop) (use assms(2) in simp)
    ultimately show "?m (a + of_nat (Suc i) + of_nat j) = drop (Suc i) (cs @ [0]) ! j"
      by (simp only: of_nat_add add.assoc)
  qed
  moreover have "0 \<notin> set (drop (Suc i) cs)"
    using assms(1) by (meson cstr_at_def in_set_dropD)
  ultimately show "cstr_at ?m (a + of_nat (Suc i)) (drop (Suc i) cs)"
    using assms(2) by (simp only: cstr_at_def simp_thms) simp
qed

text \<open>One call of \<open>kstrtok\<close> on a string \<open>cs\<close> (given as \<open>to_tok\<close>, or remembered in
  \<open>static_str\<close> when \<open>to_tok\<close> is 0): with only delimiters left it returns 0; otherwise it
  returns a pointer to the first token, cut off from the rest in place, and remembers the rest.\<close>

theorem kstrtok_step:
  fixes m :: mem
  assumes t: "t = (if to_tok = 0 then static_str else to_tok)" "t \<noteq> 0"
    and cs: "cstr_at m t cs" and ds: "cstr_at m delim ds"
    and rest: "rest = dropWhile (\<lambda>c. c \<in> set ds) cs"
    and tok: "tok = takeWhile (\<lambda>c. c \<notin> set ds) rest"
  shows "if rest = [] then kstrtok to_tok delim static_str m = Some (0, static_str, m)
    else \<exists>static_str' m'. kstrtok to_tok delim static_str m
        = Some (t + of_nat (length cs - length rest), static_str', m')
      \<and> cstr_at m' (t + of_nat (length cs - length rest)) tok
      \<and> cstr_at m' static_str' (drop (Suc (length tok)) rest)
      \<and> (\<forall>x. \<not> in_region t (length cs) x \<longrightarrow> m' x = m x)"
proof (cases "rest = []")
  case True
  with kstrtok_skip_cstr [OF ds cs] t show ?thesis by (simp add: kstrtok_def rest Let_def)
next
  case False
  let ?i = "length cs - length rest"
  have le: "length rest \<le> length cs" unfolding rest by (rule length_dropWhile_le)
  have rest_eq: "rest = drop ?i cs"
    unfolding rest dropWhile_eq_drop by (simp add: length_takeWhile_le)
  have at: "cstr_at m (t + of_nat ?i) rest"
    using cstr_at_drop [OF cs, of ?i] rest_eq by simp
  have skip: "kstrtok_skip m delim t = Some (Some (t + of_nat ?i))"
    using kstrtok_skip_cstr [OF ds cs] False by (simp add: Let_def flip: rest)
  have tok_take: "tok = take (length tok) rest" unfolding tok by (rule takeWhile_eq_take)
  have tok_le: "length tok \<le> length rest" unfolding tok by (rule length_takeWhile_le)
  show ?thesis
  proof (cases "length tok = length rest")
    case True
    then have "cstr_at m (t + of_nat ?i) tok" using at tok_take by simp
    moreover have "kstrtok to_tok delim static_str m
        = Some (t + of_nat ?i, t + of_nat ?i + of_nat (length rest), m)"
      using skip kstrtok_scan_cstr [OF ds at] t True
      by (simp add: kstrtok_def Let_def flip: tok)
    moreover have "cstr_at m (t + of_nat ?i + of_nat (length rest)) []"
      using cstr_at_end [OF at] by simp
    ultimately show ?thesis using False True by simp
  next
    case cut: False
    let ?e = "t + of_nat ?i + of_nat (length tok)"
    have lt: "length tok < length rest" using cut tok_le by simp
    have "kstrtok to_tok delim static_str m = Some (t + of_nat ?i, ?e + 1, m(?e := 0))"
      using skip kstrtok_scan_cstr [OF ds at] t cut
      by (simp add: kstrtok_def Let_def flip: tok)
    moreover have "cstr_at (m(?e := 0)) (t + of_nat ?i) tok"
      "cstr_at (m(?e := 0)) (?e + 1) (drop (Suc (length tok)) rest)"
      using cstr_at_cut [OF at lt] tok_take by (simp_all add: algebra_simps)
    moreover have "in_region t (length cs) (t + of_nat (?i + length tok))"
      using lt le cstr_at_short [OF cs] by (intro in_region_offsetI) linarith+
    then have "in_region t (length cs) ?e" by (simp only: of_nat_add add.assoc)
    ultimately show ?thesis using False by (auto simp del: of_nat_diff)
  qed
qed

end
