(* ===== verification/Interfaces.thy ===== *)
theory Interfaces
  imports Prelude
begin

text \<open>
  The contracts between components, as locales. Each is interpreted on the model's own definitions
  in the theory of the component that provides it.
\<close>

subsection \<open>One block at a time: what clients of the page allocator rely on\<close>

text \<open>
  \<open>live s\<close> are the addresses of the blocks handed out and not yet freed. \<open>alloc\<close> gives 0 and
  changes nothing when it fails; otherwise a block that was not live. \<open>free\<close> returns on a live
  block and takes back that block only.
\<close>

locale page_allocator =
  fixes alloc :: "'s \<Rightarrow> ptr \<times> 's"
    and free :: "ptr \<Rightarrow> 's \<Rightarrow> 's option"
    and live :: "'s \<Rightarrow> ptr set"
    and inv :: "'s \<Rightarrow> bool"
  assumes alloc_null: "inv s \<Longrightarrow> alloc s = (0, s') \<Longrightarrow> s' = s"
    and alloc_new: "inv s \<Longrightarrow> alloc s = (a, s') \<Longrightarrow> a \<noteq> 0 \<Longrightarrow>
      a \<notin> live s \<and> live s' = insert a (live s) \<and> inv s'"
    and free_live: "inv s \<Longrightarrow> a \<in> live s \<Longrightarrow>
      \<exists>s'. free a s = Some s' \<and> live s' = live s - {a} \<and> inv s'"
    and null_not_live: "inv s \<Longrightarrow> 0 \<notin> live s"
begin

lemma alloc_inv: "inv s \<Longrightarrow> alloc s = (a, s') \<Longrightarrow> inv s'"
  by (metis alloc_new alloc_null)

lemma alloc_keeps_live: "inv s \<Longrightarrow> alloc s = (a, s') \<Longrightarrow> live s \<subseteq> live s'"
  by (metis alloc_new alloc_null subset_insertI order_refl)

lemma two_allocs_distinct:
  assumes "inv s" "alloc s = (a, s1)" "a \<noteq> 0" "alloc s1 = (b, s2)" "b \<noteq> 0"
  shows "a \<noteq> b \<and> a \<in> live s2 \<and> b \<in> live s2 \<and> a \<notin> live s \<and> b \<notin> live s \<and> inv s2"
  using alloc_new [OF assms(1-3)] alloc_new [OF _ assms(4,5)] by auto

lemma alloc_free_restores:
  assumes "inv s" "alloc s = (a, s1)" "a \<noteq> 0"
  shows "\<exists>s2. free a s1 = Some s2 \<and> live s2 = live s \<and> inv s2"
proof -
  from alloc_new [OF assms] have a: "a \<notin> live s" "live s1 = insert a (live s)" "inv s1" by auto
  with free_live [of s1 a] show ?thesis by auto
qed

lemma free_keeps_others:
  assumes "inv s" "a \<in> live s" "free a s = Some s'" "b \<in> live s" "b \<noteq> a"
  shows "b \<in> live s'"
  using free_live [OF assms(1,2)] assms by auto

end

subsection \<open>Countdowns: what the drivers rely on when they poll with a timeout\<close>

text \<open>
  \<open>wait c\<close> with \<open>c > 0\<close> arms the countdown at the counter's present value, \<open>wait 0\<close> polls it.
\<close>

locale countdown =
  fixes now :: "'s \<Rightarrow> u32"
    and wait :: "u32 \<Rightarrow> 's \<Rightarrow> u32 \<times> 's"
    and start :: "'s \<Rightarrow> u32"
  assumes arm: "c \<noteq> 0 \<Longrightarrow> wait c s = (r, s') \<Longrightarrow> start s' = now s + c - 1 \<and> now s' = now s"
    and poll: "wait 0 s = (if now s > start s then 1 else 0, s)"
begin

lemma expires:
  assumes c: "c \<noteq> 0" and nowrap: "unat (now s) + unat c \<le> 2 ^ 32" and w: "wait c s = (r, s')"
    and later: "start u = start s'" and "now s \<le> now u"
  shows "wait 0 u = (if unat (now s) + unat c \<le> unat (now u) then 1 else 0, u)"
proof -
  have pos: "0 < unat c" using c by (simp add: unat_gt_0)
  have "start u = now s + (c - 1)" using arm [OF c w] later by simp
  moreover have "unat (now s + (c - 1)) = unat (now s) + unat c - 1"
    using pos nowrap unat_pred_u32 [OF c] by (simp add: unat_add_u32)
  ultimately have "start u < now u \<longleftrightarrow> unat (now s) + unat c \<le> unat (now u)"
    using pos by (auto simp: word_less_nat_alt)
  then show ?thesis by (simp add: poll)
qed

end

subsection \<open>Slots that are filled once: handler and listener registration\<close>

text \<open>
  \<open>install h\<close> puts the non-null pointer \<open>h\<close> into an empty slot and reports 0; into a filled slot
  it puts nothing and reports an error.
\<close>

locale one_shot_slot =
  fixes slot :: "'s \<Rightarrow> ptr"
    and install :: "ptr \<Rightarrow> 's \<Rightarrow> u32 \<times> 's"
  assumes install_empty: "slot s = 0 \<Longrightarrow> h \<noteq> 0 \<Longrightarrow> \<exists>s'. install h s = (0, s') \<and> slot s' = h"
    and install_filled: "slot s \<noteq> 0 \<Longrightarrow> h \<noteq> 0 \<Longrightarrow> \<exists>e. e \<noteq> 0 \<and> install h s = (e, s)"
begin

lemma first_wins:
  assumes "slot s = 0" "h \<noteq> 0" "install h s = (r, s1)" and "g \<noteq> 0" "install g s1 = (r', s2)"
  shows "r = 0 \<and> r' \<noteq> 0 \<and> s2 = s1 \<and> slot s2 = h"
  using install_empty [OF assms(1,2)] install_filled [of s1 g] assms by auto

lemma filled_for_good:
  "slot s \<noteq> 0 \<Longrightarrow> \<forall>h \<in> set hs. h \<noteq> 0 \<Longrightarrow> fold (\<lambda>h s. snd (install h s)) hs s = s"
proof (induction hs)
  case (Cons h hs)
  then obtain e where "install h s = (e, s)" using install_filled [of s h] by auto
  with Cons show ?case by simp
qed simp

end

subsection \<open>Round robin: what a fair scheduler promises\<close>

text \<open>
  A queue of clients with the next one in front: every event makes the front one current and puts
  it back at the end. \<open>run_events\<close> gives the states after each of a sequence of events.
\<close>

fun run_events :: "('e \<Rightarrow> 's \<Rightarrow> 's option) \<Rightarrow> 'e list \<Rightarrow> 's \<Rightarrow> 's list option" where
  "run_events f [] s = Some []"
| "run_events f (e # es) s = do { s' \<leftarrow> f e s; ss \<leftarrow> run_events f es s'; Some (s' # ss) }"

locale round_robin =
  fixes ok :: "'s \<Rightarrow> bool"
    and queue :: "'s \<Rightarrow> 'p list"
    and current :: "'s \<Rightarrow> 'p"
    and tick :: "'e \<Rightarrow> 's \<Rightarrow> 's option"
  assumes nonempty: "ok s \<Longrightarrow> queue s \<noteq> []"
    and turn: "ok s \<Longrightarrow> \<exists>s'. tick e s = Some s' \<and> ok s' \<and> queue s' = rotate1 (queue s) \<and> current s' = hd (queue s)"
begin

lemma run_turns:
  "ok s \<Longrightarrow> \<exists>ss. run_events tick es s = Some ss
    \<and> map current ss = map (\<lambda>i. queue s ! (i mod length (queue s))) [0..<length es]"
proof (induction es arbitrary: s)
  case (Cons e es)
  obtain s' where s': "tick e s = Some s'" "ok s'" "queue s' = rotate1 (queue s)" "current s' = hd (queue s)"
    using turn [OF Cons.prems] by blast
  obtain ss where ss: "run_events tick es s' = Some ss"
    "map current ss = map (\<lambda>i. queue s' ! (i mod length (queue s'))) [0..<length es]"
    using Cons.IH [OF s'(2)] by blast
  have q: "queue s \<noteq> []" by (rule nonempty [OF Cons.prems])
  have "queue s' ! (i mod length (queue s')) = queue s ! (Suc i mod length (queue s))" for i
    using q nth_rotate1 [of "i mod length (queue s)" "queue s"] by (simp add: s'(3) mod_Suc_eq)
  then have "map current (s' # ss) = map (\<lambda>i. queue s ! (i mod length (queue s))) (0 # map Suc [0..<length es])"
    using q by (simp add: ss(2) s'(4) hd_conv_nth)
  also have "0 # map Suc [0..<length es] = [0..<length (e # es)]" by (simp add: map_Suc_upt upt_conv_Cons del: upt_Suc)
  finally show ?case using s'(1) ss(1) by auto
qed simp

text \<open>Nobody waits longer than the queue is long.\<close>

lemma everyone_served:
  assumes "ok s" and "p \<in> set (queue s)" and "length (queue s) \<le> length es"
  shows "\<exists>ss. run_events tick es s = Some ss \<and> p \<in> current ` set ss"
proof -
  obtain ss where ss: "run_events tick es s = Some ss"
    "map current ss = map (\<lambda>i. queue s ! (i mod length (queue s))) [0..<length es]"
    using run_turns [OF assms(1)] by blast
  obtain i where i: "i < length (queue s)" "p = queue s ! i" using assms(2) by (auto simp: in_set_conv_nth)
  then have "p = queue s ! (i mod length (queue s))" "i < length es" using assms(3) by simp_all
  then have "p \<in> set (map current ss)" unfolding ss(2) by auto
  then show ?thesis using ss(1) by auto
qed

end

end
