(* ===== verification/Mmanager.thy ===== *)
theory Mmanager
  imports Strings Interfaces "HOL-Library.Signed_Division"
begin

text \<open>
  \<open>kernel/memory/mmanager.c\<close> and the structures of \<open>mmanager.h\<close>: the physical page
  allocator. The page table is the C array \<open>page_table[]\<close>, two bytes per page, read and written
  by a signed index; it is a function from the index to the entry, so that an access outside
  \<open>0 .. page_table_size - 1\<close> (which the code does not prevent) is an access to the entry there and
  not an error. The debug output of \<open>init_memory\<close> (\<open>kprintf\<close>) is left out.

  One-bit bit-fields are \<open>bool\<close>s: assigning an integer to such a field keeps its lowest bit.
\<close>

subsection \<open>Data\<close>

record mmap_entry =
  base_high :: u32
  base_low :: u32
  length_high :: u32
  length_low :: u32
  attributes :: u32
  region_type :: u32

record page_entry =
  pid :: u8
  used :: bool
  unusable :: bool
  linked_to_next :: bool
  linked_to_last :: bool
  read_bit :: bool
  write_bit :: bool
  execute_bit :: bool
  reserved :: bool

record mm =
  max_address :: u32
  total_usable :: u32
  page_table :: "int \<Rightarrow> page_entry"
  page_table_size :: u32

text \<open>A C compound literal gives the fields in the order of the declaration; fields left out are 0.\<close>

definition bitfield1 :: "u32 \<Rightarrow> bool" where
  "bitfield1 v \<longleftrightarrow> bit v 0"

definition entry_of :: "u8 \<Rightarrow> u32 \<Rightarrow> u32 \<Rightarrow> u32 \<Rightarrow> u32 \<Rightarrow> u32 \<Rightarrow> u32 \<Rightarrow> u32 \<Rightarrow> u32 \<Rightarrow> page_entry" where
  "entry_of p u un ln ll r w x re = \<lparr>pid = p, used = bitfield1 u, unusable = bitfield1 un,
     linked_to_next = bitfield1 ln, linked_to_last = bitfield1 ll, read_bit = bitfield1 r,
     write_bit = bitfield1 w, execute_bit = bitfield1 x, reserved = bitfield1 re\<rparr>"

abbreviation zero_entry :: page_entry where
  "zero_entry \<equiv> entry_of 0 0 0 0 0 0 0 0 0"

text \<open>The two literals of \<open>init_memory\<close>: eight initialisers for nine fields.\<close>

definition taken_entry :: page_entry where
  "taken_entry = entry_of 1 1 0 0 0 0 0 1 0"

definition open_entry :: page_entry where
  "open_entry = entry_of 0 0 0 0 1 1 1 0 0"

subsection \<open>Setting up the page table\<close>

text \<open>\<open>check_sorted\<close> compares entries \<open>1 .. mmap_entries - 2\<close> with their predecessors.\<close>

function check_sorted_loop :: "(int \<Rightarrow> mmap_entry) \<Rightarrow> int \<Rightarrow> int \<Rightarrow> int" where
  "check_sorted_loop mmap mmap_entries i =
     (if i < mmap_entries - 1 then
        (if base_low (mmap i) < base_low (mmap (i - 1)) + length_low (mmap (i - 1)) then i
         else check_sorted_loop mmap mmap_entries (i + 1))
      else 0)"
  by pat_completeness auto
termination
  by (relation "measure (\<lambda>(mmap, n, i). nat (n - i))") auto

definition check_sorted :: "(int \<Rightarrow> mmap_entry) \<Rightarrow> int \<Rightarrow> int" where
  "check_sorted mmap mmap_entries = check_sorted_loop mmap mmap_entries 1"

text \<open>\<open>sort_mmap\<close> does not sort: it hangs the kernel when the check fails.\<close>

definition sort_mmap :: "(int \<Rightarrow> mmap_entry) \<Rightarrow> int \<Rightarrow> unit option" where
  "sort_mmap mmap mmap_entries = (if check_sorted mmap mmap_entries \<noteq> 0 then None else Some ())"

definition get_ram_size :: "'a mm_scheme \<Rightarrow> u32" where
  "get_ram_size s = max_address s"

function reserve_loop :: "int \<Rightarrow> u32 \<Rightarrow> int \<Rightarrow> (int \<Rightarrow> page_entry) \<Rightarrow> (int \<Rightarrow> page_entry)" where
  "reserve_loop pages permissions i pt =
     (if i < pages then
        reserve_loop pages permissions (i + 1)
          (pt(i := entry_of 1 1 0 0 (permissions AND 4) (permissions AND 2) (permissions AND 1) 1 0))
      else pt)"
  by pat_completeness auto
termination
  by (relation "measure (\<lambda>(n, p, i, pt). nat (n - i))") auto

definition reserve :: "ptr \<Rightarrow> int \<Rightarrow> u32 \<Rightarrow> 'a mm_scheme \<Rightarrow> 'a mm_scheme" where
  "reserve address pages permissions s =
     s\<lparr>page_table := reserve_loop pages permissions (sint address sdiv 4096) (page_table s)\<rparr>"

function init_limits :: "(int \<Rightarrow> mmap_entry) \<Rightarrow> int \<Rightarrow> int \<Rightarrow> 'a mm_scheme \<Rightarrow> 'a mm_scheme" where
  "init_limits mmap mmap_entries i s =
     (if i < mmap_entries then
        (let limit = base_low (mmap i) + length_low (mmap i);
             mx = (if limit > max_address s then limit else max_address s)
         in init_limits mmap mmap_entries (i + 1)
              (s\<lparr>max_address := mx, total_usable := mx - 0x100000 div 4096\<rparr>))
      else s)"
  by pat_completeness auto
termination
  by (relation "measure (\<lambda>(mmap, n, i, s). nat (n - i))") auto

text \<open>
  The comparisons are C's: \<open>i * 4096\<close> is an \<open>int\<close>; against another \<open>int\<close> it is compared signed,
  against an \<open>unsigned\<close> operand it is converted and compared unsigned.
\<close>

definition init_page_taken :: "(int \<Rightarrow> mmap_entry) \<Rightarrow> u32 \<Rightarrow> int \<Rightarrow> int \<Rightarrow> int \<Rightarrow> bool" where
  "init_page_taken mmap table_size ent ent' i =
     (let a = (word_of_int (i * 4096) :: u32);
          last_entry_max_address = (if ent \<noteq> 0 then 1 else 0) * length_low (mmap ent) + base_low (mmap ent)
      in (a < base_low (mmap ent') \<and> sint a > sint last_entry_max_address)
         \<or> a < 0x100000 + table_size * 2
         \<or> region_type (mmap ent') \<noteq> 1)"

text \<open>\<open>init_fill_loop\<close> is the page loop; \<open>ent\<close> is \<open>current_ent\<close> at its head.\<close>

function init_fill_loop ::
    "(int \<Rightarrow> mmap_entry) \<Rightarrow> int \<Rightarrow> int \<Rightarrow> 'a mm_scheme \<Rightarrow> 'a mm_scheme" where
  "init_fill_loop mmap ent i s =
     (if i < uint (max_address s div 4096) then
        (let entry_max_address = length_low (mmap ent) + base_low (mmap ent);
             ent' = (if sint (word_of_int (i * 4096) :: u32) \<ge> sint entry_max_address
                     then ent + 1 else ent)
         in if init_page_taken mmap (page_table_size s) ent ent' i
            then init_fill_loop mmap ent' (i + 1)
                   (s\<lparr>page_table := (page_table s)(i := taken_entry),
                      total_usable := total_usable s - 4096\<rparr>)
            else init_fill_loop mmap ent' (i + 1)
                   (s\<lparr>page_table := (page_table s)(i := open_entry)\<rparr>))
      else s)"
  by pat_completeness auto
termination
  by (relation "measure (\<lambda>(mmap, ent, i, s). nat (uint (max_address s div 4096) - i))")
     (auto simp: Let_def)

definition init_memory :: "(int \<Rightarrow> mmap_entry) \<Rightarrow> int \<Rightarrow> 'a mm_scheme \<Rightarrow> 'a mm_scheme option" where
  "init_memory mmap mmap_entries s = do {
     let s1 = init_limits mmap mmap_entries 0 s;
     _ \<leftarrow> sort_mmap mmap mmap_entries;
     Some (init_fill_loop mmap 0 0 (s1\<lparr>page_table_size := max_address s1 div 4096\<rparr>)) }"

text \<open>\<open>i * 4096\<close>, an \<open>int\<close>, converted to a pointer.\<close>

definition page_addr :: "int \<Rightarrow> ptr" where
  "page_addr i = word_of_int (i * 4096)"

subsection \<open>Allocating\<close>

text \<open>The loop bound of \<open>check_free\<close> is \<open>i + start < start + sz\<close> with \<open>i\<close> starting at \<open>start\<close>.\<close>

function check_free_loop :: "(int \<Rightarrow> page_entry) \<Rightarrow> int \<Rightarrow> int \<Rightarrow> int \<Rightarrow> bool" where
  "check_free_loop pt start sz i =
     (if i + start < start + sz then
        (if used (pt i) \<or> unusable (pt i) \<or> reserved (pt i) then False
         else check_free_loop pt start sz (i + 1))
      else True)"
  by pat_completeness auto
termination
  by (relation "measure (\<lambda>(pt, start, sz, i). nat (sz - i))") auto

definition check_free :: "(int \<Rightarrow> page_entry) \<Rightarrow> int \<Rightarrow> int \<Rightarrow> bool" where
  "check_free pt start sz = check_free_loop pt start sz start"

text \<open>The outer loop of \<open>kmalloc\<close> and \<open>kumalloc\<close>: the index of the page the block starts at.\<close>

function kmalloc_search :: "'a mm_scheme \<Rightarrow> int \<Rightarrow> int \<Rightarrow> int option" where
  "kmalloc_search s sz i =
     (if i < uint (page_table_size s) then
        (if \<not> used (page_table s i) \<and> \<not> unusable (page_table s i)
            \<and> check_free (page_table s) i sz
         then Some i else kmalloc_search s sz (i + 1))
      else None)"
  by pat_completeness auto
termination
  by (relation "measure (\<lambda>(s, sz, i). nat (uint (page_table_size s) - i))") auto

definition block_entry :: "u32 \<Rightarrow> u32 \<Rightarrow> int \<Rightarrow> int \<Rightarrow> page_entry" where
  "block_entry permissions p sz j = zero_entry\<lparr>
     linked_to_next := j < sz - 1, linked_to_last := j > 0, used := True,
     read_bit := bitfield1 (permissions AND 4), write_bit := bitfield1 (permissions AND 2),
     execute_bit := bitfield1 (permissions AND 1), pid := ucast p\<rparr>"

text \<open>The inner loop: write the entries of the block from page \<open>i + j\<close> on.\<close>

function kmalloc_mark :: "u32 \<Rightarrow> u32 \<Rightarrow> int \<Rightarrow> int \<Rightarrow> int \<Rightarrow> (int \<Rightarrow> page_entry) \<Rightarrow> (int \<Rightarrow> page_entry)" where
  "kmalloc_mark permissions p i sz j pt =
     (if j < sz then
        kmalloc_mark permissions p i sz (j + 1) (pt(i + j := block_entry permissions p sz j))
      else pt)"
  by pat_completeness auto
termination
  by (relation "measure (\<lambda>(perm, p, i, sz, j, pt). nat (sz - j))") auto

definition kumalloc :: "int \<Rightarrow> u32 \<Rightarrow> u32 \<Rightarrow> 'a mm_scheme \<Rightarrow> ptr \<times> 'a mm_scheme" where
  "kumalloc size_pgs perms p s =
     (case kmalloc_search s size_pgs (0x100000 div 4096) of
        None \<Rightarrow> (0, s)
      | Some i \<Rightarrow> (page_addr i,
          s\<lparr>page_table := kmalloc_mark perms p i size_pgs 0 (page_table s)\<rparr>))"

text \<open>\<open>kmalloc\<close> repeats the body of \<open>kumalloc\<close> with \<open>pid\<close> 0.\<close>

definition kmalloc :: "int \<Rightarrow> u32 \<Rightarrow> 'a mm_scheme \<Rightarrow> ptr \<times> 'a mm_scheme" where
  "kmalloc sz permissions s =
     (case kmalloc_search s sz (0x100000 div 4096) of
        None \<Rightarrow> (0, s)
      | Some i \<Rightarrow> (page_addr i,
          s\<lparr>page_table := kmalloc_mark permissions 0 i sz 0 (page_table s)\<rparr>))"

subsection \<open>Freeing\<close>

text \<open>The two loops of \<open>kfree\<close> follow links and need not end; its result is always the null pointer.\<close>

partial_function (option) kfree_back :: "(int \<Rightarrow> page_entry) \<Rightarrow> int \<Rightarrow> int option" where
  "kfree_back pt i = (if linked_to_last (pt i) then kfree_back pt (i - 1) else Some i)"

partial_function (option) kfree_forward ::
    "int \<Rightarrow> (int \<Rightarrow> page_entry) \<Rightarrow> (int \<Rightarrow> page_entry) option" where
  "kfree_forward i pt =
     (if linked_to_next (pt i) then kfree_forward (i + 1) (pt(i := zero_entry))
      else Some (pt(i := zero_entry)))"

definition kfree :: "ptr \<Rightarrow> 'a mm_scheme \<Rightarrow> 'a mm_scheme option" where
  "kfree p s = do {
     i \<leftarrow> kfree_back (page_table s) (uint (p div 4096));
     pt \<leftarrow> kfree_forward i (page_table s);
     Some (s\<lparr>page_table := pt\<rparr>) }"

partial_function (option) kfree_pid_loop ::
    "u32 \<Rightarrow> u32 \<Rightarrow> int \<Rightarrow> 'a mm_scheme \<Rightarrow> 'a mm_scheme option" where
  "kfree_pid_loop p num_allocated i s =
     (if i < uint (page_table_size s) then do {
        (num', s') \<leftarrow>
          (if ucast (pid (page_table s i)) = p then do {
             s1 \<leftarrow> kfree (page_addr i) s;
             Some (num_allocated - 1, s1) }
           else Some (num_allocated, s));
        if num' = 0 then Some s' else kfree_pid_loop p num' (i + 1) s' }
      else Some s)"

definition kfree_pid :: "u32 \<Rightarrow> u32 \<Rightarrow> 'a mm_scheme \<Rightarrow> 'a mm_scheme option" where
  "kfree_pid p num_allocated s = kfree_pid_loop p num_allocated (0x100000 div 4096) s"

subsection \<open>Counting\<close>

function get_used_loop :: "'a mm_scheme \<Rightarrow> int \<Rightarrow> u32 \<Rightarrow> u32" where
  "get_used_loop s i allocated_count =
     (if i < uint (page_table_size s) then
        get_used_loop s (i + 1)
          (if used (page_table s i) \<and> \<not> (unusable (page_table s i) \<or> reserved (page_table s i))
           then allocated_count + 1 else allocated_count)
      else allocated_count)"
  by pat_completeness auto
termination
  by (relation "measure (\<lambda>(s, i, c). nat (uint (page_table_size s) - i))") auto

definition get_used_pages :: "'a mm_scheme \<Rightarrow> u32" where
  "get_used_pages s = get_used_loop s 0 0"

definition get_free_pages :: "'a mm_scheme \<Rightarrow> u32" where
  "get_free_pages s = page_table_size s - get_used_pages s"

declare check_sorted_loop.simps [simp del] reserve_loop.simps [simp del]
  init_limits.simps [simp del] init_fill_loop.simps [simp del] check_free_loop.simps [simp del]
  kmalloc_search.simps [simp del] kmalloc_mark.simps [simp del] get_used_loop.simps [simp del]

subsection \<open>What the search finds\<close>

abbreviation table_len :: "'a mm_scheme \<Rightarrow> int" where
  "table_len s \<equiv> uint (page_table_size s)"

text \<open>What the code tests before it takes a page: \<open>check_free\<close> apart, neither used nor unusable.\<close>

definition free_entry :: "page_entry \<Rightarrow> bool" where
  "free_entry e \<longleftrightarrow> \<not> used e \<and> \<not> unusable e"

lemma bitfield1_numeral [simp]: "\<not> bitfield1 0" "bitfield1 1"
  by (simp_all add: bitfield1_def)

text \<open>\<open>permissions & 4\<close> and \<open>permissions & 2\<close> have a 0 in the one bit the field keeps.\<close>

lemma bitfield1_masked [simp]: "\<not> bitfield1 (v AND 4)" "\<not> bitfield1 (v AND 2)"
  by (simp_all add: bitfield1_def bit_and_iff)

lemma zero_entry_sel [simp]:
  "pid zero_entry = 0" "\<not> used zero_entry" "\<not> unusable zero_entry" "\<not> linked_to_next zero_entry"
  "\<not> linked_to_last zero_entry" "\<not> reserved zero_entry" "free_entry zero_entry"
  by (simp_all add: entry_of_def free_entry_def)

lemma block_entry_sel [simp]:
  "used (block_entry perms p sz j)" "\<not> unusable (block_entry perms p sz j)"
  "\<not> reserved (block_entry perms p sz j)" "pid (block_entry perms p sz j) = ucast p"
  "linked_to_next (block_entry perms p sz j) \<longleftrightarrow> j < sz - 1"
  "linked_to_last (block_entry perms p sz j) \<longleftrightarrow> j > 0"
  "\<not> read_bit (block_entry perms p sz j)" "\<not> write_bit (block_entry perms p sz j)"
  "execute_bit (block_entry perms p sz j) \<longleftrightarrow> bit perms 0"
  by (simp_all add: block_entry_def entry_of_def bitfield1_def bit_and_iff)

lemma check_free_trivial: "sz \<le> start \<Longrightarrow> check_free pt start sz"
  by (simp add: check_free_def check_free_loop.simps)

lemma kmalloc_search_Some:
  "kmalloc_search s sz i = Some k \<Longrightarrow>
     i \<le> k \<and> k < table_len s \<and> free_entry (page_table s k) \<and> check_free (page_table s) k sz
     \<and> (\<forall>j. i \<le> j \<and> j < k \<longrightarrow> \<not> (free_entry (page_table s j) \<and> check_free (page_table s) j sz))"
proof (induction s sz i rule: kmalloc_search.induct)
  case (1 s sz i)
  show ?case
  proof (cases "i < table_len s \<and> \<not> (free_entry (page_table s i) \<and> check_free (page_table s) i sz)")
    case True
    then have "kmalloc_search s sz (i + 1) = Some k"
      using "1.prems" by (subst (asm) kmalloc_search.simps) (auto simp: free_entry_def)
    with True have IH: "i + 1 \<le> k \<and> k < table_len s \<and> free_entry (page_table s k)
        \<and> check_free (page_table s) k sz \<and> (\<forall>j. i + 1 \<le> j \<and> j < k \<longrightarrow>
          \<not> (free_entry (page_table s j) \<and> check_free (page_table s) j sz))"
      using "1.IH" by (auto simp: free_entry_def)
    then show ?thesis using True by (metis add1_zle_eq add_le_imp_le_right le_less zle_add1_eq_le)
  next
    case False
    then show ?thesis
      using "1.prems" by (subst (asm) kmalloc_search.simps) (auto simp: free_entry_def split: if_splits)
  qed
qed

lemma kmalloc_search_None:
  "kmalloc_search s sz i = None \<longleftrightarrow>
     (\<forall>j. i \<le> j \<and> j < table_len s \<longrightarrow> \<not> (free_entry (page_table s j) \<and> check_free (page_table s) j sz))"
proof (induction s sz i rule: kmalloc_search.induct)
  case (1 s sz i)
  show ?case
  proof (cases "i < table_len s \<and> \<not> (free_entry (page_table s i) \<and> check_free (page_table s) i sz)")
    case True
    then have "kmalloc_search s sz i = kmalloc_search s sz (i + 1)"
      by (subst kmalloc_search.simps) (auto simp: free_entry_def)
    also have "\<dots> = None \<longleftrightarrow> (\<forall>j. i + 1 \<le> j \<and> j < table_len s \<longrightarrow>
        \<not> (free_entry (page_table s j) \<and> check_free (page_table s) j sz))"
      using "1.IH" True by (auto simp: free_entry_def)
    finally show ?thesis using True by (metis add1_zle_eq le_less)
  next
    case False
    then show ?thesis
      by (subst kmalloc_search.simps) (auto simp: free_entry_def)
  qed
qed

lemma kmalloc_mark_eq:
  "kmalloc_mark perms p i sz j pt =
     (\<lambda>x. if i + j \<le> x \<and> x < i + sz then block_entry perms p sz (x - i) else pt x)"
proof (induction perms p i sz j pt rule: kmalloc_mark.induct)
  case (1 perms p i sz j pt)
  show ?case
  proof (cases "j < sz")
    case True
    then have "kmalloc_mark perms p i sz j pt =
        kmalloc_mark perms p i sz (j + 1) (pt(i + j := block_entry perms p sz j))"
      by (subst kmalloc_mark.simps) simp
    also note "1.IH" [OF True]
    finally show ?thesis using True by (auto simp: fun_eq_iff)
  next
    case False
    then show ?thesis by (subst kmalloc_mark.simps) (auto simp: fun_eq_iff)
  qed
qed

lemma kmalloc_eq_kumalloc: "kmalloc sz perms s = kumalloc sz perms 0 s"
  by (simp add: kmalloc_def kumalloc_def)

subsection \<open>Links\<close>

text \<open>Pages \<open>i .. i + n - 1\<close> are linked to each other and to no page outside.\<close>

definition is_block :: "(int \<Rightarrow> page_entry) \<Rightarrow> int \<Rightarrow> int \<Rightarrow> bool" where
  "is_block pt i n \<longleftrightarrow> 0 < n \<and> (\<forall>x. i \<le> x \<and> x < i + n \<longrightarrow>
     (linked_to_last (pt x) \<longleftrightarrow> i < x) \<and> (linked_to_next (pt x) \<longleftrightarrow> x < i + n - 1))"

lemma kfree_back_block:
  assumes "is_block pt i n"
  shows "i \<le> x \<Longrightarrow> x < i + n \<Longrightarrow> kfree_back pt x = Some i"
proof (induction "nat (x - i)" arbitrary: x)
  case 0
  with assms show ?case by (subst kfree_back.simps) (auto simp: is_block_def)
next
  case (Suc k)
  then have "kfree_back pt (x - 1) = Some i" by (intro Suc.hyps) auto
  with Suc assms show ?case by (subst kfree_back.simps) (auto simp: is_block_def)
qed

lemma kfree_forward_links:
  "x < e \<Longrightarrow> \<forall>y. x \<le> y \<and> y < e \<longrightarrow> (linked_to_next (pt y) \<longleftrightarrow> y < e - 1) \<Longrightarrow>
   kfree_forward x pt = Some (\<lambda>y. if x \<le> y \<and> y < e then zero_entry else pt y)"
proof (induction "nat (e - x)" arbitrary: x pt)
  case 0
  then show ?case by simp
next
  case (Suc k)
  show ?case
  proof (cases "x = e - 1")
    case True
    with Suc.prems show ?thesis
      by (subst kfree_forward.simps) (auto simp: fun_eq_iff)
  next
    case False
    then have "kfree_forward (x + 1) (pt(x := zero_entry)) =
        Some (\<lambda>y. if x + 1 \<le> y \<and> y < e then zero_entry else (pt(x := zero_entry)) y)"
      using Suc by (intro Suc.hyps) auto
    with False Suc.prems show ?thesis
      by (subst kfree_forward.simps) (auto simp: fun_eq_iff)
  qed
qed

lemma page_of_addr: "0 \<le> x \<Longrightarrow> x < 2 ^ 20 \<Longrightarrow> uint (page_addr x div 4096) = x"
  by (simp add: page_addr_def uint_div uint_word_of_int del: of_int_mult)

lemma kfree_block:
  assumes "is_block (page_table s) i n" and "i \<le> uint (a div 4096)" and "uint (a div 4096) < i + n"
  shows "kfree a s = Some (s\<lparr>page_table :=
    \<lambda>y. if i \<le> y \<and> y < i + n then zero_entry else page_table s y\<rparr>)"
proof -
  have "kfree_forward i (page_table s) =
      Some (\<lambda>y. if i \<le> y \<and> y < i + n then zero_entry else page_table s y)"
    using assms(1) by (intro kfree_forward_links) (auto simp: is_block_def)
  then show ?thesis
    using kfree_back_block [OF assms] by (simp add: kfree_def)
qed

subsection \<open>The invariant of the page table\<close>

text \<open>
  Links join used pages pairwise and within one owner; the table has an entry for at most every
  page of the 32-bit address space.
\<close>

definition linked_ok :: "(int \<Rightarrow> page_entry) \<Rightarrow> int \<Rightarrow> bool" where
  "linked_ok pt n \<longleftrightarrow> (\<forall>i. 256 \<le> i \<and> i < n \<and> used (pt i) \<longrightarrow>
     (linked_to_last (pt i) \<longrightarrow> 256 < i \<and> used (pt (i - 1)) \<and> linked_to_next (pt (i - 1))
        \<and> pid (pt (i - 1)) = pid (pt i)) \<and>
     (linked_to_next (pt i) \<longrightarrow> i + 1 < n \<and> used (pt (i + 1)) \<and> linked_to_last (pt (i + 1))))"

definition mm_inv :: "'a mm_scheme \<Rightarrow> bool" where
  "mm_inv s \<longleftrightarrow> table_len s \<le> 2 ^ 20 \<and> linked_ok (page_table s) (table_len s)"

lemma linked_okD:
  assumes "linked_ok pt n" "256 \<le> i" "i < n" "used (pt i)"
  shows "linked_to_last (pt i) \<Longrightarrow> 256 < i" "linked_to_last (pt i) \<Longrightarrow> used (pt (i - 1))"
    "linked_to_last (pt i) \<Longrightarrow> linked_to_next (pt (i - 1))"
    "linked_to_last (pt i) \<Longrightarrow> pid (pt (i - 1)) = pid (pt i)"
    "linked_to_next (pt i) \<Longrightarrow> i + 1 < n" "linked_to_next (pt i) \<Longrightarrow> used (pt (i + 1))"
    "linked_to_next (pt i) \<Longrightarrow> linked_to_last (pt (i + 1))"
  using assms unfolding linked_ok_def by blast+

lemma block_start:
  "linked_ok pt n \<Longrightarrow> 256 \<le> i \<Longrightarrow> i < n \<Longrightarrow> used (pt i) \<Longrightarrow>
   \<exists>b. 256 \<le> b \<and> b \<le> i \<and> \<not> linked_to_last (pt b) \<and>
     (\<forall>x. b \<le> x \<and> x \<le> i \<longrightarrow> used (pt x) \<and> pid (pt x) = pid (pt i)) \<and>
     (\<forall>x. b < x \<and> x \<le> i \<longrightarrow> linked_to_last (pt x)) \<and>
     (\<forall>x. b \<le> x \<and> x < i \<longrightarrow> linked_to_next (pt x))"
proof (induction "nat (i - 256)" arbitrary: i)
  case 0
  then have "i = 256" "\<not> linked_to_last (pt i)" by (auto dest: linked_okD(1))
  with 0 show ?case by (intro exI [of _ 256]) auto
next
  case (Suc k)
  show ?case
  proof (cases "linked_to_last (pt i)")
    case False
    with Suc.prems show ?thesis by (intro exI [of _ i]) auto
  next
    case True
    note prev = linked_okD(1-4) [OF Suc.prems True]
    have k: "k = nat (i - 1 - 256)" using Suc.hyps(2) by linarith
    obtain b where b: "256 \<le> b" "b \<le> i - 1" "\<not> linked_to_last (pt b)"
      "\<And>x. b \<le> x \<Longrightarrow> x \<le> i - 1 \<Longrightarrow> used (pt x) \<and> pid (pt x) = pid (pt (i - 1))"
      "\<And>x. b < x \<Longrightarrow> x \<le> i - 1 \<Longrightarrow> linked_to_last (pt x)"
      "\<And>x. b \<le> x \<Longrightarrow> x < i - 1 \<Longrightarrow> linked_to_next (pt x)"
      using Suc.hyps(1) [OF k Suc.prems(1) _ _ prev(2)] Suc.prems(3) prev(1) by auto
    have "used (pt x) \<and> pid (pt x) = pid (pt i)" if "b \<le> x" "x \<le> i" for x
      using b(4) [of x] prev Suc.prems that by (cases "x = i") auto
    moreover have "linked_to_last (pt x)" if "b < x" "x \<le> i" for x
      using b(5) [of x] True that by (cases "x = i") auto
    moreover have "linked_to_next (pt x)" if "b \<le> x" "x < i" for x
      using b(6) [of x] prev that by (cases "x = i - 1") auto
    moreover have "b \<le> i" using b(2) by simp
    ultimately show ?thesis using b(1,3) by blast
  qed
qed

lemma block_end:
  "linked_ok pt n \<Longrightarrow> 256 \<le> i \<Longrightarrow> i < n \<Longrightarrow> used (pt i) \<Longrightarrow>
   \<exists>e. i \<le> e \<and> e < n \<and> \<not> linked_to_next (pt e) \<and>
     (\<forall>x. i \<le> x \<and> x \<le> e \<longrightarrow> used (pt x) \<and> pid (pt x) = pid (pt i)) \<and>
     (\<forall>x. i < x \<and> x \<le> e \<longrightarrow> linked_to_last (pt x)) \<and>
     (\<forall>x. i \<le> x \<and> x < e \<longrightarrow> linked_to_next (pt x))"
proof (induction "nat (n - i)" arbitrary: i)
  case 0
  then show ?case by simp
next
  case (Suc k)
  show ?case
  proof (cases "linked_to_next (pt i)")
    case False
    with Suc.prems show ?thesis by (intro exI [of _ i]) auto
  next
    case True
    note succ = linked_okD(5-7) [OF Suc.prems True]
    have k: "k = nat (n - (i + 1))" using Suc.hyps(2) by linarith
    have same_pid: "pid (pt (i + 1)) = pid (pt i)"
      using linked_okD(4) [of pt n "i + 1"] Suc.prems succ by simp
    obtain e where e: "i + 1 \<le> e" "e < n" "\<not> linked_to_next (pt e)"
      "\<And>x. i + 1 \<le> x \<Longrightarrow> x \<le> e \<Longrightarrow> used (pt x) \<and> pid (pt x) = pid (pt (i + 1))"
      "\<And>x. i + 1 < x \<Longrightarrow> x \<le> e \<Longrightarrow> linked_to_last (pt x)"
      "\<And>x. i + 1 \<le> x \<Longrightarrow> x < e \<Longrightarrow> linked_to_next (pt x)"
      using Suc.hyps(1) [OF k Suc.prems(1) _ succ(1,2)] Suc.prems(2) by auto
    have "used (pt x) \<and> pid (pt x) = pid (pt i)" if "i \<le> x" "x \<le> e" for x
      using e(4) [of x] same_pid Suc.prems that by (cases "x = i") auto
    moreover have "linked_to_last (pt x)" if "i < x" "x \<le> e" for x
      using e(5) [of x] succ that by (cases "x = i + 1") auto
    moreover have "linked_to_next (pt x)" if "i \<le> x" "x < e" for x
      using e(6) [of x] True that by (cases "x = i") auto
    moreover have "i \<le> e" using e(1) by simp
    ultimately show ?thesis using e(2,3) by blast
  qed
qed

text \<open>Every used page lies in exactly the block its links reach.\<close>

lemma block_of_used:
  assumes "linked_ok pt n" "256 \<le> i" "i < n" "used (pt i)"
  obtains b e where "is_block pt b (e - b + 1)" "256 \<le> b" "b \<le> i" "i \<le> e" "e < n"
    "\<And>x. b \<le> x \<Longrightarrow> x \<le> e \<Longrightarrow> used (pt x) \<and> pid (pt x) = pid (pt i)"
proof -
  obtain b where b: "256 \<le> b" "b \<le> i" "\<not> linked_to_last (pt b)"
    "\<And>x. b \<le> x \<Longrightarrow> x \<le> i \<Longrightarrow> used (pt x) \<and> pid (pt x) = pid (pt i)"
    "\<And>x. b < x \<Longrightarrow> x \<le> i \<Longrightarrow> linked_to_last (pt x)"
    "\<And>x. b \<le> x \<Longrightarrow> x < i \<Longrightarrow> linked_to_next (pt x)"
    using block_start [OF assms] by blast
  obtain e where e: "i \<le> e" "e < n" "\<not> linked_to_next (pt e)"
    "\<And>x. i \<le> x \<Longrightarrow> x \<le> e \<Longrightarrow> used (pt x) \<and> pid (pt x) = pid (pt i)"
    "\<And>x. i < x \<Longrightarrow> x \<le> e \<Longrightarrow> linked_to_last (pt x)"
    "\<And>x. i \<le> x \<Longrightarrow> x < e \<Longrightarrow> linked_to_next (pt x)"
    using block_end [OF assms] by blast
  have last: "linked_to_last (pt x) \<longleftrightarrow> b < x" if "b \<le> x" "x \<le> e" for x
    using b(3,5) e(5) that by (metis le_less linorder_le_less_linear)
  have nxt: "linked_to_next (pt x) \<longleftrightarrow> x < e" if "b \<le> x" "x \<le> e" for x
    using b(6) e(3,6) that by (metis le_less linorder_le_less_linear)
  have own: "used (pt x) \<and> pid (pt x) = pid (pt i)" if "b \<le> x" "x \<le> e" for x
    using b(4) e(4) that by (metis linorder_le_cases)
  have "is_block pt b (e - b + 1)"
    using last nxt b(2) e(1) by (auto simp: is_block_def)
  then show thesis using b(1,2) e(1,2) own by (rule that)
qed

subsection \<open>Allocation and release, case by case\<close>

lemma kumalloc_null:
  assumes "table_len s \<le> 2 ^ 20" and "kumalloc sz perms p s = (0, s')"
  shows "s' = s" and "kmalloc_search s sz 256 = None"
proof -
  have none: "kmalloc_search s sz 256 = None"
  proof (rule ccontr)
    assume "kmalloc_search s sz 256 \<noteq> None"
    then obtain i where i: "kmalloc_search s sz 256 = Some i" by blast
    then have "256 \<le> i" "i < 2 ^ 20" using kmalloc_search_Some [OF i] assms(1) by auto
    moreover have "page_addr i = (0 :: u32)" using i assms(2) by (simp add: kumalloc_def)
    ultimately show False using page_of_addr [of i] by simp
  qed
  then show "kmalloc_search s sz 256 = None" .
  show "s' = s" using none assms(2) by (simp add: kumalloc_def)
qed

lemma kumalloc_Some:
  assumes "table_len s \<le> 2 ^ 20" and "kumalloc sz perms p s = (a, s')" and "a \<noteq> 0"
  obtains i where "256 \<le> i" "i < table_len s" "a = page_addr i" "uint (a div 4096) = i"
    "free_entry (page_table s i)" "check_free (page_table s) i sz"
    "\<And>j. 256 \<le> j \<Longrightarrow> j < i \<Longrightarrow> \<not> (free_entry (page_table s j) \<and> check_free (page_table s) j sz)"
    "s' = s\<lparr>page_table := \<lambda>x. if i \<le> x \<and> x < i + sz then block_entry perms p sz (x - i)
       else page_table s x\<rparr>"
proof -
  obtain i where i: "kmalloc_search s sz 256 = Some i"
    using assms(2,3) by (auto simp: kumalloc_def split: option.splits)
  note found = kmalloc_search_Some [OF i]
  have a: "a = page_addr i" and
    s': "s' = s\<lparr>page_table := kmalloc_mark perms p i sz 0 (page_table s)\<rparr>"
    using assms(2) i by (auto simp: kumalloc_def)
  have "uint (a div 4096) = i" unfolding a by (rule page_of_addr) (use found assms(1) in auto)
  then show thesis
    using found a s' by (intro that) (auto simp: kmalloc_mark_eq)
qed

lemma linked_ok_alloc:
  assumes ok: "linked_ok pt n" and "256 \<le> i" "0 < sz" "i + sz \<le> n"
    and unused: "\<And>x. i \<le> x \<Longrightarrow> x < i + sz \<Longrightarrow> \<not> used (pt x)"
  shows "linked_ok (\<lambda>x. if i \<le> x \<and> x < i + sz then block_entry perms p sz (x - i) else pt x) n"
    (is "linked_ok ?pt n")
  unfolding linked_ok_def
proof (intro allI impI)
  fix x assume x: "256 \<le> x \<and> x < n \<and> used (?pt x)"
  show "(linked_to_last (?pt x) \<longrightarrow> 256 < x \<and> used (?pt (x - 1)) \<and> linked_to_next (?pt (x - 1))
      \<and> pid (?pt (x - 1)) = pid (?pt x)) \<and>
    (linked_to_next (?pt x) \<longrightarrow> x + 1 < n \<and> used (?pt (x + 1)) \<and> linked_to_last (?pt (x + 1)))"
  proof (cases "i \<le> x \<and> x < i + sz")
    case True
    then show ?thesis using assms(2,4) by auto
  next
    case False
    then have used_x: "used (pt x)" using x by (auto split: if_splits)
    have "\<not> (i \<le> x - 1 \<and> x - 1 < i + sz)" if "linked_to_last (pt x)"
      using linked_okD(2) [OF ok _ _ used_x that] unused [of "x - 1"] x by blast
    moreover have "\<not> (i \<le> x + 1 \<and> x + 1 < i + sz)" if "linked_to_next (pt x)"
      using linked_okD(6) [OF ok _ _ used_x that] unused [of "x + 1"] x by blast
    ultimately show ?thesis
      using linked_okD [OF ok _ _ used_x] x False by auto
  qed
qed

lemma linked_ok_free:
  assumes ok: "linked_ok pt n" and blk: "is_block pt b m"
  shows "linked_ok (\<lambda>y. if b \<le> y \<and> y < b + m then zero_entry else pt y) n"
    (is "linked_ok ?pt n")
  unfolding linked_ok_def
proof (intro allI impI)
  fix x assume x: "256 \<le> x \<and> x < n \<and> used (?pt x)"
  then have out: "\<not> (b \<le> x \<and> x < b + m)" and used_x: "used (pt x)" by (auto split: if_splits)
  have "\<not> (b \<le> x - 1 \<and> x - 1 < b + m)" if "linked_to_last (pt x)"
    using linked_okD(3) [OF ok _ _ used_x that] blk out x unfolding is_block_def by force
  moreover have "\<not> (b \<le> x + 1 \<and> x + 1 < b + m)" if "linked_to_next (pt x)"
    using linked_okD(7) [OF ok _ _ used_x that] blk out x unfolding is_block_def by force
  ultimately show "(linked_to_last (?pt x) \<longrightarrow> 256 < x \<and> used (?pt (x - 1)) \<and>
      linked_to_next (?pt (x - 1)) \<and> pid (?pt (x - 1)) = pid (?pt x)) \<and>
    (linked_to_next (?pt x) \<longrightarrow> x + 1 < n \<and> used (?pt (x + 1)) \<and> linked_to_last (?pt (x + 1)))"
    using linked_okD [OF ok _ _ used_x] x out by auto
qed

text \<open>A page that \<open>kfree\<close> is given: the whole block around it is released, nothing else.\<close>

lemma kfree_used:
  assumes inv: "mm_inv s" and i: "i = uint (a div 4096)" "256 \<le> i" "i < table_len s"
    "used (page_table s i)"
  obtains b e where "is_block (page_table s) b (e - b + 1)" "256 \<le> b" "b \<le> i" "i \<le> e"
    "e < table_len s"
    "\<And>x. b \<le> x \<Longrightarrow> x \<le> e \<Longrightarrow> used (page_table s x) \<and> pid (page_table s x) = pid (page_table s i)"
    "kfree a s = Some (s\<lparr>page_table := \<lambda>y. if b \<le> y \<and> y \<le> e then zero_entry else page_table s y\<rparr>)"
    "mm_inv (s\<lparr>page_table := \<lambda>y. if b \<le> y \<and> y \<le> e then zero_entry else page_table s y\<rparr>)"
proof -
  have ok: "linked_ok (page_table s) (table_len s)" using inv by (simp add: mm_inv_def)
  obtain b e where be: "is_block (page_table s) b (e - b + 1)" "256 \<le> b" "b \<le> i" "i \<le> e"
    "e < table_len s"
    "\<And>x. b \<le> x \<Longrightarrow> x \<le> e \<Longrightarrow> used (page_table s x) \<and> pid (page_table s x) = pid (page_table s i)"
    using block_of_used [OF ok i(2-4)] by blast
  have eq: "(\<lambda>y. if b \<le> y \<and> y < b + (e - b + 1) then zero_entry else page_table s y)
      = (\<lambda>y. if b \<le> y \<and> y \<le> e then zero_entry else page_table s y)"
    by (auto simp: fun_eq_iff)
  have "kfree a s = Some (s\<lparr>page_table := \<lambda>y. if b \<le> y \<and> y \<le> e then zero_entry else page_table s y\<rparr>)"
    using kfree_block [OF be(1), of a] be(3,4) i(1) unfolding eq by simp
  moreover have "mm_inv (s\<lparr>page_table := \<lambda>y. if b \<le> y \<and> y \<le> e then zero_entry else page_table s y\<rparr>)"
    using linked_ok_free [OF ok be(1)] inv unfolding eq by (simp add: mm_inv_def)
  ultimately show thesis using be by (intro that)
qed

subsection \<open>The allocator contract\<close>

text \<open>The addresses of the blocks in use: the pages that start one.\<close>

definition heads :: "'a mm_scheme \<Rightarrow> ptr set" where
  "heads s = {page_addr i | i. 256 \<le> i \<and> i < table_len s
     \<and> used (page_table s i) \<and> \<not> linked_to_last (page_table s i)}"

lemma addr_eq_iff:
  "0 \<le> i \<Longrightarrow> i < 2 ^ 20 \<Longrightarrow> 0 \<le> j \<Longrightarrow> j < 2 ^ 20 \<Longrightarrow>
   page_addr i = page_addr j \<longleftrightarrow> i = j"
  by (metis page_of_addr)

lemma heads_iff:
  assumes "table_len s \<le> 2 ^ 20" and "256 \<le> i" "i < table_len s"
  shows "page_addr i \<in> heads s \<longleftrightarrow>
    used (page_table s i) \<and> \<not> linked_to_last (page_table s i)"
proof
  assume "page_addr i \<in> heads s"
  then obtain j where "page_addr i = page_addr j" "256 \<le> j"
    "j < table_len s" "used (page_table s j) \<and> \<not> linked_to_last (page_table s j)"
    unfolding heads_def by blast
  moreover from this have "i = j" using addr_eq_iff [of i j] assms by auto
  ultimately show "used (page_table s i) \<and> \<not> linked_to_last (page_table s i)" by simp
next
  assume "used (page_table s i) \<and> \<not> linked_to_last (page_table s i)"
  with assms show "page_addr i \<in> heads s" unfolding heads_def by blast
qed

lemma kumalloc_one:
  assumes inv: "mm_inv s" and al: "kumalloc 1 perms p s = (a, s')" and a: "a \<noteq> 0"
  shows "a \<notin> heads s" "heads s' = insert a (heads s)" "mm_inv s'"
proof -
  have len: "table_len s \<le> 2 ^ 20" using inv by (simp add: mm_inv_def)
  obtain i where i: "256 \<le> i" "i < table_len s" "a = page_addr i"
    "free_entry (page_table s i)"
    "s' = s\<lparr>page_table := \<lambda>x. if i \<le> x \<and> x < i + 1 then block_entry perms p 1 (x - i)
       else page_table s x\<rparr>"
    by (rule kumalloc_Some [OF len al a]) (rule that; assumption)
  have unused: "\<not> used (page_table s i)" using i(4) by (simp add: free_entry_def)
  have pt: "page_table s' x = (if x = i then block_entry perms p 1 0 else page_table s x)"
    "page_table_size s' = page_table_size s" for x
    unfolding i(5) by auto
  show "a \<notin> heads s" using unused heads_iff [OF len i(1,2)] unfolding i(3) by blast
  show "heads s' = insert a (heads s)"
    using i(1,2) unused unfolding heads_def i(3) pt by auto
  show "mm_inv s'"
    using linked_ok_alloc [of "page_table s" "table_len s" i 1 perms p] inv i unused
    by (auto simp: mm_inv_def)
qed

lemma kfree_head:
  assumes inv: "mm_inv s" and a: "a \<in> heads s"
  shows "\<exists>s'. kfree a s = Some s' \<and> heads s' = heads s - {a} \<and> mm_inv s'"
proof -
  have len: "table_len s \<le> 2 ^ 20" using inv by (simp add: mm_inv_def)
  obtain i where i: "a = page_addr i" "256 \<le> i" "i < table_len s"
    "used (page_table s i)" "\<not> linked_to_last (page_table s i)"
    using a unfolding heads_def by blast
  have ai: "i = uint (a div 4096)" using page_of_addr [of i] i len by simp
  obtain b e where be: "is_block (page_table s) b (e - b + 1)" "b \<le> i" "i \<le> e" "e < table_len s"
    "256 \<le> b"
    "kfree a s = Some (s\<lparr>page_table := \<lambda>y. if b \<le> y \<and> y \<le> e then zero_entry else page_table s y\<rparr>)"
    "mm_inv (s\<lparr>page_table := \<lambda>y. if b \<le> y \<and> y \<le> e then zero_entry else page_table s y\<rparr>)"
    by (rule kfree_used [OF inv ai i(2-4)]) (rule that; assumption)
  have links: "b \<le> x \<and> x \<le> e \<Longrightarrow> linked_to_last (page_table s x) \<longleftrightarrow> b < x" for x
    using be(1) by (auto simp: is_block_def)
  have b: "b = i" using links [of i] i(5) be(2,3) by auto
  let ?s = "s\<lparr>page_table := \<lambda>y. if b \<le> y \<and> y \<le> e then zero_entry else page_table s y\<rparr>"
  have "heads ?s = heads s - {a}"
  proof (intro set_eqI)
    fix x
    show "x \<in> heads ?s \<longleftrightarrow> x \<in> heads s - {a}"
    proof (cases "\<exists>j. x = page_addr j \<and> 256 \<le> j \<and> j < table_len s")
      case True
      then obtain j where j: "x = page_addr j" "256 \<le> j" "j < table_len s" by blast
      have "x = a \<longleftrightarrow> j = i" using addr_eq_iff [of j i] j i len by auto
      then show ?thesis
        using heads_iff [OF len j(2,3)] heads_iff [of ?s j] len links [of j] b j be(3) by auto
    next
      case False
      then have "x \<notin> heads ?s" "x \<notin> heads s" unfolding heads_def by auto
      then show ?thesis by simp
    qed
  qed
  then show ?thesis using be(6,7) by blast
qed

lemma null_not_head:
  assumes "mm_inv s"
  shows "0 \<notin> heads s"
proof
  assume "0 \<in> heads s"
  then obtain i where "0 = page_addr i" "256 \<le> i" "i < table_len s"
    unfolding heads_def by blast
  then show False
    using addr_eq_iff [of i 0] assms by (auto simp: mm_inv_def page_addr_def)
qed

interpretation pages: page_allocator "kumalloc 1 perms p" kfree heads mm_inv
  for perms p
proof unfold_locales
  fix s s' :: "'a mm_scheme" and a
  show "s' = s" if "mm_inv s" "kumalloc 1 perms p s = (0, s')"
    using that kumalloc_null(1) [of s 1 perms p s'] by (simp add: mm_inv_def)
  show "a \<notin> heads s \<and> heads s' = insert a (heads s) \<and> mm_inv s'"
    if "mm_inv s" "kumalloc 1 perms p s = (a, s')" "a \<noteq> 0"
    using kumalloc_one [OF that] by simp
  show "\<exists>s'. kfree a s = Some s' \<and> heads s' = heads s - {a} \<and> mm_inv s'"
    if "mm_inv s" "a \<in> heads s"
    using that by (rule kfree_head)
  show "0 \<notin> heads s" if "mm_inv s"
    using that by (rule null_not_head)
qed

subsection \<open>Properties of the allocator\<close>

lemma kumalloc_one_page:
  assumes "table_len s \<le> 2 ^ 20"
  shows "(\<exists>i. 256 \<le> i \<and> i < table_len s \<and> free_entry (page_table s i)
      \<and> (\<forall>j. 256 \<le> j \<and> j < i \<longrightarrow> \<not> free_entry (page_table s j))
      \<and> kumalloc 1 perms p s = (page_addr i,
          s\<lparr>page_table := (page_table s)(i := block_entry perms p 1 0)\<rparr>))
    \<or> ((\<forall>i. 256 \<le> i \<and> i < table_len s \<longrightarrow> \<not> free_entry (page_table s i))
      \<and> kumalloc 1 perms p s = (0, s))"
proof (cases "kmalloc_search s 1 256")
  case None
  then have "\<not> free_entry (page_table s i)" if "256 \<le> i" "i < table_len s" for i
    using that check_free_trivial [of 1 i] by (auto simp: kmalloc_search_None)
  with None show ?thesis by (auto simp: kumalloc_def)
next
  case (Some i)
  have "kmalloc_mark perms p i 1 0 (page_table s) = (page_table s)(i := block_entry perms p 1 0)"
    by (auto simp: kmalloc_mark_eq fun_eq_iff)
  with Some have "kumalloc 1 perms p s =
      (page_addr i, s\<lparr>page_table := (page_table s)(i := block_entry perms p 1 0)\<rparr>)"
    by (simp add: kumalloc_def)
  moreover have "\<not> free_entry (page_table s j)" if "256 \<le> j" "j < i" for j
    using kmalloc_search_Some [OF Some] check_free_trivial [of 1 j] that by auto
  ultimately show ?thesis using kmalloc_search_Some [OF Some] by blast
qed

text \<open>A one-page request takes the first page from 256 on that is neither used nor
  unusable, returns its address and marks it as a block of its own, owned by the given process and
  executable only if asked; every other page keeps its entry. With no such page the result is 0 and
  nothing changes.\<close>

theorem kumalloc_first_fit:
  assumes "table_len s \<le> 2 ^ 20"
  shows "(\<exists>i. 256 \<le> i \<and> i < table_len s \<and> free_entry (page_table s i)
      \<and> (\<forall>j. 256 \<le> j \<and> j < i \<longrightarrow> \<not> free_entry (page_table s j))
      \<and> kumalloc 1 perms p s = (page_addr i,
          s\<lparr>page_table := (page_table s)(i := block_entry perms p 1 0)\<rparr>))
    \<or> ((\<forall>i. 256 \<le> i \<and> i < table_len s \<longrightarrow> \<not> free_entry (page_table s i))
      \<and> kumalloc 1 perms p s = (0, s))"
  by (rule kumalloc_one_page [OF assms])

text \<open>How many one-page requests can still be served.\<close>

definition free_count :: "'a mm_scheme \<Rightarrow> nat" where
  "free_count s = card {i. 256 \<le> i \<and> i < table_len s \<and> free_entry (page_table s i)}"

lemma kumalloc_free_count:
  assumes len: "table_len s \<le> 2 ^ 20" and al: "kumalloc 1 perms p s = (a, s')" and "0 < free_count s"
  shows "a \<noteq> 0" and "free_count s = Suc (free_count s')"
proof -
  let ?F = "\<lambda>s. {i. 256 \<le> i \<and> i < table_len s \<and> free_entry (page_table s i)}"
  have "?F s \<noteq> {}" using assms(3) by (auto simp: free_count_def card_gt_0_iff)
  then obtain i where i: "i \<in> ?F s" "a = page_addr i"
    "s' = s\<lparr>page_table := (page_table s)(i := block_entry perms p 1 0)\<rparr>"
    using kumalloc_one_page [OF len, of perms p] al by auto
  then show "a \<noteq> 0" using len addr_eq_iff [of i 0] by (auto simp: page_addr_def [of 0])
  have "?F s' = ?F s - {i}" using i(1) unfolding i(3) by (auto simp: free_entry_def block_entry_def)
  moreover have "finite (?F s)" by (rule finite_subset [of _ "{256..<table_len s}"]) auto
  ultimately show "free_count s = Suc (free_count s')"
    using i(1) card_Suc_Diff1 [of "?F s" i] unfolding free_count_def by metis
qed

lemma kumalloc_free_count_le:
  assumes len: "table_len s \<le> 2 ^ 20" and al: "kumalloc 1 perms p s = (a, s')"
  shows "free_count s \<le> Suc (free_count s')" and "table_len s' = table_len s"
proof -
  show "table_len s' = table_len s" using kumalloc_one_page [OF len, of perms p] al by auto
  show "free_count s \<le> Suc (free_count s')"
    using kumalloc_free_count(2) [OF len al] by (cases "free_count s") auto
qed

text \<open>Claim C1: freeing what was allocated. After a successful request for \<open>sz\<close> pages,
  \<open>kfree\<close> of any address inside the block (not only its start) returns, resets exactly the
  \<open>sz\<close> entries of the block, and leaves all other pages as the allocation left them.\<close>

theorem kfree_kumalloc:
  assumes len: "table_len s \<le> 2 ^ 20" and sz: "0 < sz"
    and al: "kumalloc sz perms p s = (a, s')" "a \<noteq> 0"
    and b: "uint a \<le> uint b" "uint b < uint a + sz * 4096"
  shows "\<exists>i. a = page_addr i \<and> kfree b s' = Some (s\<lparr>page_table :=
    \<lambda>x. if i \<le> x \<and> x < i + sz then zero_entry else page_table s x\<rparr>)"
proof -
  obtain i where i: "256 \<le> i" "i < table_len s" "a = page_addr i"
    "s' = s\<lparr>page_table := \<lambda>x. if i \<le> x \<and> x < i + sz then block_entry perms p sz (x - i)
       else page_table s x\<rparr>"
    by (rule kumalloc_Some [OF len al]) (rule that; assumption)
  have "uint a = i * 4096"
    using i len by (simp add: page_addr_def uint_word_of_int del: of_int_mult)
  then have page: "i \<le> uint (b div 4096)" "uint (b div 4096) < i + sz"
    using b by (auto simp: uint_div)
  have blk: "is_block (page_table s') i sz"
    using sz unfolding i(4) by (auto simp: is_block_def)
  have "kfree b s' = Some (s'\<lparr>page_table :=
      \<lambda>y. if i \<le> y \<and> y < i + sz then zero_entry else page_table s' y\<rparr>)"
    by (rule kfree_block [OF blk page])
  also have "\<dots> = Some (s\<lparr>page_table :=
      \<lambda>x. if i \<le> x \<and> x < i + sz then zero_entry else page_table s x\<rparr>)"
    unfolding i(4) by (auto simp: fun_eq_iff)
  finally show ?thesis using i(3) by blast
qed

text \<open>\<open>check_free\<close> looks at no page: its loop ends at \<open>i = size\<close>, below the
  \<open>start\<close> of every page the allocator considers, so a request of up to 256 pages is placed at the
  first unused page whatever the pages behind it hold, and takes them over.\<close>

theorem kumalloc_ignores_following_pages:
  assumes len: "table_len s \<le> 2 ^ 20" and sz: "0 < sz" "sz \<le> 256"
    and one: "kumalloc 1 perms p s = (a, s1)" "a \<noteq> 0"
  shows "\<exists>i. a = page_addr i \<and> kumalloc sz perms p s = (a, s\<lparr>page_table :=
    \<lambda>x. if i \<le> x \<and> x < i + sz then block_entry perms p sz (x - i) else page_table s x\<rparr>)"
proof -
  have triv: "check_free (page_table s) j k" if "256 \<le> j" "k \<le> 256" for j k
    using that by (intro check_free_trivial) simp
  obtain i where i: "kmalloc_search s 1 256 = Some i"
    using one by (auto simp: kumalloc_def split: option.splits)
  note first = kmalloc_search_Some [OF i]
  have "kmalloc_search s sz 256 = Some i"
  proof (cases "kmalloc_search s sz 256")
    case None
    then show ?thesis using first triv [of i sz] sz by (auto simp: kmalloc_search_None)
  next
    case (Some k)
    note second = kmalloc_search_Some [OF Some]
    have "\<not> k < i" "\<not> i < k"
      using first second triv [of k 1] triv [of i sz] sz by auto
    with Some show ?thesis by simp
  qed
  then show ?thesis
    using one i by (auto simp: kumalloc_def kmalloc_mark_eq)
qed

text \<open>The search ends at the first free page, and so the requests for one page and for two take it.\<close>

lemma kmalloc_search_first:
  assumes "256 \<le> k" "k < table_len s" "free_entry (page_table s k)" "sz \<le> 256"
    and first: "\<And>j. 256 \<le> j \<Longrightarrow> j < k \<Longrightarrow> \<not> free_entry (page_table s j)"
  shows "kmalloc_search s sz 256 = Some k"
proof (cases "kmalloc_search s sz 256")
  case None
  then show ?thesis
    using assms check_free_trivial [of sz k "page_table s"] by (auto simp: kmalloc_search_None)
next
  case (Some k')
  then have "\<not> k' < k" "\<not> k < k'"
    using assms kmalloc_search_Some [OF Some] check_free_trivial [of sz k "page_table s"] by auto
  with Some show ?thesis by simp
qed

lemma kumalloc_first:
  assumes "256 \<le> k" "k < table_len s" "free_entry (page_table s k)"
    and "\<And>j. 256 \<le> j \<Longrightarrow> j < k \<Longrightarrow> \<not> free_entry (page_table s j)"
  shows "kumalloc 1 perms p s = (page_addr k, s\<lparr>page_table := (page_table s)(k := block_entry perms p 1 0)\<rparr>)"
    and "kumalloc 2 perms p s = (page_addr k, s\<lparr>page_table :=
      (page_table s)(k := block_entry perms p 2 0, k + 1 := block_entry perms p 2 1)\<rparr>)"
proof -
  have "kmalloc_search s 1 256 = Some k" "kmalloc_search s 2 256 = Some k"
    using kmalloc_search_first [OF assms(1-3) _ assms(4)] by auto
  moreover have "kmalloc_mark perms p k 1 0 pt = pt(k := block_entry perms p 1 0)" for pt
    by (auto simp: kmalloc_mark_eq fun_eq_iff)
  moreover have "kmalloc_mark perms p k 2 0 pt = pt(k := block_entry perms p 2 0, k + 1 := block_entry perms p 2 1)"
    for pt by (auto simp: kmalloc_mark_eq fun_eq_iff)
  ultimately show "kumalloc 1 perms p s = (page_addr k, s\<lparr>page_table := (page_table s)(k := block_entry perms p 1 0)\<rparr>)"
    "kumalloc 2 perms p s = (page_addr k, s\<lparr>page_table :=
      (page_table s)(k := block_entry perms p 2 0, k + 1 := block_entry perms p 2 1)\<rparr>)"
    by (simp_all add: kumalloc_def)
qed

text \<open>Claim C29: so two live blocks can overlap: with pages \<open>i\<close>, \<open>i + 1\<close> the first two free
  ones, allocating a page twice, freeing the first and asking for two pages gives a block whose
  second page is the page the caller still holds from the second request.\<close>

theorem kumalloc_overlaps_live_block:
  assumes inv: "mm_inv s" and i: "256 \<le> i" "i + 1 < table_len s"
    and free: "free_entry (page_table s i)" "free_entry (page_table s (i + 1))"
    and first: "\<And>j. 256 \<le> j \<Longrightarrow> j < i \<Longrightarrow> \<not> free_entry (page_table s j)"
  shows "\<exists>s1 s2 s3 s4. kumalloc 1 perms p s = (page_addr i, s1)
    \<and> kumalloc 1 perms p s1 = (page_addr (i + 1), s2)
    \<and> kfree (page_addr i) s2 = Some s3 \<and> page_addr (i + 1) \<in> heads s3
    \<and> kumalloc 2 perms p s3 = (page_addr i, s4)
    \<and> page_table s4 (i + 1) = block_entry perms p 2 1"
proof -
  have len: "table_len s \<le> 2 ^ 20" using inv by (simp add: mm_inv_def)
  let ?e = "block_entry perms p 1 0"
  let ?s1 = "s\<lparr>page_table := (page_table s)(i := ?e)\<rparr>"
  let ?s2 = "s\<lparr>page_table := (page_table s)(i := ?e, i + 1 := ?e)\<rparr>"
  let ?s3 = "s\<lparr>page_table := (page_table s)(i := zero_entry, i + 1 := ?e)\<rparr>"
  let ?s4 = "s\<lparr>page_table := (page_table s)(i := block_entry perms p 2 0, i + 1 := block_entry perms p 2 1)\<rparr>"
  have taken: "\<not> free_entry ?e" by (simp add: free_entry_def)
  have s1: "kumalloc 1 perms p s = (page_addr i, ?s1)"
    using kumalloc_first(1) [of i s perms p] i free first by simp
  have "\<not> free_entry (page_table ?s1 j)" if "256 \<le> j" "j < i + 1" for j
    using that first [of j] taken by (cases "j = i") auto
  then have s2: "kumalloc 1 perms p ?s1 = (page_addr (i + 1), ?s2)"
    using kumalloc_first(1) [of "i + 1" ?s1 perms p] i free by simp
  have s3: "kfree (page_addr i) ?s2 = Some ?s3"
  proof -
    have "is_block (page_table ?s2) i 1" by (simp add: is_block_def)
    moreover have "uint (page_addr i div 4096) = i" using i len by (intro page_of_addr) auto
    ultimately have "kfree (page_addr i) ?s2 = Some (?s2\<lparr>page_table :=
        \<lambda>y. if i \<le> y \<and> y < i + 1 then zero_entry else page_table ?s2 y\<rparr>)"
      by (intro kfree_block) auto
    also have "\<dots> = Some ?s3" by (auto simp: fun_eq_iff)
    finally show ?thesis .
  qed
  have live: "page_addr (i + 1) \<in> heads ?s3"
    using heads_iff [of ?s3 "i + 1"] i len by simp
  have "\<not> free_entry (page_table ?s3 j)" if "256 \<le> j" "j < i" for j
    using that first [of j] by auto
  then have s4: "kumalloc 2 perms p ?s3 = (page_addr i, ?s4)"
    using kumalloc_first(2) [of i ?s3 perms p] i by (simp add: fun_upd_twist)
  show ?thesis using s1 s2 s3 live s4 by fastforce
qed

text \<open>The read and write bits of an allocated page are never set, whatever is asked
  for: \<open>permissions & 4\<close> and \<open>permissions & 2\<close> are even, and a one-bit field keeps the low bit.\<close>

theorem kumalloc_never_grants_read_write:
  assumes "table_len s \<le> 2 ^ 20" and "kumalloc sz perms p s = (a, s')" "a \<noteq> 0" and "0 \<le> k" "k < sz"
  shows "\<not> read_bit (page_table s' (uint (a div 4096) + k))
    \<and> \<not> write_bit (page_table s' (uint (a div 4096) + k))
    \<and> execute_bit (page_table s' (uint (a div 4096) + k)) = bit perms 0"
proof -
  obtain i where "uint (a div 4096) = i"
    "s' = s\<lparr>page_table := \<lambda>x. if i \<le> x \<and> x < i + sz then block_entry perms p sz (x - i)
       else page_table s x\<rparr>"
    by (rule kumalloc_Some [OF assms(1-3)]) (rule that; assumption)
  with assms(4,5) show ?thesis by simp
qed

subsection \<open>Freeing the pages of a process\<close>

text \<open>A page remembers the low 8 bits of its owner's pid, so freeing the pages of
  a process whose pid is 256 or more returns and frees nothing.\<close>

theorem kfree_pid_large:
  assumes "256 \<le> unat p"
  shows "kfree_pid p num s = Some s"
proof -
  have neq: "(ucast q :: u32) \<noteq> p" for q :: u8
    using assms unat_lt_u8 [of q] by (metis not_le unat_ucast_u8_u32)
  have "kfree_pid_loop p num i s = Some s" for i
  proof (induction "nat (table_len s - i)" arbitrary: i)
    case 0
    then show ?case by (subst kfree_pid_loop.simps) simp
  next
    case (Suc k)
    then have "kfree_pid_loop p num (i + 1) s = Some s" by (intro Suc.hyps) linarith
    then show ?case using neq by (subst kfree_pid_loop.simps) simp
  qed
  then show ?thesis by (simp add: kfree_pid_def)
qed

text \<open>Pages that carry a pid are in use: freed pages have pid 0.\<close>

definition owners_used :: "'a mm_scheme \<Rightarrow> u32 \<Rightarrow> bool" where
  "owners_used s p \<longleftrightarrow> (\<forall>x. 256 \<le> x \<and> x < table_len s \<and> ucast (pid (page_table s x)) = p
     \<longrightarrow> used (page_table s x))"

definition owned :: "'a mm_scheme \<Rightarrow> u32 \<Rightarrow> int \<Rightarrow> bool" where
  "owned s p x \<longleftrightarrow> 256 \<le> x \<and> x < table_len s \<and> ucast (pid (page_table s x)) = p"

text \<open>A round of \<open>kfree_pid\<close> at a page of \<open>p\<close> takes pages \<open>b\<close> to \<open>e\<close> away, all of them pages of \<open>p\<close>.\<close>

lemma kfree_owned:
  assumes inv: "mm_inv s" and "owners_used s p" "p \<noteq> 0" "256 \<le> i" "i < table_len s" and i: "owned s p i"
  obtains b e s' where "b \<le> i" "i \<le> e" "kfree (page_addr i) s = Some s'"
    "s' = s\<lparr>page_table := \<lambda>y. if b \<le> y \<and> y \<le> e then zero_entry else page_table s y\<rparr>"
    "mm_inv s'" "owners_used s' p" "\<And>x. owned s' p x \<longleftrightarrow> owned s p x \<and> \<not> (b \<le> x \<and> x \<le> e)"
    "\<And>x. b \<le> x \<Longrightarrow> x \<le> e \<Longrightarrow> owned s p x"
proof -
  have used: "used (page_table s i)" using i assms(2) by (auto simp: owned_def owners_used_def)
  have "i = uint (page_addr i div 4096)" using page_of_addr [of i] assms(4,5) inv by (simp add: mm_inv_def)
  then obtain b e where be: "b \<le> i" "i \<le> e" "256 \<le> b" "e < table_len s"
    "\<And>x. b \<le> x \<Longrightarrow> x \<le> e \<Longrightarrow> used (page_table s x) \<and> pid (page_table s x) = pid (page_table s i)"
    "kfree (page_addr i) s = Some (s\<lparr>page_table := \<lambda>y. if b \<le> y \<and> y \<le> e then zero_entry else page_table s y\<rparr>)"
    "mm_inv (s\<lparr>page_table := \<lambda>y. if b \<le> y \<and> y \<le> e then zero_entry else page_table s y\<rparr>)"
    by (rule kfree_used [OF inv _ assms(4,5) used]) (rule that; assumption)
  show thesis
  proof (rule that [OF be(1,2,6) refl be(7)])
    show "owned s p x" if "b \<le> x" "x \<le> e" for x
      using i be(3,4) be(5) [OF that] that by (auto simp: owned_def)
  qed (use assms(2,3) in \<open>auto simp: owned_def owners_used_def\<close>)
qed

lemma kfree_pid_loop_frees:
  assumes "mm_inv s" "owners_used s p" "p \<noteq> 0" "256 \<le> i" "table_len s - i < uint num"
    and "\<And>x. x < i \<Longrightarrow> \<not> owned s p x"
  shows "kfree_pid_loop p num i s =
    Some (s\<lparr>page_table := \<lambda>x. if owned s p x then zero_entry else page_table s x\<rparr>)"
  using assms
proof (induction "nat (table_len s - i)" arbitrary: i num s)
  case 0
  then have "\<not> owned s p x" for x by (cases "x < i") (auto simp: owned_def)
  then show ?case using 0 by (subst kfree_pid_loop.simps) simp
next
  case (Suc k)
  then have lt: "i < table_len s" and k: "k = nat (table_len s - (i + 1))" by linarith+
  show ?case
  proof (cases "owned s p i")
    case False
    then have "\<not> owned s p x" if "x < i + 1" for x
      using Suc.prems(6) [of x] that by (cases "x = i") auto
    then have "kfree_pid_loop p num (i + 1) s =
        Some (s\<lparr>page_table := \<lambda>x. if owned s p x then zero_entry else page_table s x\<rparr>)"
      using Suc.prems(4,5) by (intro Suc.hyps(1) [OF k Suc.prems(1-3)]) auto
    moreover have "num \<noteq> 0" using Suc.prems(5) lt by auto
    moreover have "ucast (pid (page_table s i)) \<noteq> p"
      using False lt Suc.prems(4) by (auto simp: owned_def)
    ultimately show ?thesis using lt by (subst kfree_pid_loop.simps) simp
  next
    case True
    obtain b e s' where be: "b \<le> i" "i \<le> e" "kfree (page_addr i) s = Some s'"
      "s' = s\<lparr>page_table := \<lambda>y. if b \<le> y \<and> y \<le> e then zero_entry else page_table s y\<rparr>"
      "mm_inv s'" "owners_used s' p" "\<And>x. owned s' p x \<longleftrightarrow> owned s p x \<and> \<not> (b \<le> x \<and> x \<le> e)"
      "\<And>x. b \<le> x \<Longrightarrow> x \<le> e \<Longrightarrow> owned s p x"
      by (rule kfree_owned [OF Suc.prems(1-4) lt True]) (rule that; assumption)
    have num: "num \<noteq> 0" "num \<noteq> 1" "uint (num - 1) = uint num - 1"
    proof -
      have "1 < uint num" using Suc.prems(5) lt by linarith
      then show "num \<noteq> 0" "num \<noteq> 1" by auto
      then show "uint (num - 1) = uint num - 1" by (intro uint_pred_u32)
    qed
    have len: "table_len s' = table_len s" using be(4) by simp
    have "kfree_pid_loop p (num - 1) (i + 1) s' =
        Some (s'\<lparr>page_table := \<lambda>x. if owned s' p x then zero_entry else page_table s' x\<rparr>)"
    proof (rule Suc.hyps(1))
      show "\<not> owned s' p x" if "x < i + 1" for x
        using Suc.prems(6) [of x] that be(1,2) unfolding be(7) by (cases "x = i") auto
    qed (use be(5,6) len k num(3) Suc.prems(3-5) in auto)
    also have "\<dots> = Some (s\<lparr>page_table := \<lambda>x. if owned s p x then zero_entry else page_table s x\<rparr>)"
      unfolding be(7) using be(4,8) by (auto simp: fun_eq_iff)
    finally show ?thesis
      using lt True be(3) num(1,2) by (subst kfree_pid_loop.simps) (simp add: owned_def)
  qed
qed

lemma kfree_pid_owned:
  assumes "mm_inv s" "owners_used s p" "p \<noteq> 0" "table_len s \<le> uint num"
  shows "kfree_pid p num s =
    Some (s\<lparr>page_table := \<lambda>x. if owned s p x then zero_entry else page_table s x\<rparr>)"
proof (cases "table_len s - 256 < uint num")
  case True
  then show ?thesis
    using kfree_pid_loop_frees [OF assms(1-3), of 256 num] by (simp add: kfree_pid_def owned_def)
next
  case False
  then have len: "table_len s \<le> 256" using assms(4) by linarith
  then have "\<not> owned s p x" for x by (auto simp: owned_def)
  with len show ?thesis
    by (subst kfree_pid_def, subst kfree_pid_loop.simps) simp
qed

text \<open>For a process with a pid from 1 to 255, \<open>kfree_pid\<close> with a budget larger than
  the page table returns, resets every page the process owns and no other.\<close>

theorem kfree_pid_frees_owned:
  assumes "mm_inv s" "owners_used s p" "p \<noteq> 0" "table_len s \<le> uint num"
  shows "kfree_pid p num s =
    Some (s\<lparr>page_table := \<lambda>x. if owned s p x then zero_entry else page_table s x\<rparr>)"
  by (rule kfree_pid_owned [OF assms])

text \<open>Freeing the pages of one owner keeps the invariant and the blocks of the others.\<close>

lemma kfree_pid_inv:
  fixes s :: "'a mm_scheme" and p :: u32
  assumes inv: "mm_inv s"
  defines "s' \<equiv> s\<lparr>page_table := \<lambda>x. if owned s p x then zero_entry else page_table s x\<rparr>"
  shows "mm_inv s'" "heads s' = {a \<in> heads s. \<not> owned s p (uint (a div 4096))}"
proof -
  have len: "table_len s \<le> 2 ^ 20" and ok: "linked_ok (page_table s) (table_len s)"
    using inv by (simp_all add: mm_inv_def)
  have pt: "page_table s' x = (if owned s p x then zero_entry else page_table s x)"
    "table_len s' = table_len s" for x by (simp_all add: s'_def)
  have "linked_ok (page_table s') (table_len s)"
    unfolding linked_ok_def
  proof (intro allI impI)
    fix i assume i: "256 \<le> i \<and> i < table_len s \<and> used (page_table s' i)"
    then have no: "\<not> owned s p i" and u: "256 \<le> i" "i < table_len s" "used (page_table s i)"
      unfolding pt by (auto split: if_splits)
    note d = linked_okD [OF ok u]
    have nxt: "linked_to_next (page_table s i) \<Longrightarrow> pid (page_table s (i + 1)) = pid (page_table s i)"
      using linked_okD(4) [OF ok, of "i + 1"] d(5-7) u(1) by auto
    have prev: "linked_to_last (page_table s i) \<Longrightarrow> \<not> owned s p (i - 1)"
      using no d(1,4) u by (auto simp: owned_def)
    have forth: "linked_to_next (page_table s i) \<Longrightarrow> \<not> owned s p (i + 1)"
      using no nxt u by (auto simp: owned_def)
    show "(linked_to_last (page_table s' i) \<longrightarrow> 256 < i \<and> used (page_table s' (i - 1)) \<and>
        linked_to_next (page_table s' (i - 1)) \<and> pid (page_table s' (i - 1)) = pid (page_table s' i)) \<and>
      (linked_to_next (page_table s' i) \<longrightarrow> i + 1 < table_len s \<and> used (page_table s' (i + 1)) \<and>
        linked_to_last (page_table s' (i + 1)))"
      using no prev forth d unfolding pt by auto
  qed
  then show "mm_inv s'" using len pt(2) by (simp add: mm_inv_def)
  have pa: "uint (page_addr i div 4096) = i" if "256 \<le> i" "i < table_len s" for i
    using page_of_addr [of i] that len by simp
  show "heads s' = {a \<in> heads s. \<not> owned s p (uint (a div 4096))}"
    unfolding heads_def pt using pa by (auto split: if_splits)
qed

subsection \<open>The page table after \<open>init_memory\<close>\<close>

lemma init_fill_frame:
  "max_address (init_fill_loop mmap ent i s) = max_address s"
  "page_table_size (init_fill_loop mmap ent i s) = page_table_size s"
proof (induction mmap ent i s rule: init_fill_loop.induct)
  case (1 mmap ent i s)
  { case 1 then show ?case using "1.IH" by (subst init_fill_loop.simps) (simp add: Let_def) }
  { case 2 then show ?case using "1.IH" by (subst init_fill_loop.simps) (simp add: Let_def) }
qed

lemma init_fill_below:
  "x < i \<Longrightarrow> page_table (init_fill_loop mmap ent i s) x = page_table s x"
proof (induction mmap ent i s rule: init_fill_loop.induct)
  case (1 mmap ent i s)
  then show ?case by (subst init_fill_loop.simps) (simp add: Let_def)
qed

text \<open>Every page of the table gets one of the two literals, and pages below the end of the page
  table itself always the first.\<close>

lemma init_fill_entry:
  "i \<le> x \<Longrightarrow> x < uint (max_address s div 4096) \<Longrightarrow>
   page_table (init_fill_loop mmap ent i s) x = taken_entry \<or>
   (page_table (init_fill_loop mmap ent i s) x = open_entry
     \<and> 0x100000 + page_table_size s * 2 \<le> (word_of_int (x * 4096) :: u32))"
proof (induction mmap ent i s rule: init_fill_loop.induct)
  case (1 mmap ent i s)
  let ?entry = "length_low (mmap ent) + base_low (mmap ent)"
  let ?ent = "if sint (word_of_int (i * 4096) :: u32) \<ge> sint ?entry then ent + 1 else ent"
  let ?taken = "init_page_taken mmap (page_table_size s) ent ?ent i"
  let ?s1 = "s\<lparr>page_table := (page_table s)(i := taken_entry), total_usable := total_usable s - 4096\<rparr>"
  let ?s2 = "s\<lparr>page_table := (page_table s)(i := open_entry)\<rparr>"
  have i: "i < uint (max_address s div 4096)" using "1.prems" by simp
  have step: "init_fill_loop mmap ent i s =
      (if ?taken then init_fill_loop mmap ?ent (i + 1) ?s1 else init_fill_loop mmap ?ent (i + 1) ?s2)"
    using i by (subst init_fill_loop.simps) (simp only: Let_def if_True)
  show ?case
  proof (cases "x = i")
    case True
    have "page_table (init_fill_loop mmap ?ent (i + 1) t) i = page_table t i" for t :: "'a mm_scheme"
      by (rule init_fill_below) simp
    then show ?thesis
      unfolding step True by (auto simp: init_page_taken_def Let_def not_less)
  next
    case False
    then have x: "i + 1 \<le> x" using "1.prems" by simp
    show ?thesis
    proof (cases ?taken)
      case T: True
      show ?thesis using "1.IH"(1) [OF i refl refl T x] "1.prems"(2) unfolding step if_P [OF T] by simp
    next
      case F: False
      show ?thesis using "1.IH"(2) [OF i refl refl F x] "1.prems"(2) unfolding step if_not_P [OF F] by simp
    qed
  qed
qed

lemma taken_entry_sel [simp]:
  "used taken_entry" "\<not> unusable taken_entry" "\<not> linked_to_next taken_entry" "pid taken_entry = 1"
  "\<not> linked_to_last taken_entry" "\<not> reserved taken_entry" "\<not> free_entry taken_entry"
  by (simp_all add: taken_entry_def entry_of_def free_entry_def)

lemma open_entry_sel [simp]:
  "\<not> used open_entry" "\<not> unusable open_entry" "\<not> linked_to_next open_entry" "pid open_entry = 0"
  "linked_to_last open_entry" "\<not> reserved open_entry" "free_entry open_entry" "open_entry \<noteq> taken_entry"
  by (simp_all add: open_entry_def taken_entry_def entry_of_def free_entry_def)

lemma init_memory_table:
  assumes "init_memory mmap n s = Some s'"
  shows "page_table_size s' = max_address s' div 4096" "table_len s' \<le> 2 ^ 20" "mm_inv s'"
    "\<And>x. 0 \<le> x \<Longrightarrow> x < table_len s' \<Longrightarrow> page_table s' x = taken_entry \<or>
      (page_table s' x = open_entry \<and> 0x100000 + page_table_size s' * 2 \<le> page_addr x)"
proof -
  obtain s1 where s': "s' = init_fill_loop mmap 0 0 (s1\<lparr>page_table_size := max_address s1 div 4096\<rparr>)"
    using assms by (auto simp: init_memory_def sort_mmap_def Let_def split: if_splits)
  show sz: "page_table_size s' = max_address s' div 4096"
    unfolding s' by (simp add: init_fill_frame)
  have "uint (max_address s' div 4096) < 2 ^ 20"
    using uint_lt2p [of "max_address s'"] by (simp add: uint_div)
  then show len: "table_len s' \<le> 2 ^ 20" by (simp add: sz)
  show entry: "page_table s' x = taken_entry \<or>
      (page_table s' x = open_entry \<and> 0x100000 + page_table_size s' * 2 \<le> page_addr x)"
    if "0 \<le> x" "x < table_len s'" for x
    using init_fill_entry [of 0 x "s1\<lparr>page_table_size := max_address s1 div 4096\<rparr>" mmap 0] that
    unfolding s' by (simp add: init_fill_frame page_addr_def)
  have "linked_ok (page_table s') (table_len s')"
    unfolding linked_ok_def
  proof (intro allI impI)
    fix i assume i: "256 \<le> i \<and> i < table_len s' \<and> used (page_table s' i)"
    then have "page_table s' i = taken_entry" using entry [of i] by force
    then show "(linked_to_last (page_table s' i) \<longrightarrow> 256 < i \<and> used (page_table s' (i - 1)) \<and>
        linked_to_next (page_table s' (i - 1)) \<and> pid (page_table s' (i - 1)) = pid (page_table s' i)) \<and>
      (linked_to_next (page_table s' i) \<longrightarrow> i + 1 < table_len s' \<and> used (page_table s' (i + 1)) \<and>
        linked_to_last (page_table s' (i + 1)))"
      by simp
  qed
  with len show "mm_inv s'" by (simp add: mm_inv_def)
qed

lemma page_addr_256: "page_addr 256 = 0x100000"
  by (simp add: page_addr_def)

lemma unat_table_end:
  "unat w \<le> 2 ^ 20 \<Longrightarrow> unat (0x100000 + w * 2 :: u32) = 0x100000 + 2 * unat w"
  by (simp add: unat_word_ariths)


text \<open>The pages \<open>init_memory\<close> withholds are marked as owned by pid 1 (eight
  initialisers for nine fields put the intended \<open>used\<close> flag into \<open>pid\<close>), so freeing the pages of
  process 1 releases the page table's own first page, and the next request is given it.\<close>

theorem exit_of_pid_1_frees_page_table:
  assumes init: "init_memory mmap n s = Some s'" and len: "256 < table_len s'"
  shows "\<exists>s2 s3. kfree_pid 1 (- 1) s' = Some s2 \<and> kumalloc 1 perms p s2 = (0x100000, s3)"
proof -
  note tab = init_memory_table [OF init]
  have "page_table s' 256 = taken_entry"
  proof (rule ccontr)
    assume "page_table s' 256 \<noteq> taken_entry"
    then have "0x100000 + page_table_size s' * 2 \<le> (0x100000 :: u32)"
      using tab(4) [OF _ len] page_addr_256 by fastforce
    moreover have "unat (page_table_size s') \<le> 2 ^ 20" "0 < unat (page_table_size s')"
      using tab(2) len by (simp_all flip: nat_uint_eq)
    ultimately show False
      using unat_table_end [of "page_table_size s'"] by (simp add: word_le_nat_alt)
  qed
  then have own: "owned s' 1 256" using len by (simp add: owned_def)
  let ?s2 = "s'\<lparr>page_table := \<lambda>x. if owned s' 1 x then zero_entry else page_table s' x\<rparr>"
  have own_used: "owners_used s' 1"
    unfolding owners_used_def
  proof (intro allI impI)
    fix x assume x: "256 \<le> x \<and> x < table_len s' \<and> ucast (pid (page_table s' x)) = (1 :: u32)"
    then have "page_table s' x = taken_entry \<or> page_table s' x = open_entry" using tab(4) [of x] by auto
    then show "used (page_table s' x)" using x by auto
  qed
  have "table_len s' \<le> uint (- 1 :: u32)"
    using tab(2) by (simp add: uint_word_ariths)
  then have free: "kfree_pid 1 (- 1) s' = Some ?s2"
    using kfree_pid_owned [OF tab(3) own_used, of "- 1"] by simp
  have "free_entry (page_table ?s2 256)" using own by simp
  then have "\<exists>s3. kumalloc 1 perms p ?s2 = (page_addr 256, s3)"
    using kumalloc_one_page [of ?s2 perms p] tab(2) len by force
  then show ?thesis using free page_addr_256 by auto
qed

subsection \<open>Counting pages\<close>

definition counted :: "page_entry \<Rightarrow> bool" where
  "counted e \<longleftrightarrow> used e \<and> \<not> (unusable e \<or> reserved e)"

lemma get_used_loop_eq:
  "get_used_loop s i c = c + of_nat (card {x. i \<le> x \<and> x < table_len s \<and> counted (page_table s x)})"
proof (induction s i c rule: get_used_loop.induct)
  case (1 s i c)
  show ?case
  proof (cases "i < table_len s")
    case True
    let ?rest = "{x. i + 1 \<le> x \<and> x < table_len s \<and> counted (page_table s x)}"
    have fin: "finite ?rest" by (rule finite_subset [of _ "{i + 1..<table_len s}"]) auto
    have "{x. i \<le> x \<and> x < table_len s \<and> counted (page_table s x)} =
        (if counted (page_table s i) then insert i ?rest else ?rest)"
      using True by (auto simp: le_less)
    then show ?thesis
      using "1.IH" [OF True] True fin
      by (subst get_used_loop.simps) (simp add: counted_def)
  next
    case False
    then have none: "{x. i \<le> x \<and> x < table_len s \<and> counted (page_table s x)} = {}" by auto
    show ?thesis unfolding none using False by (subst get_used_loop.simps) simp
  qed
qed

text \<open>\<open>get_used_pages\<close> is the number of table entries that are used and neither
  unusable nor reserved, and after a successful one-page request it is one more, the number of free
  pages one less.\<close>

theorem get_used_pages_count:
  "get_used_pages s = of_nat (card {x. 0 \<le> x \<and> x < table_len s \<and> counted (page_table s x)})
   \<and> (\<forall>perms p a s'. table_len s \<le> 2 ^ 20 \<longrightarrow> kumalloc 1 perms p s = (a, s') \<longrightarrow> a \<noteq> 0 \<longrightarrow>
        get_used_pages s' = get_used_pages s + 1 \<and> get_free_pages s' = get_free_pages s - 1)"
proof (intro conjI allI impI)
  have count: "get_used_pages t =
      of_nat (card {x. 0 \<le> x \<and> x < table_len t \<and> counted (page_table t x)})" for t :: "'a mm_scheme"
    by (simp add: get_used_pages_def get_used_loop_eq)
  then show "get_used_pages s =
      of_nat (card {x. 0 \<le> x \<and> x < table_len s \<and> counted (page_table s x)})" .
  fix perms p a and s' :: "'a mm_scheme"
  assume len: "table_len s \<le> 2 ^ 20" and al: "kumalloc 1 perms p s = (a, s')" "a \<noteq> 0"
  let ?set = "\<lambda>t :: 'a mm_scheme. {x. 0 \<le> x \<and> x < table_len t \<and> counted (page_table t x)}"
  obtain i where i: "256 \<le> i" "i < table_len s" "free_entry (page_table s i)"
    "s' = s\<lparr>page_table := \<lambda>x. if i \<le> x \<and> x < i + 1 then block_entry perms p 1 (x - i)
       else page_table s x\<rparr>"
    by (rule kumalloc_Some [OF len al]) (rule that; assumption)
  have fin: "finite (?set s)" by (rule finite_subset [of _ "{0..<table_len s}"]) auto
  have "?set s' = insert i (?set s)"
    using i(1,2) unfolding i(4) by (auto simp: counted_def)
  moreover have "i \<notin> ?set s" using i(3) by (simp add: counted_def free_entry_def)
  ultimately have "card (?set s') = Suc (card (?set s))" using fin by simp
  then show used: "get_used_pages s' = get_used_pages s + 1" by (simp add: count)
  show "get_free_pages s' = get_free_pages s - 1"
    using used unfolding i(4) by (simp add: get_free_pages_def)
qed

end
