(* ===== verification/MmanagerExamples.thy ===== *)
theory MmanagerExamples
  imports Mmanager
begin

text \<open>The properties of the page allocator at concrete states: a table of 512 pages that are all
  unused, and the table \<open>init_memory\<close> builds for a machine with one usable region of 260 pages.\<close>

subsection \<open>An empty table\<close>

definition empty_table :: mm where
  "empty_table = \<lparr>max_address = 0x200000, total_usable = 0, page_table = \<lambda>_. zero_entry,
     page_table_size = 512\<rparr>"

lemma empty_table_sel [simp]:
  "page_table_size empty_table = 512" "page_table empty_table = (\<lambda>_. zero_entry)"
  by (simp_all add: empty_table_def)

lemma free_zero_entry [simp]: "free_entry zero_entry"
  by (simp add: free_entry_def)

lemma mm_inv_empty_table [simp]: "mm_inv empty_table"
  by (simp add: mm_inv_def linked_ok_def)

lemma page_addr_not_null: "256 \<le> i \<Longrightarrow> i < 2 ^ 20 \<Longrightarrow> page_addr i \<noteq> 0"
  using page_of_addr [of i] by (intro notI) simp

lemma page_addr_concrete: "page_addr 256 = 0x100000" "page_addr 257 = 0x101000"
  by (simp_all add: page_addr_def)

lemma kumalloc_empty_table:
  "kumalloc 1 perms p empty_table =
     (0x100000, empty_table\<lparr>page_table := (\<lambda>_. zero_entry)(256 := block_entry perms p 1 0)\<rparr>)"
  using kumalloc_first(1) [of 256 empty_table perms p] by (simp add: page_addr_concrete)

lemma kumalloc_second_page:
  "\<exists>m. kumalloc 1 6 0 (empty_table\<lparr>page_table := (\<lambda>_. zero_entry)(256 := block_entry 6 0 1 0)\<rparr>) = (0x101000, m)"
  (is "\<exists>m. kumalloc 1 6 0 ?m = _")
proof -
  have "\<not> free_entry (page_table ?m j)" if "256 \<le> j" "j < 257" for j
  proof -
    have "j = 256" using that by simp
    then show ?thesis by (simp add: free_entry_def)
  qed
  then show ?thesis using kumalloc_first(1) [of 257 ?m 6 0] by (simp add: page_addr_concrete)
qed

theorem kumalloc_first_fit_witness:
  "\<exists>i. 256 \<le> i \<and> i < 512 \<and> kumalloc 1 6 0 empty_table = (page_addr i,
      empty_table\<lparr>page_table := (\<lambda>_. zero_entry)(i := block_entry 6 0 1 0)\<rparr>)"
proof -
  have "table_len empty_table \<le> 2 ^ 20" by simp
  from kumalloc_first_fit [OF this, of 6 0] show ?thesis
    using kumalloc_empty_table [of 6 0] by (auto simp: page_addr_concrete)
qed

theorem kumalloc_ignores_following_pages_witness:
  "\<exists>i. (0x100000 :: ptr) = page_addr i \<and> kumalloc 3 6 9 empty_table = (0x100000, empty_table\<lparr>page_table :=
    \<lambda>x. if i \<le> x \<and> x < i + 3 then block_entry 6 9 3 (x - i) else page_table empty_table x\<rparr>)"
  using kumalloc_ignores_following_pages [of empty_table 3, OF _ _ _ kumalloc_empty_table [of 6 9]]
  by (simp add: page_addr_def)

lemma kumalloc_empty_block:
  assumes "0 < sz" "sz \<le> 256"
  obtains s' where "kumalloc sz perms p empty_table = (0x100000, s')" "mm_inv s'" "table_len s' = 512"
    "\<And>x. pid (page_table s' x) = 0 \<or> pid (page_table s' x) = ucast p"
    "\<And>x. 256 + sz \<le> x \<Longrightarrow> page_table s' x = zero_entry"
proof -
  have "kmalloc_search empty_table sz 256 = Some 256"
    using check_free_trivial [of sz 256] assms(2) by (subst kmalloc_search.simps) simp
  then obtain s' where s': "kumalloc sz perms p empty_table = (0x100000, s')"
    by (simp add: kumalloc_def page_addr_concrete)
  have len: "table_len empty_table \<le> 2 ^ 20" and ne: "(0x100000 :: ptr) \<noteq> 0" by simp_all
  obtain i where i: "256 \<le> i" "(0x100000 :: ptr) = page_addr i" "i < table_len empty_table" and
    new: "s' = empty_table\<lparr>page_table := \<lambda>x. if i \<le> x \<and> x < i + sz then block_entry perms p sz (x - i)
       else page_table empty_table x\<rparr>"
    by (rule kumalloc_Some [OF len s' ne]) (rule that; assumption)
  have i256: "i = 256" using addr_eq_iff [of i 256] i by (simp add: page_addr_concrete)
  have "mm_inv s'"
    using linked_ok_alloc [of "page_table empty_table" 512 256 sz perms p] mm_inv_empty_table assms
    unfolding new i256 by (simp add: mm_inv_def)
  with s' show thesis by (rule that) (simp_all add: new i256)
qed

theorem kfree_kumalloc_witness:
  "\<exists>s'. kumalloc 3 6 9 empty_table = (0x100000, s') \<and> (\<exists>i. (0x100000 :: ptr) = page_addr i \<and>
     kfree 0x101234 s' = Some (empty_table\<lparr>page_table :=
       \<lambda>x. if i \<le> x \<and> x < i + 3 then zero_entry else page_table empty_table x\<rparr>))"
proof -
  obtain s' where s': "kumalloc 3 6 9 empty_table = (0x100000, s')" by (rule kumalloc_empty_block [of 3 6 9]) simp_all
  have "\<exists>i. (0x100000 :: ptr) = page_addr i \<and> kfree 0x101234 s' = Some (empty_table\<lparr>page_table :=
       \<lambda>x. if i \<le> x \<and> x < i + 3 then zero_entry else page_table empty_table x\<rparr>)"
    by (rule kfree_kumalloc [OF _ _ s']) simp_all
  with s' show ?thesis by blast
qed

theorem kumalloc_overlaps_live_block_witness:
  "\<exists>s1 s2 s3 s4. kumalloc 1 6 9 empty_table = (page_addr 256, s1)
    \<and> kumalloc 1 6 9 s1 = (page_addr (256 + 1), s2)
    \<and> kfree (page_addr 256) s2 = Some s3 \<and> page_addr (256 + 1) \<in> heads s3
    \<and> kumalloc 2 6 9 s3 = (page_addr 256, s4)
    \<and> page_table s4 (256 + 1) = block_entry 6 9 2 1"
  by (rule kumalloc_overlaps_live_block) auto

theorem kumalloc_never_grants_read_write_witness:
  "\<exists>s'. kumalloc 1 7 9 empty_table = (0x100000, s')
    \<and> \<not> read_bit (page_table s' 256) \<and> \<not> write_bit (page_table s' 256) \<and> execute_bit (page_table s' 256)"
  using kumalloc_never_grants_read_write [OF _ kumalloc_empty_table [of 7 9], of 0] kumalloc_empty_table [of 7 9]
  by simp

theorem kfree_pid_large_witness: "kfree_pid 256 5 empty_table = Some empty_table"
  by (rule kfree_pid_large) simp

theorem kfree_pid_frees_owned_witness:
  "\<exists>s'. kumalloc 1 6 9 empty_table = (0x100000, s') \<and> kfree_pid 9 512 s' =
     Some (s'\<lparr>page_table := \<lambda>x. if owned s' 9 x then zero_entry else page_table s' x\<rparr>)"
proof -
  obtain s' where al: "kumalloc 1 6 9 empty_table = (0x100000, s')" and
    s': "s' = empty_table\<lparr>page_table := (\<lambda>_. zero_entry)(256 := block_entry 6 9 1 0)\<rparr>"
    using kumalloc_empty_table by blast
  have "mm_inv s'" using kumalloc_one [OF _ al] by simp
  moreover have "owners_used s' 9" unfolding owners_used_def s' by auto
  ultimately have "kfree_pid 9 512 s' =
     Some (s'\<lparr>page_table := \<lambda>x. if owned s' 9 x then zero_entry else page_table s' x\<rparr>)"
    by (intro kfree_pid_frees_owned) (simp_all add: s')
  with al show ?thesis by blast
qed

theorem get_used_pages_count_witness:
  "\<exists>s'. kumalloc 1 6 9 empty_table = (0x100000, s') \<and> get_used_pages s' = get_used_pages empty_table + 1
    \<and> get_free_pages s' = get_free_pages empty_table - 1"
  using get_used_pages_count [of empty_table] kumalloc_empty_table [of 6 9] by simp

subsection \<open>A machine with one region\<close>

definition one_region :: mmap_entry where
  "one_region = \<lparr>base_high = 0, base_low = 0, length_high = 0, length_low = 0x104000, attributes = 0,
     region_type = 1\<rparr>"

definition blank_mm :: mm where
  "blank_mm = \<lparr>max_address = 0, total_usable = 0, page_table = \<lambda>_. zero_entry, page_table_size = 0\<rparr>"

lemma init_fill_one_region:
  "i \<le> x \<Longrightarrow> x < uint (max_address s div 4096) \<Longrightarrow>
   page_table (init_fill_loop (\<lambda>_. one_region) ent i s) x =
     (if (word_of_int (x * 4096) :: u32) < 0x100000 + page_table_size s * 2 then taken_entry else open_entry)"
proof (induction "\<lambda>_ :: int. one_region" ent i s rule: init_fill_loop.induct)
  case (1 ent i s)
  let ?entry = "length_low one_region + base_low one_region"
  let ?ent = "if sint (word_of_int (i * 4096) :: u32) \<ge> sint ?entry then ent + 1 else ent"
  let ?taken = "init_page_taken (\<lambda>_. one_region) (page_table_size s) ent ?ent i"
  let ?s1 = "s\<lparr>page_table := (page_table s)(i := taken_entry), total_usable := total_usable s - 4096\<rparr>"
  let ?s2 = "s\<lparr>page_table := (page_table s)(i := open_entry)\<rparr>"
  have i: "i < uint (max_address s div 4096)" using "1.prems" by simp
  have step: "init_fill_loop (\<lambda>_. one_region) ent i s =
      (if ?taken then init_fill_loop (\<lambda>_. one_region) ?ent (i + 1) ?s1
       else init_fill_loop (\<lambda>_. one_region) ?ent (i + 1) ?s2)"
    using i by (subst init_fill_loop.simps) (simp only: Let_def if_True)
  have taken: "?taken \<longleftrightarrow> (word_of_int (i * 4096) :: u32) < 0x100000 + page_table_size s * 2"
    by (simp add: init_page_taken_def one_region_def Let_def)
  show ?case
  proof (cases "x = i")
    case True
    have "page_table (init_fill_loop (\<lambda>_. one_region) ?ent (i + 1) t) i = page_table t i"
      for t :: "'a mm_scheme" by (rule init_fill_below) simp
    then show ?thesis unfolding step taken True by simp
  next
    case False
    then have x: "i + 1 \<le> x" using "1.prems" by simp
    show ?thesis
    proof (cases ?taken)
      case T: True
      show ?thesis using "1.hyps"(1) [OF i refl refl T x] "1.prems"(2) unfolding step if_P [OF T] by simp
    next
      case F: False
      show ?thesis using "1.hyps"(2) [OF i refl refl F x] "1.prems"(2) unfolding step if_not_P [OF F] by simp
    qed
  qed
qed

definition one_region_table :: mm where
  "one_region_table = init_fill_loop (\<lambda>_. one_region) 0 0 (blank_mm\<lparr>max_address := 0x104000,
     total_usable := 0x104000 - 256, page_table_size := 260\<rparr>)"

lemma init_one_region: "init_memory (\<lambda>_. one_region) 1 blank_mm = Some one_region_table"
proof -
  have "init_limits (\<lambda>_. one_region) 1 0 blank_mm =
      blank_mm\<lparr>max_address := 0x104000, total_usable := 0x104000 - 256\<rparr>"
    by (subst init_limits.simps, subst init_limits.simps) (simp add: blank_mm_def one_region_def)
  moreover have "sort_mmap (\<lambda>_. one_region) 1 = Some ()"
    by (simp add: sort_mmap_def check_sorted_def check_sorted_loop.simps)
  ultimately show ?thesis by (simp add: init_memory_def one_region_table_def)
qed

lemma one_region_table_sel:
  "page_table_size one_region_table = 260" "max_address one_region_table = 0x104000"
  by (simp_all add: one_region_table_def init_fill_frame)

lemma one_region_table_page:
  "0 \<le> x \<Longrightarrow> x < 260 \<Longrightarrow> page_table one_region_table x =
     (if (word_of_int (x * 4096) :: u32) < 0x100208 then taken_entry else open_entry)"
  unfolding one_region_table_def by (subst init_fill_one_region) simp_all

lemma kumalloc_one_region: "\<exists>s'. kumalloc 1 perms p one_region_table = (0x101000, s')"
proof -
  have "\<not> free_entry (page_table one_region_table j)" if "256 \<le> j" "j < 257" for j
    proof -
    have "j = 256" using that by simp
    then show ?thesis using one_region_table_page [of 256] by simp
  qed
  then show ?thesis
    using kumalloc_first(1) [of 257 one_region_table perms p] one_region_table_page [of 257]
    by (simp add: one_region_table_sel page_addr_concrete)
qed


theorem exit_of_pid_1_frees_page_table_witness:
  "\<exists>s2 s3. kfree_pid 1 (- 1) one_region_table = Some s2
     \<and> kumalloc 1 6 0 s2 = (0x100000, s3)"
  using exit_of_pid_1_frees_page_table [OF init_one_region, of 6 0] by (simp add: one_region_table_sel)

end
