(* ===== verification/PortIO.thy ===== *)
theory PortIO
  imports Prelude
begin

text \<open>
  \<open>kernel/cpu/io.c\<close>: the four port instructions, over a machine whose devices are a parameter of
  the model. The state keeps the trace of what the processor has done so far, newest event first;
  a device answers a read as a function of that trace, so it may keep any state of its own. The
  counters of the timer interrupt, which advance while a driver polls, are read the same way.
  Console output (\<open>kprintf\<close>) is an event with the format and the arguments; what it does to the
  serial port is in theory \<open>Serial\<close>.
\<close>

datatype parg = PInt u32 | PStr string | PEntry string u32

datatype io_event =
    Inb u16 u8
  | Outb u16 u8
  | Inw u16 u16
  | Outw u16 u16
  | Seconds u32
  | Printf string "parg list"

record device =
  dev_inb :: "io_event list \<Rightarrow> u16 \<Rightarrow> u8"
  dev_inw :: "io_event list \<Rightarrow> u16 \<Rightarrow> u16"
  dev_seconds :: "io_event list \<Rightarrow> u32"

record io =
  trace :: "io_event list"

definition inb :: "device \<Rightarrow> u16 \<Rightarrow> 'a io_scheme \<Rightarrow> u8 \<times> 'a io_scheme" where
  "inb d port s = (let byte = dev_inb d (trace s) port in (byte, s\<lparr>trace := Inb port byte # trace s\<rparr>))"

definition outb :: "u16 \<Rightarrow> u8 \<Rightarrow> 'a io_scheme \<Rightarrow> 'a io_scheme" where
  "outb port byte s = s\<lparr>trace := Outb port byte # trace s\<rparr>"

definition outw :: "u16 \<Rightarrow> u16 \<Rightarrow> 'a io_scheme \<Rightarrow> 'a io_scheme" where
  "outw port data s = s\<lparr>trace := Outw port data # trace s\<rparr>"

definition inw :: "device \<Rightarrow> u16 \<Rightarrow> 'a io_scheme \<Rightarrow> u16 \<times> 'a io_scheme" where
  "inw d port s = (let w = dev_inw d (trace s) port in (w, s\<lparr>trace := Inw port w # trace s\<rparr>))"

definition printf :: "string \<Rightarrow> parg list \<Rightarrow> 'a io_scheme \<Rightarrow> 'a io_scheme" where
  "printf fmt args s = s\<lparr>trace := Printf fmt args # trace s\<rparr>"

text \<open>A format that ends with a line feed.\<close>

definition line :: "string \<Rightarrow> string" where
  "line fmt = fmt @ [CHR 0x0A]"

subsection \<open>What a program wrote\<close>

text \<open>\<open>outputs\<close> are the port writes of a trace, oldest first; \<open>since s s'\<close> the events between
  two states.\<close>

fun is_output :: "io_event \<Rightarrow> bool" where
  "is_output (Outb p b) = True"
| "is_output (Outw p w) = True"
| "is_output _ = False"

definition outputs :: "io_event list \<Rightarrow> io_event list" where
  "outputs tr = rev (List.filter is_output tr)"

fun inw_words :: "io_event list \<Rightarrow> u16 list" where
  "inw_words [] = []"
| "inw_words (Inw p w # tr) = inw_words tr @ [w]"
| "inw_words (_ # tr) = inw_words tr"

definition all_events :: "(io_event \<Rightarrow> bool) \<Rightarrow> 'a io_scheme \<Rightarrow> bool" where
  "all_events P s \<longleftrightarrow> (\<forall>e \<in> set (trace s). P e)"

lemma outputs_Nil [simp]: "outputs [] = []"
  by (simp add: outputs_def)

lemma outputs_Cons [simp]: "outputs (e # tr) = outputs tr @ (if is_output e then [e] else [])"
  by (simp add: outputs_def)

lemma outputs_append [simp]: "outputs (tr @ tr') = outputs tr' @ outputs tr"
  by (simp add: outputs_def)

lemma trace_inb [simp]:
  "trace (snd (inb d p s)) = Inb p (fst (inb d p s)) # trace s"
  "trace (snd (inw d p s)) = Inw p (fst (inw d p s)) # trace s"
  by (simp_all add: inb_def inw_def Let_def)

lemma trace_out [simp]:
  "trace (outb p b s) = Outb p b # trace s"
  "trace (outw p w s) = Outw p w # trace s"
  "trace (printf f as s) = Printf f as # trace s"
  by (simp_all add: outb_def outw_def printf_def)

lemma all_events_step [simp]:
  "all_events P (snd (inb d p s)) \<longleftrightarrow> P (Inb p (fst (inb d p s))) \<and> all_events P s"
  "all_events P (snd (inw d p s)) \<longleftrightarrow> P (Inw p (fst (inw d p s))) \<and> all_events P s"
  "all_events P (outb p b s) \<longleftrightarrow> P (Outb p b) \<and> all_events P s"
  "all_events P (outw p w s) \<longleftrightarrow> P (Outw p w) \<and> all_events P s"
  "all_events P (printf f as s) \<longleftrightarrow> P (Printf f as) \<and> all_events P s"
  by (simp_all add: all_events_def)

lemma in_unfold:
  "inb d p s = (dev_inb d (trace s) p, s\<lparr>trace := Inb p (dev_inb d (trace s) p) # trace s\<rparr>)"
  "inw d p s = (dev_inw d (trace s) p, s\<lparr>trace := Inw p (dev_inw d (trace s) p) # trace s\<rparr>)"
  by (simp_all add: inb_def inw_def Let_def)

end
