(* ===== verification/Timer.thy ===== *)
theory Timer
  imports PortIO Interfaces
begin

text \<open>
  \<open>kernel/drivers/timer.c\<close>: the tick and second counters of the timer interrupt and the two
  countdowns polled by the drivers; and \<open>kernel/cpu/ksec.c\<close>, whose pseudo-random keys are made
  from these counters. \<open>irq0_timer_handler\<close> is split: its counting is \<open>timer_tick\<close>, its tail
  call of the scheduler is added in theory \<open>Scheduler\<close>.

  The \<open>static int start\<close> of each wait function is a field; it is compared with an \<open>unsigned\<close>
  counter, so the comparison is unsigned.
\<close>

record timer = io +
  seconds :: u32
  ticks :: u32
  wait_secs_start :: u32
  wait_ticks_start :: u32

definition timer_tick :: "'a timer_scheme \<Rightarrow> 'a timer_scheme" where
  "timer_tick s =
     (let s1 = s\<lparr>ticks := ticks s + 1\<rparr>
      in if ticks s1 mod 18 = 0 then s1\<lparr>seconds := seconds s1 + 1\<rparr> else s1)"

definition wait_secs :: "u32 \<Rightarrow> 'a timer_scheme \<Rightarrow> u32 \<times> 'a timer_scheme" where
  "wait_secs count s =
     (if count \<noteq> 0 then
        (let s' = s\<lparr>wait_secs_start := seconds s + count - 1\<rparr>
         in (if seconds s' > wait_secs_start s' then 1 else 0, s'))
      else if seconds s > wait_secs_start s then (1, s)
      else (0, s))"

definition wait_ticks :: "u32 \<Rightarrow> 'a timer_scheme \<Rightarrow> u32 \<times> 'a timer_scheme" where
  "wait_ticks count s =
     (if count \<noteq> 0 then
        (let s' = s\<lparr>wait_ticks_start := ticks s + count - 1\<rparr>
         in (if ticks s' > wait_ticks_start s' then 1 else 0, s'))
      else if ticks s > wait_ticks_start s then (1, s)
      else (0, s))"

subsection \<open>Keys\<close>

record ksec = timer +
  seed :: u32

definition seed_ksecr :: "u32 \<Rightarrow> 'a ksec_scheme \<Rightarrow> 'a ksec_scheme" where
  "seed_ksecr gseed s = s\<lparr>seed := gseed\<rparr>"

text \<open>
  The operators bind as in C: \<open>*\<close> and \<open>+\<close> before \<open><<\<close>, then \<open>^\<close>, then \<open>|\<close>. The processor's
  shift uses its count modulo 32. \<open>seed % (ticks + 1)\<close> and \<open>seconds / (seed + 1)\<close> are divide
  errors when the sum wraps to 0.
\<close>

definition shl :: "u32 \<Rightarrow> u32 \<Rightarrow> u32" where
  "shl v n = push_bit (unat (n mod 32)) v"

definition prng :: "'a ksec_scheme \<Rightarrow> (u32 \<times> 'a ksec_scheme) option" where
  "prng s =
     (if ticks s + 1 = 0 \<or> seed s + 1 = 0 then None
      else
        let a = (if seed s mod (ticks s + 1) > 5 then 1 else 0);
            b = (ticks s + seconds s div (seed s + 1)) OR shl (seed s) (seconds s div (ticks s mod 4 + 1));
            c = shl (ticks s + 1) (seed s mod (seconds s mod 31 + 1));
            num = (a * b + seed s) XOR c
        in Some (num, s\<lparr>seed := (num - (ticks s OR (seed s + seconds s))) + 1\<rparr>))"

text \<open>The call of \<open>prng\<close> is evaluated before the operand that reads \<open>seed\<close> again.\<close>

definition gen_driver_key :: "u8 \<Rightarrow> u32 \<Rightarrow> 'a ksec_scheme \<Rightarrow> (u32 \<times> 'a ksec_scheme) option" where
  "gen_driver_key p modifier s = do {
     (num, s1) \<leftarrow> prng (seed_ksecr (seed s) s);
     Some (num OR (ucast p + (if ucast p > seed s1 then 1 else - 1) * modifier), s1) }"

subsection \<open>Countdowns\<close>

text \<open>Both wait functions keep one contract, over different counters.\<close>

interpretation secs: countdown seconds wait_secs wait_secs_start
  by unfold_locales (auto simp: wait_secs_def Let_def)

interpretation tcks: countdown ticks wait_ticks wait_ticks_start
  by unfold_locales (auto simp: wait_ticks_def Let_def)

text \<open>A countdown of \<open>c\<close> seconds armed at \<open>s\<close> and polled in a later state \<open>u\<close> (with
  the start value untouched and no wrap of the counter in between) reports the end exactly when the
  second counter has advanced by \<open>c\<close> or more; polling changes nothing.\<close>

theorem wait_secs_expires:
  fixes s s' u :: "'a timer_scheme"
  assumes "c \<noteq> 0" and "unat (seconds s) + unat c \<le> 2 ^ 32" and "wait_secs c s = (r, s')"
    and "wait_secs_start u = wait_secs_start s'" and "seconds s \<le> seconds u"
  shows "wait_secs 0 u = (if unat (seconds s) + unat c \<le> unat (seconds u) then 1 else 0, u)"
  by (rule secs.expires [OF assms])

text \<open>The same for the countdown in ticks.\<close>

theorem wait_ticks_expires:
  fixes s s' u :: "'a timer_scheme"
  assumes "c \<noteq> 0" and "unat (ticks s) + unat c \<le> 2 ^ 32" and "wait_ticks c s = (r, s')"
    and "wait_ticks_start u = wait_ticks_start s'" and "ticks s \<le> ticks u"
  shows "wait_ticks 0 u = (if unat (ticks s) + unat c \<le> unat (ticks u) then 1 else 0, u)"
  by (rule tcks.expires [OF assms])

subsection \<open>Ticks and seconds\<close>

text \<open>What the interrupt keeps: a second is counted every 18 ticks (the tick rate is 18.2 Hz).\<close>

definition clock_ok :: "'a timer_scheme \<Rightarrow> bool" where
  "clock_ok s \<longleftrightarrow> unat (seconds s) = unat (ticks s) div 18"

lemma timer_tick_frame [simp]:
  "wait_secs_start (timer_tick s) = wait_secs_start s" "ticks (timer_tick s) = ticks s + 1"
  "wait_ticks_start (timer_tick s) = wait_ticks_start s"
  by (simp_all add: timer_tick_def Let_def)

lemma timer_tick_clock_ok:
  assumes "clock_ok s" and "ticks s \<noteq> - 1"
  shows "clock_ok (timer_tick s)"
proof -
  note t = unat_succ_u32 [OF assms(2)]
  have "unat (seconds s) + 1 < 2 ^ 32"
    using assms(1) unat_lt_u32 [of "ticks s"] by (simp add: clock_ok_def)
  then have s: "unat (seconds s + 1) = unat (seconds s) + 1" by (simp add: unat_add_u32)
  have "unat ((ticks s + 1) mod 18) = Suc (unat (ticks s)) mod 18" by (simp add: unat_mod t)
  then have m: "(ticks s + 1) mod 18 = 0 \<longleftrightarrow> Suc (unat (ticks s)) mod 18 = 0"
    by (metis unat_eq_0)
  show ?thesis
    using assms(1) m s t by (auto simp: clock_ok_def timer_tick_def Let_def div_Suc)
qed

lemma timer_run:
  assumes "clock_ok s"
  shows "unat (ticks s) + k < 2 ^ 32 \<Longrightarrow> clock_ok ((timer_tick ^^ k) s)
    \<and> unat (ticks ((timer_tick ^^ k) s)) = unat (ticks s) + k
    \<and> wait_secs_start ((timer_tick ^^ k) s) = wait_secs_start s"
proof (induction k)
  case 0
  with assms show ?case by simp
next
  case (Suc k)
  then have IH: "clock_ok ((timer_tick ^^ k) s)"
    "unat (ticks ((timer_tick ^^ k) s)) = unat (ticks s) + k"
    "wait_secs_start ((timer_tick ^^ k) s) = wait_secs_start s" by auto
  then have "ticks ((timer_tick ^^ k) s) \<noteq> - 1"
    using Suc.prems unat_m1_u32 by auto
  with IH timer_tick_clock_ok unat_succ_u32 show ?case by (auto simp: comp_def)
qed

text \<open>From a state whose counters agree, \<open>k\<close> timer interrupts leave them agreeing (as
  long as the tick counter does not wrap), and a countdown of \<open>c\<close> seconds has run out after
  \<open>18 * c\<close> interrupts and has not within the first \<open>18 * (c - 1)\<close>.\<close>

theorem wait_secs_duration:
  fixes s s' :: "'a timer_scheme"
  assumes ok: "clock_ok s" and c: "c \<noteq> 0" "unat (seconds s) + unat c \<le> 2 ^ 32"
    and k: "unat (ticks s) + k < 2 ^ 32" and w: "wait_secs c s = (r, s')"
  shows "clock_ok ((timer_tick ^^ k) s')
    \<and> (18 * unat c \<le> k \<longrightarrow> fst (wait_secs 0 ((timer_tick ^^ k) s')) = 1)
    \<and> (k \<le> 18 * (unat c - 1) \<longrightarrow> fst (wait_secs 0 ((timer_tick ^^ k) s')) = 0)"
proof -
  let ?u = "(timer_tick ^^ k) s'"
  have s': "seconds s' = seconds s" "ticks s' = ticks s"
    using w c by (auto simp: wait_secs_def Let_def)
  then have "clock_ok s'" using ok by (simp add: clock_ok_def)
  from timer_run [OF this, of k] k s'
  have u: "clock_ok ?u" "unat (ticks ?u) = unat (ticks s) + k" "wait_secs_start ?u = wait_secs_start s'"
    by auto
  have secs: "unat (seconds ?u) = (unat (ticks s) + k) div 18" "unat (seconds s) = unat (ticks s) div 18"
    using u ok by (auto simp: clock_ok_def)
  then have "unat (seconds s) \<le> unat (seconds ?u)" by (simp add: div_le_mono)
  then have "fst (wait_secs 0 ?u) = (if unat (seconds s) + unat c \<le> unat (seconds ?u) then 1 else 0)"
    using secs.expires [OF c w u(3)] by (simp add: word_le_nat_alt)
  moreover have "unat (seconds s) + unat c \<le> unat (seconds ?u)" if "18 * unat c \<le> k"
    unfolding secs using that by linarith
  moreover have "\<not> unat (seconds s) + unat c \<le> unat (seconds ?u)" if "k \<le> 18 * (unat c - 1)"
  proof -
    have "0 < unat c" using c(1) by (simp add: unat_gt_0)
    then show ?thesis unfolding secs using that by linarith
  qed
  ultimately show ?thesis using u(1) by simp
qed

text \<open>\<open>prng\<close> returns unless the tick counter or the seed is at its last value (a divide
  error otherwise), and from the seed 0 the kernel boots with, and never changes, its first number
  is the tick count plus one.\<close>

theorem prng_first_number:
  "(prng s = None \<longleftrightarrow> ticks s = - 1 \<or> seed s = - 1)
   \<and> (seed s = 0 \<longrightarrow> ticks s \<noteq> - 1 \<longrightarrow> (\<exists>s'. prng s = Some (ticks s + 1, s')))"
  by (auto simp: prng_def Let_def shl_def add_eq_0_iff2)

end
