(* ===== verification/Machine.thy ===== *)
theory Machine
  imports Timer Mmanager
begin

text \<open>
  The part of the kernel's state that the process scheduler and the storage drivers share: the
  port trace, the timers and the random seed, the bytes of memory, and the page allocator's table.
\<close>

record machine = ksec +
  mem :: mem
  mmgr :: mm

text \<open>The calls of the page allocator, on the state that embeds it.\<close>

definition sys_kumalloc :: "int \<Rightarrow> u32 \<Rightarrow> u32 \<Rightarrow> 'a machine_scheme \<Rightarrow> ptr \<times> 'a machine_scheme" where
  "sys_kumalloc n perms p s = (let (a, m) = kumalloc n perms p (mmgr s) in (a, s\<lparr>mmgr := m\<rparr>))"

definition sys_kmalloc :: "int \<Rightarrow> u32 \<Rightarrow> 'a machine_scheme \<Rightarrow> ptr \<times> 'a machine_scheme" where
  "sys_kmalloc n perms s = (let (a, m) = kmalloc n perms (mmgr s) in (a, s\<lparr>mmgr := m\<rparr>))"

definition sys_kfree :: "ptr \<Rightarrow> 'a machine_scheme \<Rightarrow> 'a machine_scheme option" where
  "sys_kfree a s = do { m \<leftarrow> kfree a (mmgr s); Some (s\<lparr>mmgr := m\<rparr>) }"

lemma sys_kmalloc_eq: "sys_kmalloc n perms s = sys_kumalloc n perms 0 s"
  by (simp add: sys_kmalloc_def sys_kumalloc_def kmalloc_eq_kumalloc)

lemma sys_kumalloc_frame:
  "sys_kumalloc n perms p s = (a, s') \<Longrightarrow> s' = s\<lparr>mmgr := mmgr s'\<rparr> \<and> kumalloc n perms p (mmgr s) = (a, mmgr s')"
  by (auto simp: sys_kumalloc_def split: prod.splits)

lemma sys_kumalloc_pair:
  "sys_kumalloc n perms p s =
    (fst (kumalloc n perms p (mmgr s)), s\<lparr>mmgr := snd (kumalloc n perms p (mmgr s))\<rparr>)"
  by (simp add: sys_kumalloc_def split_def Let_def)

text \<open>The seconds counter advances while a driver polls: its value is asked of the machine.\<close>

definition poll_wait_secs :: "device \<Rightarrow> u32 \<Rightarrow> 'a timer_scheme \<Rightarrow> u32 \<times> 'a timer_scheme" where
  "poll_wait_secs d count s =
     (let v = dev_seconds d (trace s)
      in wait_secs count (s\<lparr>seconds := v, trace := Seconds v # trace s\<rparr>))"

lemma trace_poll_wait_secs [simp]:
  "trace (snd (poll_wait_secs d c s)) = Seconds (dev_seconds d (trace s)) # trace s"
  by (simp add: poll_wait_secs_def wait_secs_def Let_def)

end
