(* ===== verification/Ata.thy ===== *)
theory Ata
  imports Machine
begin

text \<open>
  \<open>kernel/drivers/ata.c\<close>: programmed input and output over the ATA registers, with the drive
  structures of \<open>storage.h\<close> (\<open>ata_identify\<close>, which registers what it finds, is in theory
  \<open>Storage\<close>). Error codes are those of \<open>cpu/ecodes.h\<close>. Loops that poll a register may never end:
  their value is then \<open>None\<close>.
\<close>

definition E_NO_ERR :: u32 where "E_NO_ERR = 0"
definition DE_DRIVE_ERR :: u32 where "DE_DRIVE_ERR = 1"
definition DE_INVALID_DRIVE :: u32 where "DE_INVALID_DRIVE = 4"
definition E_UNKNOWN :: u32 where "E_UNKNOWN = 6"
definition E_NOT_IMPLEMENTED :: u32 where "E_NOT_IMPLEMENTED = 7"
definition E_TIMEOUT :: u32 where "E_TIMEOUT = 8"

lemmas ecode_defs = E_NO_ERR_def DE_DRIVE_ERR_def DE_INVALID_DRIVE_def E_UNKNOWN_def
  E_NOT_IMPLEMENTED_def E_TIMEOUT_def

subsection \<open>Drives\<close>

text \<open>\<open>drive32_t\<close>; one-bit flags are \<open>bool\<close>s.\<close>

record drive32 =
  d_number :: u8
  d_type :: u8
  read_only :: bool
  removable :: bool
  d_hidden :: bool
  contains_pt :: bool
  d_size_low :: u32
  d_size_high :: u32
  bytes_per_sector :: u32

text \<open>\<open>ata_drive32_t\<close> begins with a \<open>drive32_t\<close>; the serial number is never used.\<close>

record ata_drive32 = drive32 +
  base_port :: u16
  command_port :: u16
  slave :: bool
  lba48 :: bool

subsection \<open>Waiting for the drive\<close>

partial_function (option) poll_busy_i :: "device \<Rightarrow> u16 \<Rightarrow> 'a timer_scheme \<Rightarrow> (bool \<times> 'a timer_scheme) option" where
  "poll_busy_i d port s =
     (let (st, s1) = inb d (port + 7) s
      in if st AND 0x80 \<noteq> 0 then
           (let (out, s2) = poll_wait_secs d 0 s1
            in if out \<noteq> 0 then Some (True, s2) else poll_busy_i d port s2)
         else Some (False, s1))"

partial_function (option) poll_drq_i :: "device \<Rightarrow> u8 \<Rightarrow> u32 \<Rightarrow> 'a timer_scheme \<Rightarrow> (bool \<times> 'a timer_scheme) option" where
  "poll_drq_i d status timeout s =
     (if status AND 0x8 = 0 \<and> status AND 1 = 0 then
        if timeout \<noteq> 0 then Some (True, s)
        else (let (t, s1) = poll_wait_secs d 0 s in poll_drq_i d status t s1)
      else Some (False, s))"

text \<open>\<open>inb\<close> of the second register is skipped when the first is not 0 (\<open>||\<close>).\<close>

definition poll_drive_i :: "device \<Rightarrow> u16 \<Rightarrow> 'a timer_scheme \<Rightarrow> (u32 \<times> 'a timer_scheme) option" where
  "poll_drive_i d port s = do {
     (late, s1) \<leftarrow> poll_busy_i d port (snd (poll_wait_secs d 5 s));
     if late then Some (E_TIMEOUT, s1)
     else
       let (hi, s2) = inb d (port + 5) s1;
           (mid, s3) = (if hi \<noteq> 0 then (hi, s2) else inb d (port + 4) s2)
       in if mid \<noteq> 0 then Some (E_NOT_IMPLEMENTED, s3)
          else
            let (status, s4) = inb d (port + 7) s3;
                (timeout, s5) = poll_wait_secs d 5 s4
            in do {
              (late', s6) \<leftarrow> poll_drq_i d status timeout s5;
              Some (if late' then (E_TIMEOUT, s6)
                    else if status AND 1 \<noteq> 0 then (E_UNKNOWN, s6) else (0, s6)) } }"

partial_function (option) wait_ready :: "device \<Rightarrow> u16 \<Rightarrow> 'a io_scheme \<Rightarrow> 'a io_scheme option" where
  "wait_ready d port s =
     (let (st, s1) = inb d (port + 7) s
      in if st AND 0x40 = 0 then wait_ready d port s1 else Some s1)"

text \<open>
  The loop of \<open>poll_drive\<close>: \<open>!(res & 0x40 || !(res & 0x8)) || res & 0x80 && !wait_secs(0)\<close>. The
  clock is read only where the second half of the condition is reached with the busy bit set. The
  result is \<open>Some\<close> an error to return, or \<open>None\<close> for the end of the loop.
\<close>

partial_function (option) poll_drive_loop ::
    "device \<Rightarrow> u16 \<Rightarrow> u8 \<Rightarrow> 'a timer_scheme \<Rightarrow> (u32 option \<times> 'a timer_scheme) option" where
  "poll_drive_loop d port res s =
     (let (again, s1) =
        (if \<not> (res AND 0x40 \<noteq> 0 \<or> res AND 0x8 = 0) then (True, s)
         else if res AND 0x80 \<noteq> 0 then (let (t, s') = poll_wait_secs d 0 s in (t = 0, s'))
         else (False, s))
      in if again then
           if res AND 0x20 \<noteq> 0 \<or> res AND 1 \<noteq> 0 then
             (let (e, s2) = inb d (port + 1) s1
              in Some (Some DE_DRIVE_ERR, printf (line ''ERROR: %x'') [PInt (ucast e)] s2))
           else (let (res', s2) = inb d (port + 7) s1 in poll_drive_loop d port res' s2)
         else Some (None, s1))"

definition poll_drive :: "device \<Rightarrow> u16 \<Rightarrow> 'a timer_scheme \<Rightarrow> (u32 \<times> 'a timer_scheme) option" where
  "poll_drive d port s = do {
     let (res, s1) = inb d (port + 7) s;
     (ret, s2) \<leftarrow> poll_drive_loop d port res (snd (poll_wait_secs d 5 s1));
     case ret of
       Some e \<Rightarrow> Some (e, s2)
     | None \<Rightarrow> let (t, s3) = poll_wait_secs d 0 s2
               in Some (if t \<noteq> 0 then E_TIMEOUT else E_NO_ERR, s3) }"

text \<open>At most \<open>k\<close> more tries (\<open>trymax\<close> is 6).\<close>

fun poll_retry :: "device \<Rightarrow> u16 \<Rightarrow> nat \<Rightarrow> u32 \<Rightarrow> 'a timer_scheme \<Rightarrow> (u32 \<times> 'a timer_scheme) option" where
  "poll_retry d port 0 res s = Some (res, s)"
| "poll_retry d port (Suc k) res s =
     (if res = 0 then Some (res, s)
      else do { (res', s') \<leftarrow> poll_drive d port s; poll_retry d port k res' s' })"

subsection \<open>Transfers\<close>

text \<open>The 256 words of a sector, to or from the address \<open>a\<close>.\<close>

fun read_data :: "device \<Rightarrow> u16 \<Rightarrow> ptr \<Rightarrow> nat \<Rightarrow> 'a machine_scheme \<Rightarrow> 'a machine_scheme" where
  "read_data d port a 0 s = s"
| "read_data d port a (Suc n) s =
     (let (w, s1) = inw d port s
      in read_data d port (a + 2) n (s1\<lparr>mem := store16 a w (mem s1)\<rparr>))"

fun write_data :: "u16 \<Rightarrow> ptr \<Rightarrow> nat \<Rightarrow> 'a machine_scheme \<Rightarrow> 'a machine_scheme" where
  "write_data port a 0 s = s"
| "write_data port a (Suc n) s = write_data port (a + 2) n (outw port (load16 (mem s) a) s)"

text \<open>
  The registers of a 28-bit command. The four high bits of the address are taken from the sector
  count. \<open>port + 1\<close> is \<open>ERROR\<close>, \<open>+ 2\<close> to \<open>+ 7\<close> are \<open>SECTOR_COUNT\<close>, the three address bytes,
  \<open>DRIVE_HEAD\<close> and \<open>COMMAND\<close>.
\<close>

definition drive_head :: "'b ata_drive32_scheme \<Rightarrow> u32 \<Rightarrow> u8" where
  "drive_head drive sectors =
     0xE0 OR (if slave drive then 0x10 else 0) OR ucast ((drop_bit 24 sectors) AND 0xf)"

definition out_address :: "'b ata_drive32_scheme \<Rightarrow> u32 \<Rightarrow> u32 \<Rightarrow> u8 \<Rightarrow> 'a io_scheme \<Rightarrow> 'a io_scheme" where
  "out_address drive sectors start command s =
     (let p = base_port drive;
          s1 = outb (p + 1) 0 s;
          s2 = outb (p + 2) (ucast sectors) s1;
          s3 = outb (p + 3) (ucast (start AND 0x0000ff)) s2;
          s4 = outb (p + 4) (ucast (drop_bit 8 (start AND 0x00ff00))) s3;
          s5 = outb (p + 5) (ucast (drop_bit 16 (start AND 0xff0000))) s4
      in outb (p + 7) command s5)"

text \<open>The sector loop: \<open>k\<close> sectors are left; the result is False when a sector fails.\<close>

fun read_sectors :: "device \<Rightarrow> u16 \<Rightarrow> ptr \<Rightarrow> nat \<Rightarrow> 'a machine_scheme \<Rightarrow> (bool \<times> 'a machine_scheme) option" where
  "read_sectors d port a 0 s = Some (True, s)"
| "read_sectors d port a (Suc k) s = do {
     (res, s1) \<leftarrow> poll_drive d port s;
     (res', s2) \<leftarrow> poll_retry d port 6 res s1;
     if res' \<noteq> 0 then Some (False, s2)
     else read_sectors d port (a + 512) k (read_data d port a 256 s2) }"

definition ata28_read ::
    "device \<Rightarrow> ptr \<Rightarrow> 'b ata_drive32_scheme \<Rightarrow> u32 \<Rightarrow> u32 \<Rightarrow> 'a machine_scheme
      \<Rightarrow> (ptr \<times> 'a machine_scheme) option" where
  "ata28_read d buffer drive sectors start s = do {
     s1 \<leftarrow> wait_ready d (base_port drive) s;
     let s2 = out_address drive sectors start 0x20 (outb (base_port drive + 6) (drive_head drive sectors) s1);
     s3 \<leftarrow> wait_ready d (base_port drive) s2;
     (ok, s4) \<leftarrow> read_sectors d (base_port drive) buffer (unat sectors) s3;
     Some (if ok then buffer else 0, s4) }"

text \<open>\<open>ata_read\<close>: \<open>k\<close> blocks of 256 sectors are left, \<open>i\<close> are done. \<open>buffer\<close> points to 16-bit units.\<close>

fun ata_read_blocks ::
    "device \<Rightarrow> ptr \<Rightarrow> 'b ata_drive32_scheme \<Rightarrow> u32 \<Rightarrow> nat \<Rightarrow> u32 \<Rightarrow> u32 \<Rightarrow> 'a machine_scheme
      \<Rightarrow> (u32 \<times> 'a machine_scheme) option" where
  "ata_read_blocks d buffer drive start 0 i e s = Some (e, s)"
| "ata_read_blocks d buffer drive start (Suc k) i e s = do {
     let e' = e + 256 * 256;
     (_, s1) \<leftarrow> ata28_read d (buffer + 2 * e') drive 0 (start + i * 256) s;
     ata_read_blocks d buffer drive start k (i + 1) e' s1 }"

text \<open>\<open>end / 512\<close> divides a \<open>long\<close>.\<close>

definition ata_read ::
    "device \<Rightarrow> ptr \<Rightarrow> 'b ata_drive32_scheme \<Rightarrow> u32 \<Rightarrow> u32 \<Rightarrow> 'a machine_scheme
      \<Rightarrow> (ptr \<times> 'a machine_scheme) option" where
  "ata_read d buffer drive sectors start s =
     (if lba48 drive then Some (E_NOT_IMPLEMENTED, s)
      else do {
        (e, s1) \<leftarrow> ata_read_blocks d buffer drive start (unat (sectors div 256)) 0 0 s;
        (_, s2) \<leftarrow> ata28_read d (buffer + 2 * e) drive (sectors mod 256)
                     (start + word_of_int (sint e sdiv 512)) s1;
        Some (buffer, s2) })"

partial_function (option) write_wait ::
    "device \<Rightarrow> u16 \<Rightarrow> u8 \<Rightarrow> 'a timer_scheme \<Rightarrow> (bool \<times> 'a timer_scheme) option" where
  "write_wait d port stat s =
     (if stat AND 0x80 \<noteq> 0 \<and> stat AND 0x8 = 0 then
        let (stat', s1) = inb d (port + 7) s
        in if stat' AND 1 \<noteq> 0 \<or> stat' AND 0x20 \<noteq> 0 then Some (False, s1)
           else (let (t, s2) = poll_wait_secs d 0 s1
                 in if t \<noteq> 0 then Some (False, s2) else write_wait d port stat' s2)
      else Some (True, s))"

text \<open>\<open>uint16_t\<close> results: \<open>-1\<close> is 0xFFFF.\<close>

definition ata28_write ::
    "device \<Rightarrow> ptr \<Rightarrow> 'b ata_drive32_scheme \<Rightarrow> u32 \<Rightarrow> u32 \<Rightarrow> 'a machine_scheme
      \<Rightarrow> (u16 \<times> 'a machine_scheme) option" where
  "ata28_write d buffer drive sectors start s = do {
     s1 \<leftarrow> wait_ready d (base_port drive) s;
     let (stat, s2) = inb d (base_port drive + 7) s1;
     (ok, s3) \<leftarrow> write_wait d (base_port drive) stat (snd (poll_wait_secs d 5 s2));
     if \<not> ok then Some (- 1, s3)
     else do {
       let s4 = outb (base_port drive + 6) (drive_head drive sectors) s3;
       let s5 = printf ''Sector: %x, Sector count: %d'' [PInt start, PInt sectors] s4;
       s6 \<leftarrow> wait_ready d (base_port drive) (out_address drive sectors start 0x30 s5);
       Some (0, outb (base_port drive + 7) 0xe7
                  (write_data (base_port drive) buffer (256 * unat sectors) s6)) } }"

fun ata_write_blocks ::
    "device \<Rightarrow> ptr \<Rightarrow> 'b ata_drive32_scheme \<Rightarrow> u32 \<Rightarrow> nat \<Rightarrow> u32 \<Rightarrow> u32 \<Rightarrow> 'a machine_scheme
      \<Rightarrow> (u32 \<times> 'a machine_scheme) option" where
  "ata_write_blocks d buffer drive start 0 i e s = Some (e, s)"
| "ata_write_blocks d buffer drive start (Suc k) i e s = do {
     let e' = e + 256 * 256;
     (_, s1) \<leftarrow> ata28_write d (buffer + 2 * e') drive 0 (start + i * 256) s;
     ata_write_blocks d buffer drive start k (i + 1) e' s1 }"

definition ata_write ::
    "device \<Rightarrow> ptr \<Rightarrow> 'b ata_drive32_scheme \<Rightarrow> u32 \<Rightarrow> u32 \<Rightarrow> 'a machine_scheme
      \<Rightarrow> (u16 \<times> 'a machine_scheme) option" where
  "ata_write d buffer drive sectors start s =
     (if lba48 drive then Some (ucast E_NOT_IMPLEMENTED, s)
      else do {
        (e, s1) \<leftarrow> ata_write_blocks d buffer drive start (unat (sectors div 256)) 0 0 s;
        (_, s2) \<leftarrow> ata28_write d (buffer + 2 * e) drive (sectors mod 256)
                     (start + word_of_int (sint e sdiv 512)) s1;
        Some (ucast E_NO_ERR, s2) })"

subsection \<open>What polling does\<close>

text \<open>The footprint of a run: the memory, what was written to ports and the data words read. Polling
  (reading registers and the clock, printing) leaves it alone.\<close>

definition footprint :: "'a machine_scheme \<Rightarrow> mem \<times> io_event list \<times> u16 list" where
  "footprint s = (mem s, outputs (trace s), inw_words (trace s))"

lemma footprint_poll [simp]:
  "footprint (snd (inb d p s)) = footprint s"
  "footprint (printf f as s) = footprint s"
  "footprint (snd (poll_wait_secs d c s)) = footprint s"
  by (simp_all add: footprint_def in_unfold printf_def)
    (simp_all add: poll_wait_secs_def wait_secs_def Let_def)

lemma wait_ready_footprint: "wait_ready d p s = Some s' \<Longrightarrow> footprint s' = footprint s"
proof (rule wait_ready.raw_induct [where P = "\<lambda>d p s s'. footprint s' = footprint s"])
  fix wr and d :: device and p :: u16 and s s' :: "'a machine_scheme"
  assume "\<And>d p s y. wr d p s = Some y \<Longrightarrow> footprint y = footprint s"
    and "(let (st, s1) = inb d (p + 7) s in if st AND 64 = 0 then wr d p s1 else Some s1) = Some s'"
  then show "footprint s' = footprint s" by (auto simp: Let_def split_def split: if_splits)
qed

lemma poll_drive_loop_footprint:
  "poll_drive_loop d p res s = Some rs \<Longrightarrow> footprint (snd rs) = footprint s"
proof (rule poll_drive_loop.raw_induct [where P = "\<lambda>d p res s rs. footprint (snd rs) = footprint s"],
    goal_cases)
  case (1 lp d p res s rs)
  from 1(3) show ?case by (auto simp: Let_def split_def split: if_splits dest!: 1(2))
qed

lemma poll_drive_footprint: "poll_drive d p s = Some (r, s') \<Longrightarrow> footprint s' = footprint s"
  by (auto simp: poll_drive_def Let_def split_def split: Option.bind_splits option.splits
      dest!: poll_drive_loop_footprint)

lemma poll_retry_footprint: "poll_retry d p k res s = Some (r, s') \<Longrightarrow> footprint s' = footprint s"
  by (induction k arbitrary: res s)
    (auto split: if_splits Option.bind_splits dest!: poll_drive_footprint)

lemma out_address_footprint:
  "mem (out_address drv n start c s) = mem s"
  "inw_words (trace (out_address drv n start c s)) = inw_words (trace s)"
  "outputs (trace (out_address drv n start c s)) = outputs (trace s) @
     [Outb (base_port drv + 1) 0, Outb (base_port drv + 2) (ucast n),
      Outb (base_port drv + 3) (ucast (start AND 0x0000ff)),
      Outb (base_port drv + 4) (ucast (drop_bit 8 (start AND 0x00ff00))),
      Outb (base_port drv + 5) (ucast (drop_bit 16 (start AND 0xff0000))), Outb (base_port drv + 7) c]"
  by (simp_all add: out_address_def outb_def Let_def)

subsection \<open>Where a read goes\<close>

lemma take_bit_24_wrap: "take_bit 24 (start + 0x1000000 * k) = take_bit 24 (start :: u32)"
proof (rule unsigned_word_eqI)
  have "unat (start + 0x1000000 * k) = (unat start + 0x1000000 * unat k) mod 2 ^ 32"
    by (simp add: unat_word_ariths mod_simps)
  then have "unat (start + 0x1000000 * k) mod 2 ^ 24 = (unat start + 0x1000000 * unat k) mod 2 ^ 24"
    by (simp add: mod_mod_cancel)
  also have "\<dots> = unat start mod 2 ^ 24" using mod_mult_self2 [of "unat start" "2 ^ 24" "unat k"] by simp
  finally show "unat (take_bit 24 (start + 0x1000000 * k)) = unat (take_bit 24 start)"
    by (simp add: unsigned_take_bit_eq take_bit_nat_def)
qed

lemma address_bytes_wrap:
  fixes start k :: u32
  shows "(start + 0x1000000 * k) AND 0xff = start AND 0xff"
    "(start + 0x1000000 * k) AND 0xff00 = start AND 0xff00"
    "(start + 0x1000000 * k) AND 0xff0000 = start AND 0xff0000"
proof -
  have t: "(start + 0x1000000 * k) AND 0xffffff = start AND 0xffffff"
    using take_bit_24_wrap [of start k] by (simp add: take_bit_eq_mask mask_eq_exp_minus_1)
  have sub: "x AND m = (x AND 0xffffff) AND m" if "0xffffff AND m = m" for x m :: u32
    using that by (simp add: and.assoc)
  show "(start + 0x1000000 * k) AND 0xff = start AND 0xff"
    "(start + 0x1000000 * k) AND 0xff00 = start AND 0xff00"
    "(start + 0x1000000 * k) AND 0xff0000 = start AND 0xff0000"
    by (subst (1 2) sub, simp, simp add: t)+
qed

text \<open>Only the low 24 bits of a sector address reach the drive. Reading from \<open>start\<close> and from
  any address a multiple of \<open>2 ^ 24\<close> further on is the same computation, command for command: the
  drive/head register, which carries the bits 24 to 27, is filled from the sector count.\<close>

theorem ata28_read_ignores_high_address:
  "ata28_read d buffer drive sectors (start + 0x1000000 * k) s = ata28_read d buffer drive sectors start s"
  by (simp add: ata28_read_def out_address_def address_bytes_wrap)

subsection \<open>A drive that serves requests\<close>

text \<open>
  What the driver relies on during a transfer: the status register shows the drive ready with data
  requested, no fault, no error and not busy (bits 6 and 3 set, 7, 5 and 0 clear), and the seconds
  counter, from \<open>t\<close> on, advances by less than 5 and does not wrap.
\<close>

definition serving :: "u16 \<Rightarrow> u32 \<Rightarrow> device \<Rightarrow> bool" where
  "serving port t d \<longleftrightarrow> (\<forall>tr. dev_inb d tr (port + 7) AND 0xE9 = 0x48)
     \<and> (\<forall>tr. t \<le> dev_seconds d tr \<and> dev_seconds d tr \<le> t + 4) \<and> unat t + 8 < 2 ^ 32"

lemma serving_status:
  assumes "serving port t d"
  shows "dev_inb d tr (port + 7) AND 0x40 \<noteq> 0" "dev_inb d tr (port + 7) AND 0x80 = 0"
    "dev_inb d tr (port + 7) AND 1 = 0" "dev_inb d tr (port + 7) AND 0x20 = 0"
proof -
  let ?st = "dev_inb d tr (port + 7)"
  have st: "?st AND 0xE9 = 0x48" using assms by (simp add: serving_def)
  have sub: "?st AND m = 0x48 AND m" if "0xE9 AND m = m" for m
    using that by (simp flip: st add: and.assoc)
  show "?st AND 0x40 \<noteq> 0" "?st AND 0x80 = 0" "?st AND 1 = 0" "?st AND 0x20 = 0"
    by (simp_all add: sub)
qed

lemma wait_ready_serving:
  assumes "serving port t d"
  shows "wait_ready d port s = Some (snd (inb d (port + 7) s))"
  using serving_status(1) [OF assms] by (subst wait_ready.simps) (simp add: in_unfold)

lemma serving_clock:
  assumes "serving port t d"
  shows "\<not> dev_seconds d tr > dev_seconds d tr' + 5 - 1"
proof -
  have s: "t \<le> dev_seconds d tr" "dev_seconds d tr \<le> t + 4" "t \<le> dev_seconds d tr'"
    "dev_seconds d tr' \<le> t + 4" and t: "unat t + 8 < 2 ^ 32" using assms by (auto simp: serving_def)
  have four: "unat (t + 4) = unat t + 4" using t by (simp add: unat_add_u32)
  have "unat (dev_seconds d tr' + 4) = unat (dev_seconds d tr') + 4"
    using s(4) t four by (simp add: unat_add_u32 word_le_nat_alt)
  then have "dev_seconds d tr \<le> dev_seconds d tr' + 4"
    using s four by (simp add: word_le_nat_alt)
  then show ?thesis by (simp add: not_less add.commute)
qed

lemma poll_drive_serving:
  assumes "serving port t d"
  shows "\<exists>s'. poll_drive d port s = Some (0, s') \<and> footprint s' = footprint s"
proof -
  let ?s1 = "snd (inb d (port + 7) s)" and ?res = "dev_inb d (trace s) (port + 7)"
  let ?s2 = "snd (poll_wait_secs d 5 ?s1)"
  have loop: "poll_drive_loop d port ?res ?s2 = Some (None, ?s2)"
    using serving_status [OF assms, of "trace s"] by (subst poll_drive_loop.simps) simp
  have "fst (poll_wait_secs d 0 ?s2) = 0"
    using serving_clock [OF assms] by (simp add: poll_wait_secs_def wait_secs_def Let_def)
  then obtain s3 where "poll_wait_secs d 0 ?s2 = (0, s3)" by (cases "poll_wait_secs d 0 ?s2") auto
  then have res: "poll_drive d port s = Some (0, s3)"
    using loop by (simp add: poll_drive_def in_unfold E_NO_ERR_def)
  then show ?thesis using poll_drive_footprint [OF res] by blast
qed

lemma poll_retry_done: "poll_retry d port k 0 s = Some (0, s)"
  by (cases k) auto

subsection \<open>Transfers\<close>

text \<open>From \<open>s\<close> to \<open>s'\<close> the words \<open>ws\<close> were read from the data register and stored from \<open>a\<close> on; nothing
  else was written, to memory or to a port.\<close>

definition fetched :: "ptr \<Rightarrow> u16 list \<Rightarrow> 'a machine_scheme \<Rightarrow> 'a machine_scheme \<Rightarrow> bool" where
  "fetched a ws s s' \<longleftrightarrow> outputs (trace s') = outputs (trace s)
     \<and> inw_words (trace s') = inw_words (trace s) @ ws \<and> load_halves (mem s') a (length ws) = ws
     \<and> (\<forall>x. \<not> in_region a (2 * length ws) x \<longrightarrow> mem s' x = mem s x)"

lemma fetched_Nil: "footprint s' = footprint s \<Longrightarrow> fetched a [] s s'"
  by (simp add: fetched_def footprint_def)

lemma fetched_append:
  assumes "fetched a ws s t" and "fetched (a + 2 * of_nat (length ws)) vs t u"
    and len: "2 * (length ws + length vs) \<le> 2 ^ 32"
  shows "fetched a (ws @ vs) s u"
proof -
  let ?b = "a + of_nat (2 * length ws)"
  have b: "a + 2 * of_nat (length ws) = ?b" by simp
  note f = assms(1,2) [unfolded b fetched_def]
  have "apart a (2 * length ws) ?b (2 * length vs)" by (rule apart_adjacent) (use len in simp)
  then have "load_halves (mem u) a (length ws) = load_halves (mem t) a (length ws)"
    using f len by (intro load_halves_cong) (auto simp: apart_iff)
  moreover have "mem u x = mem s x" if "\<not> in_region a (2 * length (ws @ vs)) x" for x
  proof -
    have "\<not> in_region a (2 * length ws) x"
      using that in_region_mono [of a "2 * length ws" x "2 * length (ws @ vs)"] by auto
    moreover have "\<not> in_region ?b (2 * length vs) x"
      using that in_subregion [of a "2 * length ws" "2 * length vs" x "2 * length (ws @ vs)"] len by auto
    ultimately show ?thesis using f by simp
  qed
  ultimately show ?thesis
    using f by (simp add: fetched_def load_halves_append)
qed

lemma fetched_footprint:
  "footprint t = footprint s \<Longrightarrow> fetched a ws t u \<Longrightarrow> fetched a ws s u"
  by (simp add: fetched_def footprint_def)

lemma read_data_fetched:
  "2 * n \<le> 2 ^ 32 \<Longrightarrow> \<exists>ws. length ws = n \<and> fetched a ws s (read_data d port a n s)"
proof (induction n arbitrary: a s)
  case 0
  then show ?case by (simp add: fetched_Nil)
next
  case (Suc n)
  let ?w = "dev_inw d (trace s) port"
  let ?s1 = "snd (inw d port s)\<lparr>mem := store16 a ?w (mem s)\<rparr>"
  have eq: "read_data d port a (Suc n) s = read_data d port (a + 2) n ?s1"
    by (simp add: in_unfold)
  have one: "fetched a [?w] s ?s1"
    by (simp add: fetched_def in_unfold store16_outside)
  from Suc obtain ws where ws: "length ws = n" "fetched (a + 2) ws ?s1 (read_data d port (a + 2) n ?s1)"
    by (meson Suc_leD mult_le_mono2 order_trans le_SucI le_refl)
  have "fetched a ([?w] @ ws) s (read_data d port a (Suc n) s)"
    using Suc.prems ws eq by (intro fetched_append [OF one]) auto
  then show ?case using ws(1) by (intro exI [of _ "[?w] @ ws"]) simp
qed

lemma read_sectors_serving:
  assumes "serving port t d"
  shows "512 * k \<le> 2 ^ 32 \<Longrightarrow> \<exists>ws s'. read_sectors d port a k s = Some (True, s')
    \<and> length ws = 256 * k \<and> fetched a ws s s'"
proof (induction k arbitrary: a s)
  case 0
  then show ?case by (simp add: fetched_Nil)
next
  case (Suc k)
  obtain s1 where s1: "poll_drive d port s = Some (0, s1)" "footprint s1 = footprint s"
    using poll_drive_serving [OF assms] by blast
  let ?s2 = "read_data d port a 256 s1"
  obtain ws where ws: "length ws = 256" "fetched a ws s1 ?s2"
    using read_data_fetched [of 256 a s1 d port] by auto
  obtain vs s' where vs: "read_sectors d port (a + 512) k ?s2 = Some (True, s')"
    "length vs = 256 * k" "fetched (a + 512) vs ?s2 s'"
    using Suc.IH [of "a + 512" ?s2] Suc.prems by auto
  have "fetched a (ws @ vs) s s'"
    using Suc.prems vs ws by (intro fetched_append [OF fetched_footprint [OF s1(2) ws(2)]]) auto
  then show ?case
    using s1(1) vs(1,2) ws(1) by (intro exI [of _ "ws @ vs"] exI [of _ s']) (simp add: poll_retry_done)
qed

text \<open>The commands of a transfer: select, parameters, address, command.\<close>

definition transfer_command :: "'b ata_drive32_scheme \<Rightarrow> u32 \<Rightarrow> u32 \<Rightarrow> u8 \<Rightarrow> io_event list" where
  "transfer_command drive n start c = (let p = base_port drive in
     [Outb (p + 6) (drive_head drive n), Outb (p + 1) 0, Outb (p + 2) (ucast n),
      Outb (p + 3) (ucast (start AND 0x0000ff)), Outb (p + 4) (ucast (drop_bit 8 (start AND 0x00ff00))),
      Outb (p + 5) (ucast (drop_bit 16 (start AND 0xff0000))), Outb (p + 7) c])"

lemma ata28_read_serving:
  assumes "serving (base_port drive) t d" and "512 * unat sectors \<le> 2 ^ 32"
  shows "\<exists>s' ws. ata28_read d buffer drive sectors start s = Some (buffer, s')
    \<and> outputs (trace s') = outputs (trace s) @ transfer_command drive sectors start 0x20
    \<and> length ws = 256 * unat sectors \<and> inw_words (trace s') = inw_words (trace s) @ ws
    \<and> load_halves (mem s') buffer (length ws) = ws
    \<and> (\<forall>x. \<not> in_region buffer (512 * unat sectors) x \<longrightarrow> mem s' x = mem s x)"
proof -
  let ?p = "base_port drive"
  let ?s1 = "snd (inb d (?p + 7) s)"
  let ?s2 = "out_address drive sectors start 0x20 (outb (?p + 6) (drive_head drive sectors) ?s1)"
  let ?s3 = "snd (inb d (?p + 7) ?s2)"
  obtain ws s' where ws: "read_sectors d ?p buffer (unat sectors) ?s3 = Some (True, s')"
    "length ws = 256 * unat sectors" "fetched buffer ws ?s3 s'"
    using read_sectors_serving [OF assms(1,2)] by blast
  have "ata28_read d buffer drive sectors start s = Some (buffer, s')"
    using ws(1) by (simp add: ata28_read_def wait_ready_serving [OF assms(1)])
  moreover have "outputs (trace ?s3) = outputs (trace s) @ transfer_command drive sectors start 0x20"
    "inw_words (trace ?s3) = inw_words (trace s)" "mem ?s3 = mem s"
    by (simp_all add: in_unfold out_address_footprint transfer_command_def Let_def) (simp_all add: outb_def)
  ultimately show ?thesis
    using ws(2,3) unfolding fetched_def by (intro exI [of _ s'] exI [of _ ws]) (auto simp: mult.assoc)
qed


lemma write_data_outputs:
  "outputs (trace (write_data p a n s)) = outputs (trace s) @ map (Outw p) (load_halves (mem s) a n)
   \<and> mem (write_data p a n s) = mem s"
  by (induction n arbitrary: a s) (auto simp: outw_def)

text \<open>Claim C32: with a drive that serves requests, \<open>ata28_write\<close> returns 0 and sends, after one write
  command, the words of the buffer in order, 256 for each sector, then the command to flush the
  drive's cache; memory is left alone.\<close>

theorem ata28_write_transfers:
  assumes "serving (base_port drive) t d"
  shows "\<exists>s'. ata28_write d buffer drive sectors start s = Some (0, s') \<and> mem s' = mem s
    \<and> outputs (trace s') = outputs (trace s) @ transfer_command drive sectors start 0x30
      @ map (Outw (base_port drive)) (load_halves (mem s) buffer (256 * unat sectors))
      @ [Outb (base_port drive + 7) 0xe7]"
proof -
  let ?p = "base_port drive"
  let ?s1 = "snd (inb d (?p + 7) s)"
  obtain stat s2 where s2: "inb d (?p + 7) ?s1 = (stat, s2)" by fastforce
  then have stat: "stat = dev_inb d (trace ?s1) (?p + 7)" "s2 = snd (inb d (?p + 7) ?s1)"
    by (auto simp: in_unfold)
  let ?s3 = "snd (poll_wait_secs d 5 s2)"
  let ?s5 = "printf ''Sector: %x, Sector count: %d'' [PInt start, PInt sectors]
    (outb (?p + 6) (drive_head drive sectors) ?s3)"
  let ?s6 = "snd (inb d (?p + 7) (out_address drive sectors start 0x30 ?s5))"
  let ?w = "write_data ?p buffer (256 * unat sectors) ?s6"
  have wait: "write_wait d ?p stat ?s3 = Some (True, ?s3)"
    using serving_status(2) [OF assms, of "trace ?s1"] by (subst write_wait.simps) (simp add: stat(1))
  then have res: "ata28_write d buffer drive sectors start s = Some (0, outb (?p + 7) 0xe7 ?w)"
    by (simp add: ata28_write_def wait_ready_serving [OF assms] s2 Let_def)
  have s3: "footprint ?s3 = footprint s" by (simp add: stat(2))
  have "outputs (trace ?s6) = outputs (trace s) @ transfer_command drive sectors start 0x30" "mem ?s6 = mem s"
    using s3 by (simp_all add: footprint_def out_address_footprint transfer_command_def Let_def in_unfold)
      (simp_all add: outb_def printf_def)
  then show ?thesis
    using res write_data_outputs [of ?p buffer "256 * unat sectors" ?s6]
    by (intro exI [of _ "outb (?p + 7) 0xe7 ?w"]) (simp add: outb_def)
qed

subsection \<open>Requests of 256 sectors and more\<close>

lemma ata28_read_none:
  assumes "ata28_read d buffer drive 0 start s = Some (r, s')"
  shows "mem s' = mem s \<and> inw_words (trace s') = inw_words (trace s)"
proof -
  obtain s1 s2 where w: "wait_ready d (base_port drive) s = Some s1"
    "wait_ready d (base_port drive)
      (out_address drive 0 start 0x20 (outb (base_port drive + 6) (drive_head drive 0) s1)) = Some s2"
    "s' = s2"
    using assms by (auto simp: ata28_read_def split: Option.bind_splits)
  show ?thesis
    using wait_ready_footprint [OF w(1)] wait_ready_footprint [OF w(2)] w(3)
    by (simp add: footprint_def out_address_footprint) (simp add: outb_def)
qed

lemma ata_read_blocks_none:
  "ata_read_blocks d buffer drive start k i e s = Some (e', s') \<Longrightarrow>
   e' = e + 65536 * of_nat k \<and> mem s' = mem s \<and> inw_words (trace s') = inw_words (trace s)"
proof (induction k arbitrary: i e s)
  case (Suc k)
  obtain r s1 where one: "ata28_read d (buffer + 2 * (e + 65536)) drive 0 (start + i * 256) s = Some (r, s1)"
    "ata_read_blocks d buffer drive start k (i + 1) (e + 65536) s1 = Some (e', s')"
    using Suc.prems by (auto simp: Let_def split: Option.bind_splits)
  show ?case
    using ata28_read_none [OF one(1)] Suc.IH [OF one(2)] by (simp add: algebra_simps)
qed simp


end
