(* ===== verification/Serial.thy ===== *)
theory Serial
  imports Machine Strings
begin

text \<open>
  \<open>kernel/drivers/serial.c\<close>: the serial ports, their listeners, and the console output on top of
  them, \<open>kprintf\<close> included. A listener is a function pointer; \<open>call\<close> says what calling one does. The
  arguments after the format are the list of the words \<open>va_arg\<close> yields; asking for one more than
  there are is \<open>None\<close>.
\<close>

section \<open>The code\<close>

subsection \<open>Ports and listeners\<close>

record com_desc =
  listeners :: "int \<Rightarrow> ptr"
  listener_data_buffer :: "int \<Rightarrow> int \<Rightarrow> u8"
  listner_data_index :: "int \<Rightarrow> u32"
  listner_keys :: "int \<Rightarrow> u32"
  virtual :: bool

record serial = machine +
  com :: "int \<Rightarrow> u16"
  com_descs :: "int \<Rightarrow> com_desc"
  buffer_index :: u32
  padding :: u32
  auto_send_return :: u8

definition set_com :: "int \<Rightarrow> (com_desc \<Rightarrow> com_desc) \<Rightarrow> 'a serial_scheme \<Rightarrow> 'a serial_scheme" where
  "set_com i f s = s\<lparr>com_descs := (com_descs s)(i := f (com_descs s i))\<rparr>"

text \<open>One round of the loop of \<open>serial_init\<close>; the BIOS data area lies at 0x400.\<close>

definition serial_init_port :: "device \<Rightarrow> int \<Rightarrow> u32 \<times> 'a serial_scheme \<Rightarrow> u32 \<times> 'a serial_scheme" where
  "serial_init_port d i fs =
     (let (failed_ports, s) = fs;
          port = load16 (mem s) (0x400 + 2 * word_of_int i);
          s1 = fold (\<lambda>(offset, byte). outb (port + offset) byte)
            [(1, 0), (3, 0x80), (0, 3), (1, 0), (3, 3), (2, 0xC7), (4, 0xb), (4, 0x1e), (0, 0x41)]
            (s\<lparr>com := (com s)(i := port)\<rparr>);
          s2 = set_com i (\<lambda>c. c\<lparr>virtual := False,
                 listeners := (\<lambda>j. if 0 \<le> j \<and> j < 4 then 0 else listeners c j)\<rparr>) s1;
          (byte, s3) = inb d port s2
      in if byte \<noteq> 0x41
         then (failed_ports OR push_bit (nat i) 1, set_com i (\<lambda>c. c\<lparr>virtual := True\<rparr>) s3)
         else (failed_ports, outb (port + 4) 0xe s3))"

definition serial_init :: "device \<Rightarrow> 'a serial_scheme \<Rightarrow> u8 \<times> 'a serial_scheme" where
  "serial_init d s =
     (let (failed_ports, s') = fold (serial_init_port d) [0, 1, 2, 3] (0, s) in (ucast failed_ports, s'))"

text \<open>The calls of the listeners of a port, \<open>k\<close> of them from \<open>i\<close> on. What a listener returns is put
  into its buffer at its index, which nothing moves.\<close>

fun call_listeners ::
    "(ptr \<Rightarrow> u8 \<Rightarrow> 'a serial_scheme \<Rightarrow> u8 \<times> 'a serial_scheme) \<Rightarrow> int \<Rightarrow> u8 \<Rightarrow> int \<Rightarrow> nat
      \<Rightarrow> 'a serial_scheme \<Rightarrow> 'a serial_scheme" where
  "call_listeners call port c i 0 s = s"
| "call_listeners call port c i (Suc k) s =
     (let l = listeners (com_descs s port) i
      in if l = 0 then call_listeners call port c (i + 1) k s
         else
           let (v, s1) = call l c s
           in call_listeners call port c (i + 1) k
                (set_com port (\<lambda>d. d\<lparr>listener_data_buffer := (listener_data_buffer d)
                   (i := (listener_data_buffer d i)(sint (listner_data_index d i) := v))\<rparr>) s1))"

definition serial_write ::
    "(ptr \<Rightarrow> u8 \<Rightarrow> 'a serial_scheme \<Rightarrow> u8 \<times> 'a serial_scheme) \<Rightarrow> int \<Rightarrow> u8
      \<Rightarrow> 'a serial_scheme \<Rightarrow> 'a serial_scheme" where
  "serial_write call port c s =
     (let s1 = call_listeners call port c 0 4 s
      in if \<not> virtual (com_descs s1 port) then outb (com s1 port) c s1 else s1)"

definition serial_read :: "device \<Rightarrow> int \<Rightarrow> 'a serial_scheme \<Rightarrow> u8 \<times> 'a serial_scheme" where
  "serial_read d port s =
     (if \<not> virtual (com_descs s port) then inb d (com s port) s else (0, s))"

text \<open>\<open>port\<close> is not looked at: \<open>ports.com_desc->\<close> is the first port. Without a free slot the index
  stays 0.\<close>

definition register_serial_listener ::
    "ptr \<Rightarrow> int \<Rightarrow> u32 \<Rightarrow> 'a serial_scheme \<Rightarrow> (u32 \<times> 'a serial_scheme) option" where
  "register_serial_listener listener port p s =
     (let index = (case first_slot (listeners (com_descs s 0)) 0 4 of Some i \<Rightarrow> i | None \<Rightarrow> 0)
      in do {
        (key, s1) \<leftarrow> gen_driver_key (ucast p) listener s;
        let s2 = set_com 0 (\<lambda>c. c\<lparr>listner_keys := (listner_keys c)(index := key),
                   listeners := (listeners c)(index := listener),
                   listner_data_index := (listner_data_index c)(index := 0)\<rparr>) s1;
        Some (listner_keys (com_descs s2 0) index, s2) })"

text \<open>The last slot with the key; \<open>index0\<close> is what the uninitialised \<open>index\<close> holds.\<close>

fun last_key_slot :: "(int \<Rightarrow> u32) \<Rightarrow> u32 \<Rightarrow> int \<Rightarrow> nat \<Rightarrow> int \<Rightarrow> int" where
  "last_key_slot keys key i 0 index = index"
| "last_key_slot keys key i (Suc k) index =
     last_key_slot keys key (i + 1) k (if keys i = key then i else index)"

definition deregister_serial_listener ::
    "int \<Rightarrow> int \<Rightarrow> u32 \<Rightarrow> 'a serial_scheme \<Rightarrow> 'a serial_scheme" where
  "deregister_serial_listener index0 port key s =
     (let index = last_key_slot (listner_keys (com_descs s 0)) key 0 4 index0
      in set_com 0 (\<lambda>c. c\<lparr>listeners := (listeners c)(index := 0),
           listner_data_index := (listner_data_index c)(index := 0),
           listner_keys := (listner_keys c)(index := 0)\<rparr>) s)"

subsection \<open>Console output\<close>

definition toggle_auto_return :: "'a serial_scheme \<Rightarrow> 'a serial_scheme" where
  "toggle_auto_return s = s\<lparr>auto_send_return := (if auto_send_return s = 0 then 1 else 0)\<rparr>"

definition clear_screen :: "'a serial_scheme \<Rightarrow> 'a serial_scheme" where
  "clear_screen s = s\<lparr>buffer_index := 0\<rparr>"

definition kputc ::
    "(ptr \<Rightarrow> u8 \<Rightarrow> 'a serial_scheme \<Rightarrow> u8 \<times> 'a serial_scheme) \<Rightarrow> u8 \<Rightarrow> 'a serial_scheme \<Rightarrow> 'a serial_scheme" where
  "kputc call c s =
     (let s1 = serial_write call 0 c s;
          s2 = (if c = 8 then serial_write call 0 8 (serial_write call 0 32 s1) else s1)
      in if c = 10 \<and> auto_send_return s2 \<noteq> 0 then serial_write call 0 13 s2 else s2)"

partial_function (option) kputs ::
    "(ptr \<Rightarrow> u8 \<Rightarrow> 'a serial_scheme \<Rightarrow> u8 \<times> 'a serial_scheme) \<Rightarrow> ptr \<Rightarrow> 'a serial_scheme
      \<Rightarrow> 'a serial_scheme option" where
  "kputs call a s = (if mem s a \<noteq> 0 then kputs call (a + 1) (kputc call (mem s a) s) else Some s)"

text \<open>A number in a base, by \<open>ltostr\<close>: \<open>kputd\<close>, \<open>kputx\<close> and \<open>kputb\<close> differ in the base only.\<close>

definition kputn ::
    "(ptr \<Rightarrow> u8 \<Rightarrow> 'a serial_scheme \<Rightarrow> u8 \<times> 'a serial_scheme) \<Rightarrow> statics \<Rightarrow> u32 \<Rightarrow> u32 \<Rightarrow> u32
      \<Rightarrow> 'a serial_scheme \<Rightarrow> 'a serial_scheme option" where
  "kputn call L base pad num s = do {
     (p, m) \<leftarrow> ltostr L num base pad (mem s);
     kputs call p (s\<lparr>mem := m\<rparr>) }"

definition kputd ::
    "(ptr \<Rightarrow> u8 \<Rightarrow> 'a serial_scheme \<Rightarrow> u8 \<times> 'a serial_scheme) \<Rightarrow> statics \<Rightarrow> u32
      \<Rightarrow> 'a serial_scheme \<Rightarrow> 'a serial_scheme option" where
  "kputd call L num s = kputn call L 10 (padding s) (if sint num < 0 then - num else num) s"

definition kputx ::
    "(ptr \<Rightarrow> u8 \<Rightarrow> 'a serial_scheme \<Rightarrow> u8 \<times> 'a serial_scheme) \<Rightarrow> statics \<Rightarrow> u32
      \<Rightarrow> 'a serial_scheme \<Rightarrow> 'a serial_scheme option" where
  "kputx call L num s = kputn call L 16 (padding s) num s"

definition kputb ::
    "(ptr \<Rightarrow> u8 \<Rightarrow> 'a serial_scheme \<Rightarrow> u8 \<times> 'a serial_scheme) \<Rightarrow> statics \<Rightarrow> u32
      \<Rightarrow> 'a serial_scheme \<Rightarrow> 'a serial_scheme option" where
  "kputb call L num s = kputn call L 2 (padding s) num s"

text \<open>The inner loop of \<open>kprintf\<close>: the characters up to the next percent sign, whose address is the
  result, or to the end of the format, where the function returns.\<close>

partial_function (option) kprintf_plain ::
    "(ptr \<Rightarrow> u8 \<Rightarrow> 'a serial_scheme \<Rightarrow> u8 \<times> 'a serial_scheme) \<Rightarrow> ptr \<Rightarrow> 'a serial_scheme
      \<Rightarrow> (ptr option \<times> 'a serial_scheme) option" where
  "kprintf_plain call fmt s =
     (if mem s fmt \<noteq> 37 then
        if mem s fmt = 0 then Some (None, s)
        else kprintf_plain call (fmt + 1) (kputc call (mem s fmt) s)
      else Some (Some fmt, s))"

text \<open>One conversion; the result has the arguments left.\<close>

definition kprintf_conv ::
    "(ptr \<Rightarrow> u8 \<Rightarrow> 'a serial_scheme \<Rightarrow> u8 \<times> 'a serial_scheme) \<Rightarrow> statics \<Rightarrow> u8 \<Rightarrow> u32 list
      \<Rightarrow> 'a serial_scheme \<Rightarrow> (u32 list \<times> 'a serial_scheme) option" where
  "kprintf_conv call L c args s =
     (if c \<in> {99, 100, 120, 111, 115} then
        (case args of [] \<Rightarrow> None
         | i # args' \<Rightarrow> do {
             s' \<leftarrow> (if c = 99 then Some (kputc call (ucast i) s)
                   else if c = 100 then
                     if sint i < 0 then kputd call L (- i) (kputc call 45 s) else kputd call L i s
                   else if c = 120 then kputx call L i s
                   else if c = 111 then kputn call L 8 0 i s
                   else kputs call i s);
             Some (args', s') })
      else Some (args, s))"

partial_function (option) kprintf ::
    "(ptr \<Rightarrow> u8 \<Rightarrow> 'a serial_scheme \<Rightarrow> u8 \<times> 'a serial_scheme) \<Rightarrow> statics \<Rightarrow> ptr \<Rightarrow> u32 list
      \<Rightarrow> 'a serial_scheme \<Rightarrow> 'a serial_scheme option" where
  "kprintf call L fmt args s =
     (if mem s fmt \<noteq> 0 then do {
        (p, s1) \<leftarrow> kprintf_plain call fmt s;
        case p of
          None \<Rightarrow> Some s1
        | Some f \<Rightarrow> do {
            (args', s2) \<leftarrow> kprintf_conv call L (mem s1 (f + 1)) args s1;
            kprintf call L (f + 2) args' s2 } }
      else Some s)"

section \<open>Properties\<close>

subsection \<open>A port without listeners\<close>

definition quiet :: "'a serial_scheme \<Rightarrow> bool" where
  "quiet s \<longleftrightarrow> (\<forall>i \<in> {0..3}. listeners (com_descs s 0) i = 0) \<and> \<not> virtual (com_descs s 0)"

text \<open>\<open>s\<close> with the bytes \<open>bs\<close> sent to the first port and the memory \<open>m\<close>.\<close>

definition printed :: "'a serial_scheme \<Rightarrow> u8 list \<Rightarrow> mem \<Rightarrow> 'a serial_scheme" where
  "printed s bs m = s\<lparr>mem := m, trace := rev (map (Outb (com s 0)) bs) @ trace s\<rparr>"

lemma printed_sel [simp]:
  "mem (printed s bs m) = m" "quiet (printed s bs m) = quiet s" "com (printed s bs m) = com s"
  "auto_send_return (printed s bs m) = auto_send_return s" "padding (printed s bs m) = padding s"
  by (simp_all add: printed_def quiet_def)

lemma printed_printed [simp]: "printed (printed s bs m) bs' m' = printed s (bs @ bs') m'"
  by (simp add: printed_def)

lemma printed_mem [simp]: "(printed s bs m)\<lparr>mem := m'\<rparr> = printed s bs m'" "printed s [] (mem s) = s"
  by (simp_all add: printed_def)

lemma outputs_printed:
  "outputs (trace (printed s bs m)) = outputs (trace s) @ map (Outb (com s 0)) bs"
proof -
  have "outputs (rev (map (Outb p) bs)) = map (Outb p) bs" for p
    by (induction bs) simp_all
  then show ?thesis by (simp add: printed_def)
qed

lemma serial_write_quiet: "quiet s \<Longrightarrow> serial_write call 0 c s = printed s [c] (mem s)"
  by (simp add: serial_write_def quiet_def eval_nat_numeral printed_def outb_def)

text \<open>What a character becomes on its way out.\<close>

definition sent :: "u8 \<Rightarrow> u8 \<Rightarrow> u8 list" where
  "sent auto c = (if c = 8 then [8, 32, 8] else if c = 10 \<and> auto \<noteq> 0 then [10, 13] else [c])"

lemma kputc_quiet: "quiet s \<Longrightarrow> kputc call c s = printed s (sent (auto_send_return s) c) (mem s)"
  by (simp add: kputc_def serial_write_quiet sent_def Let_def)

lemma kputs_quiet:
  "cstr_at m a cs \<Longrightarrow> quiet s \<Longrightarrow> kputs call a (printed s bs m) =
    Some (printed s (bs @ concat (map (sent (auto_send_return s)) cs)) m)"
proof (induction cs arbitrary: a bs)
  case Nil
  then show ?case by (subst kputs.simps) simp
next
  case (Cons c cs)
  then show ?case by (subst kputs.simps) (simp add: cstr_at_Cons kputc_quiet)
qed

text \<open>The one part of memory the output changes is the buffer of \<open>ltostr\<close>.\<close>

definition same_but_buffer :: "statics \<Rightarrow> mem \<Rightarrow> mem \<Rightarrow> bool" where
  "same_but_buffer L m m' \<longleftrightarrow> (\<forall>x. \<not> in_region (ltostr_buffer L) 50 x \<longrightarrow> m' x = m x)"

definition string_at :: "statics \<Rightarrow> mem \<Rightarrow> ptr \<Rightarrow> u8 list \<Rightarrow> bool" where
  "string_at L m a cs \<longleftrightarrow> cstr_at m a cs \<and> apart a (Suc (length cs)) (ltostr_buffer L) 50"

lemma same_but_buffer_refl [simp]: "same_but_buffer L m m"
  by (simp add: same_but_buffer_def)

lemma same_but_buffer_trans: "same_but_buffer L m m1 \<Longrightarrow> same_but_buffer L m1 m2 \<Longrightarrow> same_but_buffer L m m2"
  by (simp add: same_but_buffer_def)

lemma string_at_same: "same_but_buffer L m m' \<Longrightarrow> string_at L m a cs \<Longrightarrow> string_at L m' a cs"
  unfolding string_at_def
  by (subst cstr_at_cong [where m = m]) (auto simp: same_but_buffer_def dest: apartD cstr_at_short)

lemma string_at_tail:
  assumes "string_at L m a (c # cs)"
  shows "m a = c" "c \<noteq> 0" "string_at L m (a + 1) cs"
proof -
  have cs: "cstr_at m a (c # cs)" using assms by (simp add: string_at_def)
  then show "m a = c" "c \<noteq> 0" by (simp_all add: cstr_at_Cons)
  have "apart (a + of_nat 1) (Suc (length cs)) (ltostr_buffer L) 50"
    by (rule apart_sub_left [where n = "Suc (length (c # cs))"])
      (use assms cstr_at_short [OF cs] in \<open>simp_all add: string_at_def\<close>)
  then show "string_at L m (a + 1) cs" using cs by (simp add: string_at_def cstr_at_Cons)
qed

lemma statics_ok_same: "same_but_buffer L m m' \<Longrightarrow> statics_ok L m \<Longrightarrow> statics_ok L m'"
  unfolding statics_ok_def
  by (subst bytes_at_cong [where m = m]) (auto simp: same_but_buffer_def dest: apartD)

definition digits :: "nat \<Rightarrow> u32 \<Rightarrow> u32 \<Rightarrow> u8 list" where
  "digits base pad n = map digit_char (ltostr_out base (unat n) (nat (sint pad)))"

lemma length_digits:
  fixes base :: u32
  assumes "base \<in> {8, 10, 16}" and "sint pad \<le> 49"
  shows "length (digits (unat base) pad n) \<le> 49"
proof -
  have "(8 :: nat) ^ 49 \<le> unat base ^ 49" using assms(1) by (intro power_mono) auto
  moreover have "unat n < 8 ^ 49" by (rule order_less_le_trans [OF unat_lt_u32]) simp
  ultimately have "unat n < unat base ^ 49" by linarith
  then show ?thesis unfolding digits_def length_map by (intro ltostr_out_length) (use assms in auto)
qed

text \<open>What \<open>ltostr\<close> leaves in its buffer.\<close>

lemma ltostr_digits_at:
  assumes L: "statics_ok L m" and base: "base \<in> {8, 10, 16}" and pad: "sint pad \<le> 49"
  obtains i m' where "ltostr L n base pad m = Some (ltostr_buffer L + of_nat i, m')"
    "i + Suc (length (digits (unat base) pad n)) = 50"
    "cstr_at m' (ltostr_buffer L + of_nat i) (digits (unat base) pad n)" "same_but_buffer L m m'"
proof -
  let ?out = "ltostr_out (unat base) (unat n) (nat (sint pad))"
  have l: "length ?out \<le> 49" using length_digits [OF base pad, of n] by (simp add: digits_def)
  have p: "ltostr_buffer L + 49 - of_nat (length ?out) = ltostr_buffer L + of_nat (49 - length ?out)" using l by simp
  show thesis
    by (rule exE [OF ltostr_cstr [OF L, of base ?out n pad, unfolded p]])
      (use base l in \<open>auto simp: digits_def same_but_buffer_def intro!: that [of "49 - length ?out"]\<close>)
qed

lemma kputn_quiet:
  assumes "quiet s" and "statics_ok L m" and "base \<in> {8, 10, 16}" and "sint pad \<le> 49"
  shows "\<exists>m'. kputn call L base pad n (printed s bs m) =
      Some (printed s (bs @ concat (map (sent (auto_send_return s)) (digits (unat base) pad n))) m')
    \<and> same_but_buffer L m m'"
proof -
  obtain i m' where "ltostr L n base pad m = Some (ltostr_buffer L + of_nat i, m')"
    "cstr_at m' (ltostr_buffer L + of_nat i) (digits (unat base) pad n)" "same_but_buffer L m m'"
    by (rule ltostr_digits_at [OF assms(2-4), of n]) (rule that)
  then show ?thesis using assms(1) by (auto simp: kputn_def kputs_quiet)
qed

subsection \<open>What a format stands for\<close>

datatype farg = FNum u32 | FStr "u8 list"

fun rendered_arg :: "u32 \<Rightarrow> u8 \<Rightarrow> farg \<Rightarrow> u8 list option" where
  "rendered_arg pad c (FNum n) =
     (if c = 99 then Some [ucast n]
      else if c = 100 then Some (if sint n < 0 then 45 # digits 10 pad (- n) else digits 10 pad n)
      else if c = 120 then Some (digits 16 pad n)
      else if c = 111 then Some (digits 8 0 n)
      else None)"
| "rendered_arg pad c (FStr cs) = (if c = 115 then Some cs else None)"

text \<open>The text a format and its arguments give; \<open>None\<close> when an argument is missing or of the wrong
  kind, or when the format ends with a percent sign.\<close>

fun rendered :: "u32 \<Rightarrow> u8 list \<Rightarrow> farg list \<Rightarrow> u8 list option" where
  "rendered pad [] args = Some []"
| "rendered pad [c] args = (if c = 37 then None else Some [c])"
| "rendered pad (c # d # cs) args =
     (if c \<noteq> 37 then map_option ((#) c) (rendered pad (d # cs) args)
      else if d \<in> {99, 100, 120, 111, 115} then
        (case args of [] \<Rightarrow> None
         | a # as \<Rightarrow> (case rendered_arg pad d a of None \<Rightarrow> None
             | Some out \<Rightarrow> map_option ((@) out) (rendered pad cs as)))
      else rendered pad cs args)"

fun arg_at :: "statics \<Rightarrow> mem \<Rightarrow> farg \<Rightarrow> u32 \<Rightarrow> bool" where
  "arg_at L m (FNum n) v \<longleftrightarrow> v = n"
| "arg_at L m (FStr cs) v \<longleftrightarrow> string_at L m v cs"

lemma arg_at_same: "same_but_buffer L m m' \<Longrightarrow> arg_at L m a v \<Longrightarrow> arg_at L m' a v"
  by (cases a) (auto intro: string_at_same)

subsection \<open>The format loop\<close>

text \<open>The two nested loops of \<open>kprintf\<close>, one character at a time.\<close>

lemma kprintf_char:
  assumes "mem s f = c" and "c \<noteq> 37" and "c \<noteq> 0"
  shows "kprintf call L f args s = kprintf call L (f + 1) args (kputc call c s)"
proof (cases "mem (kputc call c s) (f + 1) = 0")
  case True
  have "kprintf_plain call f s = Some (None, kputc call c s)"
    using assms True by (subst kprintf_plain.simps, subst kprintf_plain.simps) simp
  then show ?thesis
    using assms True by (simp add: kprintf.simps [of call L f] kprintf.simps [of call L "f + 1"])
next
  case False
  have "kprintf_plain call f s = kprintf_plain call (f + 1) (kputc call c s)"
    using assms by (subst kprintf_plain.simps) simp
  then show ?thesis
    using assms False by (simp add: kprintf.simps [of call L f] kprintf.simps [of call L "f + 1"])
qed

lemma kprintf_end: "mem s f = 0 \<Longrightarrow> kprintf call L f args s = Some s"
  by (subst kprintf.simps) simp

lemma kprintf_percent:
  "mem s f = 37 \<Longrightarrow> kprintf call L f args s =
    do { (args', s2) \<leftarrow> kprintf_conv call L (mem s (f + 1)) args s; kprintf call L (f + 2) args' s2 }"
  by (subst kprintf.simps, subst kprintf_plain.simps) simp

text \<open>The one negative number whose negation is negative is its own negation.\<close>

lemma neg_twice:
  assumes "sint (n :: u32) < 0" and "sint (- n) < 0"
  shows "- n = n"
proof -
  have lo: "- 2147483648 \<le> sint n" using sint_ge [of n] by simp
  have "sint n = - 2147483648"
  proof (rule ccontr)
    assume "sint n \<noteq> - 2147483648"
    then have "signed_take_bit 31 (- sint n) = - sint n"
      using lo assms(1) by (intro signed_take_bit_int_eq_self) simp_all
    then have "sint (- n) = - sint n" by (simp add: sint_word_ariths)
    then show False using assms by simp
  qed
  then have "of_int (sint n) = (of_int (- 2147483648) :: u32)" by (simp only:)
  then have "n = - 2147483648" by simp
  then show ?thesis by simp
qed

lemma sent_digit: "sent auto 45 = [45]" by (simp add: sent_def)

lemma kprintf_conv_quiet:
  assumes "quiet s" and "statics_ok L m" and "sint (padding s) \<le> 49"
    and "d \<in> {99, 100, 120, 111, 115}" and "rendered_arg (padding s) d a = Some out" and "arg_at L m a v"
  shows "\<exists>m'. kprintf_conv call L d (v # vs) (printed s bs m) =
      Some (vs, printed s (bs @ concat (map (sent (auto_send_return s)) out)) m') \<and> same_but_buffer L m m'"
proof (cases a)
  case (FStr cs)
  then have "d = 115" "out = cs" "cstr_at m v cs"
    using assms(4-6) by (auto simp: string_at_def split: if_splits)
  then show ?thesis using assms(1) by (auto simp: kprintf_conv_def kputs_quiet intro: exI [of _ m])
next
  case (FNum n)
  then have v: "v = n" using assms(6) by simp
  note num = kputn_quiet [OF assms(1,2)]
  consider "d = 99" "out = [ucast n]" | "d = 100" "sint n < 0" "out = 45 # digits 10 (padding s) (- n)"
    | "d = 100" "\<not> sint n < 0" "out = digits 10 (padding s) n" | "d = 120" "out = digits 16 (padding s) n"
    | "d = 111" "out = digits 8 0 n"
    using assms(5) FNum by (auto split: if_splits)
  then show ?thesis
  proof cases
    case 1
    then show ?thesis using assms(1) v by (auto simp: kprintf_conv_def kputc_quiet intro: exI [of _ m])
  next
    case 2
    have "(if sint (- n) < 0 then - (- n) else - n) = - n" using neg_twice [OF 2(2)] by simp
    then have "kputd call L (- n) t = kputn call L 10 (padding t) (- n) t" for t by (simp only: kputd_def)
    with 2 v num [of 10 "padding s" call "- n" "bs @ [45]"] assms(1,3) show ?thesis
      by (auto simp: kprintf_conv_def kputc_quiet sent_digit)
  next
    case 3
    with v num [of 10 "padding s" call n bs] assms(3) show ?thesis
      by (auto simp: kprintf_conv_def kputd_def)
  next
    case 4
    with v num [of 16 "padding s" call n bs] assms(3) show ?thesis
      by (auto simp: kprintf_conv_def kputx_def)
  next
    case 5
    with v num [of 8 0 call n bs] show ?thesis by (auto simp: kprintf_conv_def)
  qed
qed

lemma kprintf_renders_aux:
  assumes "quiet s" and "sint (padding s) \<le> 49"
  shows "rendered (padding s) cs as = Some out \<Longrightarrow> statics_ok L m \<Longrightarrow> string_at L m f cs \<Longrightarrow>
    list_all2 (arg_at L m) as vs \<Longrightarrow> \<exists>m'. kprintf call L f vs (printed s bs m) =
      Some (printed s (bs @ concat (map (sent (auto_send_return s)) out)) m') \<and> same_but_buffer L m m'"
proof (induction "padding s" cs as arbitrary: f vs bs m out rule: rendered.induct)
  case (1 as)
  then show ?case by (subst kprintf_end) (auto simp: string_at_def cstr_at_def)
next
  case (2 c as)
  then have c: "c \<noteq> 37" "m f = c" "c \<noteq> 0" "m (f + 1) = 0" "out = [c]"
    by (auto simp: string_at_def cstr_at_Cons split: if_splits)
  then show ?case using assms(1)
    by (subst kprintf_char [OF _ c(1,3)]) (auto simp: kputc_quiet kprintf_end)
next
  case (3 c d cs as)
  note f = string_at_tail [OF "3.prems"(3)]
  note f1 = string_at_tail [OF f(3)]
  show ?case
  proof (cases "c = 37")
    case False
    obtain out' where out: "rendered (padding s) (d # cs) as = Some out'" "out = c # out'"
      using "3.prems"(1) False by auto
    have "kprintf call L f vs (printed s bs m) =
        kprintf call L (f + 1) vs (printed s (bs @ sent (auto_send_return s) c) m)"
      using f(1) False f(2) assms(1) by (subst kprintf_char [where c = c]) (simp_all add: kputc_quiet)
    with "3.hyps"(1) [OF False out(1) "3.prems"(2) f(3) "3.prems"(4), of "bs @ sent (auto_send_return s) c"]
    show ?thesis by (simp add: out(2))
  next
    case percent: True
    show ?thesis
    proof (cases "d \<in> {99, 100, 120, 111, 115}")
      case False
      then have conv: "kprintf call L f vs (printed s bs m) = kprintf call L (f + 2) vs (printed s bs m)"
        using f(1) f1(1) percent by (subst kprintf_percent) (simp_all add: kprintf_conv_def)
      have "rendered (padding s) cs as = Some out" using "3.prems"(1) percent False by auto
      from "3.hyps"(3) [OF _ False this "3.prems"(2) _ "3.prems"(4)] f1(3) percent conv show ?thesis
        by (simp add: add.assoc)
    next
      case True
      obtain a as' o1 o2 where a: "as = a # as'" "rendered_arg (padding s) d a = Some o1"
        "rendered (padding s) cs as' = Some o2" "out = o1 @ o2"
        using "3.prems"(1) percent True by (auto split: list.splits option.splits)
      obtain v vs' where v: "vs = v # vs'" "arg_at L m a v" "list_all2 (arg_at L m) as' vs'"
        using "3.prems"(4) a(1) by (auto simp: list_all2_Cons1)
      obtain m1 where m1: "kprintf_conv call L d (v # vs') (printed s bs m) =
          Some (vs', printed s (bs @ concat (map (sent (auto_send_return s)) o1)) m1)" "same_but_buffer L m m1"
        using kprintf_conv_quiet [OF assms(1) "3.prems"(2) assms(2) True a(2) v(2)] by blast
      have "list_all2 (arg_at L m1) as' vs'" using v(3) by (rule list_all2_mono) (rule arg_at_same [OF m1(2)])
      moreover have "string_at L m1 (f + 2) cs"
        using string_at_same [OF m1(2) f1(3)] by (simp add: add.assoc)
      ultimately obtain m2 where m2: "kprintf call L (f + 2) vs'
          (printed s (bs @ concat (map (sent (auto_send_return s)) o1)) m1) =
        Some (printed s ((bs @ concat (map (sent (auto_send_return s)) o1)) @ concat (map (sent (auto_send_return s)) o2)) m2)"
        "same_but_buffer L m1 m2"
        using "3.hyps"(2) [OF _ True a(1) a(2) a(3) statics_ok_same [OF m1(2) "3.prems"(2)]] percent by blast
      have "kprintf call L f vs (printed s bs m) = kprintf call L (f + 2) vs'
          (printed s (bs @ concat (map (sent (auto_send_return s)) o1)) m1)"
        using f(1) f1(1) percent m1(1) by (subst kprintf_percent) (simp_all add: v(1))
      with m2 same_but_buffer_trans [OF m1(2) m2(2)] show ?thesis by (auto simp: a(4))
    qed
  qed
qed

text \<open>Claim C19: on a port without listeners \<open>kprintf\<close> returns and sends exactly the text its format and
  arguments stand for, each line feed followed by a carriage return if that is switched on and each
  backspace erasing; besides, only the buffer of \<open>ltostr\<close> changes in memory. This holds for every
  complete format whose arguments fit it, when neither it nor a string argument lies in that buffer.\<close>

theorem kprintf_renders:
  assumes "quiet s" and "sint (padding s) \<le> 49" and "statics_ok L (mem s)"
    and "string_at L (mem s) f cs" and "list_all2 (arg_at L (mem s)) as vs"
    and "rendered (padding s) cs as = Some out"
  shows "\<exists>s'. kprintf call L f vs s = Some s'
    \<and> outputs (trace s') = outputs (trace s)
        @ map (Outb (com s 0)) (concat (map (sent (auto_send_return s)) out))
    \<and> (\<forall>x. \<not> in_region (ltostr_buffer L) 50 x \<longrightarrow> mem s' x = mem s x)"
proof -
  obtain m' where "kprintf call L f vs (printed s [] (mem s)) =
      Some (printed s (concat (map (sent (auto_send_return s)) out)) m')" "same_but_buffer L (mem s) m'"
    using kprintf_renders_aux [OF assms(1,2,6,3,4,5), of call "[]"] by auto
  then show ?thesis by (auto simp: outputs_printed same_but_buffer_def)
qed

text \<open>A format that ends with a percent sign is read past its end.\<close>

theorem kprintf_reads_past_end:
  assumes "mem s f = 37" and "mem s (f + 1) = 0"
  shows "kprintf call L f args s = kprintf call L (f + 2) args s"
  using assms by (simp add: kprintf_percent kprintf_conv_def)

subsection \<open>Start-up\<close>

lemma serial_init_port_spec:
  assumes "serial_init_port d i (f, s) = (f', s')" and "0 \<le> i"
  shows "\<exists>byte. mem s' = mem s \<and> com s' = (com s)(i := load16 (mem s) (0x400 + 2 * word_of_int i))
    \<and> com_descs s' = (com_descs s)(i := (com_descs s i)\<lparr>listeners := (\<lambda>j. if 0 \<le> j \<and> j < 4 then 0 else listeners (com_descs s i) j),
        virtual := (byte \<noteq> 0x41)\<rparr>)
    \<and> f' = (if byte \<noteq> 0x41 then f OR push_bit (nat i) 1 else f)
    \<and> set (trace s) \<subseteq> set (trace s') \<and> Inb (load16 (mem s) (0x400 + 2 * word_of_int i)) byte \<in> set (trace s')"
proof -
  let ?p = "load16 (mem s) (0x400 + 2 * word_of_int i)"
  define s1 where "s1 = fold (\<lambda>(offset, byte). outb (?p + offset) byte)
            [(1, 0), (3, 0x80), (0, 3), (1, 0), (3, 3), (2, 0xC7), (4, 0xb), (4, 0x1e), (0, 0x41)]
            (s\<lparr>com := (com s)(i := ?p)\<rparr>)"
  define s2 where "s2 = set_com i (\<lambda>c. c\<lparr>virtual := False,
      listeners := (\<lambda>j. if 0 \<le> j \<and> j < 4 then 0 else listeners c j)\<rparr>) s1"
  have s1: "mem s1 = mem s" "com s1 = (com s)(i := ?p)" "com_descs s1 = com_descs s"
    "set (trace s) \<subseteq> set (trace s1)"
    unfolding s1_def by (auto simp: outb_def)
  have "serial_init_port d i (f, s) =
     (let (byte, s3) = inb d ?p s2
      in if byte \<noteq> 0x41
         then (f OR push_bit (nat i) 1, set_com i (\<lambda>c. c\<lparr>virtual := True\<rparr>) s3)
         else (f, outb (?p + 4) 0xe s3))"
    unfolding serial_init_port_def s2_def s1_def Let_def by simp
  then show ?thesis
    using assms(1) s1
    by (intro exI [of _ "dev_inb d (trace s2) ?p"])
      (auto simp: in_unfold set_com_def outb_def s2_def split: if_splits cong: if_cong)
qed

text \<open>After \<open>serial_init\<close> each of the four ports has the address the BIOS data area gives it and
  no listener; it is marked as virtual exactly if the byte read back from it was not the one sent,
  and exactly the bits of the virtual ports are set in the result.\<close>

theorem serial_init_flags:
  assumes "serial_init d s = (failed, s')" and "i < 4"
  shows "com s' (int i) = load16 (mem s) (0x400 + 2 * of_nat i)
    \<and> (\<forall>j. 0 \<le> j \<and> j < 4 \<longrightarrow> listeners (com_descs s' (int i)) j = 0)
    \<and> bit failed i = virtual (com_descs s' (int i))
    \<and> (\<exists>byte. Inb (com s' (int i)) byte \<in> set (trace s') \<and> virtual (com_descs s' (int i)) = (byte \<noteq> 0x41))"
proof -
  obtain f0 s0 where 0: "serial_init_port d 0 (0, s) = (f0, s0)" by fastforce
  obtain f1 s1 where 1: "serial_init_port d 1 (f0, s0) = (f1, s1)" by fastforce
  obtain f2 s2 where 2: "serial_init_port d 2 (f1, s1) = (f2, s2)" by fastforce
  obtain f3 s3 where 3: "serial_init_port d 3 (f2, s2) = (f3, s3)" by fastforce
  have r: "failed = ucast f3" "s' = s3" using assms(1) 0 1 2 3 by (auto simp: serial_init_def)
  obtain b0 b1 b2 b3 where
    p0: "mem s0 = mem s" "com s0 = (com s)(0 := load16 (mem s) 0x400)"
      "com_descs s0 = (com_descs s)(0 := (com_descs s 0)\<lparr>listeners := (\<lambda>j. if 0 \<le> j \<and> j < 4 then 0 else listeners (com_descs s 0) j),
        virtual := (b0 \<noteq> 0x41)\<rparr>)"
      "f0 = (if b0 \<noteq> 0x41 then 1 else 0)" "Inb (load16 (mem s) 0x400) b0 \<in> set (trace s0)"
    and p1: "mem s1 = mem s0" "com s1 = (com s0)(1 := load16 (mem s0) 0x402)"
      "com_descs s1 = (com_descs s0)(1 := (com_descs s0 1)\<lparr>listeners := (\<lambda>j. if 0 \<le> j \<and> j < 4 then 0 else listeners (com_descs s0 1) j),
        virtual := (b1 \<noteq> 0x41)\<rparr>)"
      "f1 = (if b1 \<noteq> 0x41 then f0 OR 2 else f0)" "Inb (load16 (mem s0) 0x402) b1 \<in> set (trace s1)"
      "set (trace s0) \<subseteq> set (trace s1)"
    and p2: "mem s2 = mem s1" "com s2 = (com s1)(2 := load16 (mem s1) 0x404)"
      "com_descs s2 = (com_descs s1)(2 := (com_descs s1 2)\<lparr>listeners := (\<lambda>j. if 0 \<le> j \<and> j < 4 then 0 else listeners (com_descs s1 2) j),
        virtual := (b2 \<noteq> 0x41)\<rparr>)"
      "f2 = (if b2 \<noteq> 0x41 then f1 OR 4 else f1)" "Inb (load16 (mem s1) 0x404) b2 \<in> set (trace s2)"
      "set (trace s1) \<subseteq> set (trace s2)"
    and p3: "mem s3 = mem s2" "com s3 = (com s2)(3 := load16 (mem s2) 0x406)"
      "com_descs s3 = (com_descs s2)(3 := (com_descs s2 3)\<lparr>listeners := (\<lambda>j. if 0 \<le> j \<and> j < 4 then 0 else listeners (com_descs s2 3) j),
        virtual := (b3 \<noteq> 0x41)\<rparr>)"
      "f3 = (if b3 \<noteq> 0x41 then f2 OR 8 else f2)" "Inb (load16 (mem s2) 0x406) b3 \<in> set (trace s3)"
      "set (trace s2) \<subseteq> set (trace s3)"
    using serial_init_port_spec [OF 0] serial_init_port_spec [OF 1] serial_init_port_spec [OF 2]
      serial_init_port_spec [OF 3] by (auto simp: push_bit_eq_mult)
  have reads: "Inb (com s3 0) b0 \<in> set (trace s3)" "Inb (com s3 1) b1 \<in> set (trace s3)"
    "Inb (com s3 2) b2 \<in> set (trace s3)" "Inb (com s3 3) b3 \<in> set (trace s3)"
    using p0 p1 p2 p3 by auto
  consider "i = 0" | "i = 1" | "i = 2" | "i = 3" using assms(2) by linarith
  then show ?thesis
    using reads p0(1-4) p1(1-4) p2(1-4) p3(1-4) unfolding r
    by cases (auto simp: bit_or_iff bit_numeral_rec)
qed

subsection \<open>Listeners\<close>

lemma last_key_slot_unique:
  assumes "\<And>j. i \<le> j \<Longrightarrow> j < i + int k \<Longrightarrow> keys j = key \<Longrightarrow> j = x"
  shows "last_key_slot keys key i k index = (if i \<le> x \<and> x < i + int k \<and> keys x = key then x else index)"
  using assms
proof (induction k arbitrary: i index)
  case (Suc k)
  have IH: "last_key_slot keys key (i + 1) k v = (if i + 1 \<le> x \<and> x < i + 1 + int k \<and> keys x = key then x else v)" for v
    by (rule Suc.IH) (rule Suc.prems, simp_all)
  have eq: "keys i = key \<Longrightarrow> i = x" by (rule Suc.prems) simp_all
  show ?case
  proof (cases "x = i")
    case True
    then show ?thesis using IH by simp
  next
    case False
    then have "i \<le> x \<and> x < i + int (Suc k) \<longleftrightarrow> i + 1 \<le> x \<and> x < i + 1 + int k" by auto
    with False eq show ?thesis unfolding last_key_slot.simps IH by auto
  qed
qed simp

lemma prng_frame: "prng s = Some (n, s') \<Longrightarrow> s' = s\<lparr>seed := seed s'\<rparr>"
  by (auto simp: prng_def Let_def split: if_splits)

lemma gen_driver_key_frame: "gen_driver_key p a s = Some (k, s') \<Longrightarrow> s' = s\<lparr>seed := seed s'\<rparr>"
  by (auto simp: gen_driver_key_def seed_ksecr_def dest!: prng_frame split: Option.bind_splits)

lemma register_serial_listener_spec:
  assumes "register_serial_listener l port p s = Some (key, s1)"
    and "i = (case first_slot (listeners (com_descs s 0)) 0 4 of Some i \<Rightarrow> i | None \<Rightarrow> 0)"
  shows "\<exists>sd. s1 = set_com 0 (\<lambda>c. c\<lparr>listner_keys := (listner_keys c)(i := key), listeners := (listeners c)(i := l),
      listner_data_index := (listner_data_index c)(i := 0)\<rparr>) (s\<lparr>seed := sd\<rparr>)"
proof -
  obtain k t where k: "gen_driver_key (ucast p) l s = Some (k, t)"
    using assms(1) by (auto simp: register_serial_listener_def Let_def split: Option.bind_splits)
  obtain sd where t: "t = s\<lparr>seed := sd\<rparr>" using gen_driver_key_frame [OF k] by blast
  show ?thesis
    using assms k unfolding t
    by (auto simp: register_serial_listener_def Let_def set_com_def intro!: exI [of _ sd])
qed

text \<open>A listener is entered in the first free of the first port's four slots, whatever port
  was named; unless another slot has the key it is given, deregistering with that key, for
  whatever port, restores the listeners as they were.\<close>

theorem serial_listener_roundtrip:
  assumes "register_serial_listener l port p s = Some (key, s1)"
    and "0 \<le> i" "i < 4" "listeners (com_descs s 0) i = 0"
    and "\<forall>j. 0 \<le> j \<and> j < i \<longrightarrow> listeners (com_descs s 0) j \<noteq> 0"
    and "\<forall>j. 0 \<le> j \<and> j < 4 \<and> j \<noteq> i \<longrightarrow> listner_keys (com_descs s 0) j \<noteq> key"
  shows "listeners (com_descs s1 0) = (listeners (com_descs s 0))(i := l)
    \<and> (\<forall>j. j \<noteq> 0 \<longrightarrow> com_descs s1 j = com_descs s j)
    \<and> listeners (com_descs (deregister_serial_listener g port' key s1) 0) = listeners (com_descs s 0)"
proof -
  have "first_slot (listeners (com_descs s 0)) 0 4 = Some i"
    using assms(2-5) by (simp add: first_slot_Some)
  then obtain sd where s1: "s1 = set_com 0 (\<lambda>c. c\<lparr>listner_keys := (listner_keys c)(i := key),
      listeners := (listeners c)(i := l), listner_data_index := (listner_data_index c)(i := 0)\<rparr>) (s\<lparr>seed := sd\<rparr>)"
    using register_serial_listener_spec [OF assms(1), of i] by auto
  have "last_key_slot (listner_keys (com_descs s1 0)) key 0 4 g = i"
    using assms(2,3,6) by (subst last_key_slot_unique [where x = i]) (auto simp: s1 set_com_def split: if_splits)
  then show ?thesis
    using assms(4) by (auto simp: deregister_serial_listener_def s1 set_com_def)
qed

text \<open>With all four slots taken the first listener is silently replaced.\<close>

theorem register_serial_listener_evicts:
  assumes "register_serial_listener l port p s = Some (key, s1)"
    and "\<forall>j. 0 \<le> j \<and> j < 4 \<longrightarrow> listeners (com_descs s 0) j \<noteq> 0"
  shows "listeners (com_descs s1 0) = (listeners (com_descs s 0))(0 := l)"
proof -
  have "first_slot (listeners (com_descs s 0)) 0 4 = None" using assms(2) by (simp add: first_slot_None)
  then show ?thesis
    using register_serial_listener_spec [OF assms(1), of 0] by (auto simp: set_com_def)
qed

end
