(* ===== verification/Keyboard.thy ===== *)
theory Keyboard
  imports Serial Interfaces
begin

text \<open>
  The keyboard: \<open>kernel/drivers/kb.c\<close> (the listener that receives the typed characters) and
  \<open>kernel/drivers/ps2.c\<close> (scancodes to characters, and the set-up of the 8042 controller).

  A call of a registered listener is recorded in \<open>kb_calls\<close>, oldest first: the address called
  and the character. The translation table is a string literal of 94 bytes; what lies after it in
  the image is the parameter \<open>beyond\<close>.
\<close>

record keyboard = serial +
  g_listener :: ptr
  ps2_listener :: ptr
  last_char :: u8
  ps_2_interrupt_fired :: u8
  last_key :: u8
  shift_down :: u8
  caps_lock :: u8
  kb_calls :: "(ptr \<times> u8) list"

subsection \<open>kb.c\<close>

definition KB_ERR_INVALID_FP :: u32 where "KB_ERR_INVALID_FP = 2"
definition KB_ERR_DUAL_REG :: u32 where "KB_ERR_DUAL_REG = 3"

definition kb_listener :: "u8 \<Rightarrow> 'a keyboard_scheme \<Rightarrow> 'a keyboard_scheme" where
  "kb_listener key s =
     (if g_listener s = 0 then s else s\<lparr>kb_calls := kb_calls s @ [(g_listener s, key)]\<rparr>)"

definition register_kb_listener :: "ptr \<Rightarrow> 'a keyboard_scheme \<Rightarrow> u32 \<times> 'a keyboard_scheme" where
  "register_kb_listener listener s =
     (if listener = 0 then (KB_ERR_INVALID_FP, s)
      else if g_listener s \<noteq> 0 then (KB_ERR_DUAL_REG, s)
      else (0, s\<lparr>g_listener := listener\<rparr>))"

definition register_handlers :: "ptr \<Rightarrow> 'a keyboard_scheme \<Rightarrow> 'a keyboard_scheme" where
  "register_handlers translated_handler s = s\<lparr>ps2_listener := translated_handler\<rparr>"

text \<open>\<open>kb_listener_fp\<close> is the address of \<open>kb_listener\<close>; the only caller passes \<open>register_handlers\<close>.\<close>

definition request_register_driver ::
    "ptr \<Rightarrow> (ptr \<Rightarrow> 'a keyboard_scheme \<Rightarrow> 'a keyboard_scheme) option \<Rightarrow> 'a keyboard_scheme
      \<Rightarrow> 'a keyboard_scheme" where
  "request_register_driver kb_listener_fp driver_listener s =
     (case driver_listener of Some f \<Rightarrow> f kb_listener_fp s | None \<Rightarrow> s)"

subsection \<open>ps2.c: translation\<close>

definition LSHFT :: u8 where "LSHFT = 0x81"
definition RSHFT :: u8 where "RSHFT = 0x82"
definition LALT :: u8 where "LALT = 0x83"
definition CAPS :: u8 where "CAPS = 0x84"

definition kb_codes :: "u8 list" where
  "kb_codes =
    [0, 27, 49, 50, 51, 52, 53, 54, 55, 56, 57, 48, 45, 61, 8, 9,
     113, 119, 101, 114, 116, 121, 117, 105, 111, 112, 91, 93, 10, 0x81,
     97, 115, 100, 102, 103, 104, 106, 107, 108, 59, 39, 96, 0x82, 92,
     122, 120, 99, 118, 98, 110, 109, 44, 46, 47, 0x82, 42, 0x83, 32, 0x84,
     0x90, 0x91, 0x92, 0x93, 0x94, 0x95, 0x95, 0x96, 0x97, 0x98, 0x99, 0xa0, 0xa1,
     0xb7, 0xb8, 0xb9, 0xbd, 0xb4, 0xb5, 0xb6, 0xbb, 0xb1, 0xb2, 0xb3, 0xb0, 0xbe,
     0, 0, 0, 0x9a, 0x9b, 0, 0, 0, 0]"

definition translated_kb_codes :: "(nat \<Rightarrow> u8) \<Rightarrow> nat \<Rightarrow> u8" where
  "translated_kb_codes beyond i =
     (if i < length kb_codes then kb_codes ! i else beyond (i - length kb_codes))"

definition shifted_nums :: "u8 list" where
  "shifted_nums = [41, 33, 64, 35, 36, 37, 94, 38, 42, 40]"

text \<open>\<open>char\<close> is signed: the range tests compare the sign-extended value, and the cast to
  \<open>unsigned\<close> extends the sign too.\<close>

definition get_ascii :: "u8 \<Rightarrow> u8 \<Rightarrow> u8 \<Rightarrow> u8" where
  "get_ascii scanned shift numlock =
     (if shift \<noteq> 0 then
        if 97 \<le> sint scanned \<and> sint scanned \<le> 122 then scanned - 0x20
        else if 48 \<le> sint scanned \<and> sint scanned \<le> 57 then shifted_nums ! nat (sint scanned - 48)
        else if scanned = 96 then 126
        else if scanned = 45 then 95
        else if scanned = 61 then 43
        else if scanned = 59 then 58
        else if scanned = 39 then 34
        else if scanned = 44 then 60
        else if scanned = 46 then 62
        else if scanned = 47 then 63
        else if scanned = 91 then 123
        else if scanned = 93 then 125
        else if scanned = 92 then 124
        else 32
      else if numlock \<noteq> 0 \<and> char_int scanned \<ge> 0xb0 \<and> char_int scanned \<le> 0xb9
        then scanned XOR 0x80
      else scanned)"

definition getchar :: "'a keyboard_scheme \<Rightarrow> u8 \<times> 'a keyboard_scheme" where
  "getchar s = (last_char s, s\<lparr>ps_2_interrupt_fired := 0\<rparr>)"

definition get_lastkey :: "'a keyboard_scheme \<Rightarrow> u8" where
  "get_lastkey s = last_key s"

subsection \<open>ps2.c: the interrupt handler\<close>

definition ps2_press :: "(nat \<Rightarrow> u8) \<Rightarrow> u8 \<Rightarrow> 'a keyboard_scheme \<Rightarrow> 'a keyboard_scheme" where
  "ps2_press beyond scancode s =
     (let code = translated_kb_codes beyond (unat scancode)
      in if code = LSHFT \<or> code = RSHFT then s\<lparr>shift_down := 1\<rparr>
         else if code = CAPS then s\<lparr>caps_lock := (if caps_lock s = 0 then 1 else 0)\<rparr>
         else if code = LALT then s
         else
           let s1 = s\<lparr>ps_2_interrupt_fired := 1, last_key := scancode,
                      last_char := get_ascii code (shift_down s OR caps_lock s) 0\<rparr>
           in if ps2_listener s1 \<noteq> 0 then kb_listener (last_char s1) s1 else s1)"

definition ps2_release :: "(nat \<Rightarrow> u8) \<Rightarrow> u8 \<Rightarrow> 'a keyboard_scheme \<Rightarrow> 'a keyboard_scheme" where
  "ps2_release beyond scancode s =
     (let code = translated_kb_codes beyond (unat (scancode XOR 0x80))
      in if code = LSHFT \<or> code = RSHFT then s\<lparr>shift_down := 0\<rparr> else s)"

definition ps2_handler ::
    "(nat \<Rightarrow> u8) \<Rightarrow> device \<Rightarrow> 'r \<Rightarrow> 'a keyboard_scheme \<Rightarrow> 'r \<times> 'a keyboard_scheme" where
  "ps2_handler beyond d regs s =
     (let (scancode, s1) = inb d 0x60 s
      in if scancode < 0x80 then (regs, ps2_press beyond scancode s1)
         else (regs, ps2_release beyond scancode s1))"

subsection \<open>ps2.c: the controller\<close>

text \<open>The two loops of \<open>init_8042\<close> that poll the status port; each may never end.\<close>

partial_function (option) drain_8042 :: "device \<Rightarrow> 'a io_scheme \<Rightarrow> 'a io_scheme option" where
  "drain_8042 d s =
     (let (status, s1) = inb d 0x64 s
      in if status AND 1 \<noteq> 0 then drain_8042 d (snd (inb d 0x60 s1)) else Some s1)"

partial_function (option) wait_8042 :: "device \<Rightarrow> 'a io_scheme \<Rightarrow> 'a io_scheme option" where
  "wait_8042 d s =
     (let (status, s1) = inb d 0x64 s
      in if status AND 1 = 0 then wait_8042 d s1 else Some s1)"

text \<open>A read of the answer after the wait.\<close>

definition answer_8042 :: "device \<Rightarrow> 'a io_scheme \<Rightarrow> (u8 \<times> 'a io_scheme) option" where
  "answer_8042 d s = map_option (inb d 0x60) (wait_8042 d s)"

text \<open>In \<open>kb_status_u\<close> bits 0, 1 and 6 are \<open>int1\<close>, \<open>int2\<close> and \<open>translation\<close>, bit 5 is \<open>portclk2\<close>.\<close>

definition test_8042 :: "string \<Rightarrow> u8 \<Rightarrow> device \<Rightarrow> 'a io_scheme \<Rightarrow> 'a io_scheme option" where
  "test_8042 message command d s = do {
     (test_result, s1) \<leftarrow> answer_8042 d (outb 0x64 command s);
     Some (if test_result \<noteq> 0
           then printf (line message) [PEntry ''error_codes'' (ucast test_result - 1)] s1 else s1) }"

definition init_8042 :: "ptr \<Rightarrow> device \<Rightarrow> 'a keyboard_scheme \<Rightarrow> (u32 \<times> 'a keyboard_scheme) option" where
  "init_8042 kb_listener_fp d s = do {
     s1 \<leftarrow> drain_8042 d (outb 0x64 0xA7 (outb 0x64 0xAD s));
     (byte, s2) \<leftarrow> answer_8042 d (outb 0x64 0x20 s1);
     let stat = byte AND 0xBC;
     (test, s3) \<leftarrow> answer_8042 d (outb 0x64 0xAA (outb 0x64 stat (outb 0x64 0x60 s2)));
     if test \<noteq> 0x55 then Some (1, printf (line ''PS_2 Keyboard Initialization failed!'') [] s3)
     else do {
       s4 \<leftarrow> test_8042 ''Error: PS_2 Keyboard Encountered an error: %s'' 0xAB d s3;
       s5 \<leftarrow> (if stat AND 0x20 = 0
             then map_option (outb 0x64 0xA8)
               (test_8042 ''Error: PS_2 Mouse Encountered an error: %s'' 0xA9 d s4)
             else Some s4);
       Some (0, request_register_driver kb_listener_fp (Some register_handlers) (outb 0x64 0xAE s5)) } }"

subsection \<open>Listeners\<close>

interpretation listener: one_shot_slot g_listener register_kb_listener
  by unfold_locales
    (auto simp: register_kb_listener_def KB_ERR_INVALID_FP_def KB_ERR_DUAL_REG_def)

text \<open>The first listener that registers keeps the keyboard: every later registration of a
  listener reports an error and changes nothing, so the typed characters go to the first one.\<close>

theorem register_kb_listener_first_wins:
  fixes s :: "'a keyboard_scheme"
  assumes "g_listener s = 0" and "h \<noteq> 0" and "register_kb_listener h s = (r, s1)"
    and "g \<noteq> 0" and "register_kb_listener g s1 = (r', s2)"
  shows "r = 0 \<and> r' \<noteq> 0 \<and> s2 = s1 \<and> kb_calls (kb_listener c s2) = kb_calls s2 @ [(h, c)]"
  using listener.first_wins [OF assms] assms(2) by (auto simp: kb_listener_def)

subsection \<open>Characters\<close>

lemma keypad_range_empty [simp]: "\<not> (char_int c \<ge> 0xb0 \<and> char_int c \<le> 0xb9)"
  unfolding char_int_def by (rule all_u8 [where c = c]) code_simp

lemma get_ascii_0 [simp]: "get_ascii c 0 n = c"
  using keypad_range_empty [of c] by (auto simp: get_ascii_def)

lemma get_ascii_shift_cong: "shift \<noteq> 0 \<Longrightarrow> get_ascii c shift n = get_ascii c 1 0"
  by (simp add: get_ascii_def)

lemma get_ascii_shift: "shift \<noteq> 0 \<Longrightarrow> 32 \<le> get_ascii c shift n \<and> get_ascii c shift n \<le> 126"
  unfolding get_ascii_shift_cong [of shift c n] by (rule all_u8 [where c = c]) code_simp

text \<open>The conversion of the numeric keypad never happens: the bytes 0xb0 to 0xb9 of the
  table are negative as \<open>char\<close>, so the range test on the sign-extended value fails for every byte,
  and \<open>get_ascii\<close> without shift is the identity whatever \<open>numlock\<close> says.\<close>

theorem get_ascii_ignores_numlock:
  "get_ascii c 0 numlock = c \<and> get_ascii c shift numlock = get_ascii c shift 0"
  by (cases "shift = 0") (simp_all add: get_ascii_shift_cong [of shift c numlock] get_ascii_shift_cong [of shift c 0])

subsection \<open>What a typist sees\<close>

text \<open>
  The abstract keyboard has two modifiers, held or locked, and gives the characters of a sequence
  of scancodes. The driver refines it: \<open>modifiers\<close> is the abstraction of its state.
\<close>

datatype kb_key = Shift_Key | Caps_Key | Alt_Key | Char_Key u8

definition kb_key_of :: "(nat \<Rightarrow> u8) \<Rightarrow> nat \<Rightarrow> kb_key" where
  "kb_key_of beyond i =
     (let c = translated_kb_codes beyond i
      in if c = LSHFT \<or> c = RSHFT then Shift_Key else if c = CAPS then Caps_Key
         else if c = LALT then Alt_Key else Char_Key c)"

definition kb_type :: "(nat \<Rightarrow> u8) \<Rightarrow> u8 \<Rightarrow> bool \<times> bool \<Rightarrow> u8 list \<times> bool \<times> bool" where
  "kb_type beyond scancode m =
     (case m of (held, locked) \<Rightarrow>
        if scancode < 0x80 then
          (case kb_key_of beyond (unat scancode) of
             Shift_Key \<Rightarrow> ([], True, locked)
           | Caps_Key \<Rightarrow> ([], held, \<not> locked)
           | Alt_Key \<Rightarrow> ([], held, locked)
           | Char_Key c \<Rightarrow> ([if held \<or> locked then get_ascii c 1 0 else c], held, locked))
        else
          ([], held \<and> kb_key_of beyond (unat (scancode XOR 0x80)) \<noteq> Shift_Key, locked))"

fun kb_typed :: "(nat \<Rightarrow> u8) \<Rightarrow> u8 list \<Rightarrow> bool \<times> bool \<Rightarrow> u8 list \<times> bool \<times> bool" where
  "kb_typed beyond [] m = ([], m)"
| "kb_typed beyond (c # cs) m =
     (let (out, m1) = kb_type beyond c m; (outs, m2) = kb_typed beyond cs m1 in (out @ outs, m2))"

definition modifiers :: "'a keyboard_scheme \<Rightarrow> bool \<times> bool" where
  "modifiers s = (shift_down s \<noteq> 0, caps_lock s \<noteq> 0)"

lemma or_eq_0_u8: "(a :: u8) OR b = 0 \<longleftrightarrow> a = 0 \<and> b = 0"
  by (simp add: or_eq_0_iff)

definition kb_refines :: "'a keyboard_scheme \<Rightarrow> u8 list \<times> bool \<times> bool \<Rightarrow> 'a keyboard_scheme \<Rightarrow> bool" where
  "kb_refines s typed s' \<longleftrightarrow> trace s' = trace s \<and> ps2_listener s' = ps2_listener s
     \<and> g_listener s' = g_listener s \<and> modifiers s' = snd typed
     \<and> kb_calls s' = kb_calls s @ map (Pair (g_listener s)) (fst typed)"

lemma distinct_modifier_codes:
  "LSHFT \<noteq> RSHFT" "CAPS \<noteq> LSHFT" "CAPS \<noteq> RSHFT" "LALT \<noteq> LSHFT" "LALT \<noteq> RSHFT" "LALT \<noteq> CAPS"
  by (simp_all add: LSHFT_def RSHFT_def CAPS_def LALT_def)

lemma ps2_press_refines:
  assumes "ps2_listener s \<noteq> 0" and "g_listener s \<noteq> 0" and "c < 0x80"
  shows "kb_refines s (kb_type beyond c (modifiers s)) (ps2_press beyond c s)"
proof (cases "kb_key_of beyond (unat c)")
  case (Char_Key k)
  then have k: "translated_kb_codes beyond (unat c) = k" "k \<noteq> LSHFT" "k \<noteq> RSHFT" "k \<noteq> CAPS" "k \<noteq> LALT"
    by (auto simp: kb_key_of_def Let_def split: if_splits)
  have "get_ascii k (shift_down s OR caps_lock s) 0 =
      (if shift_down s \<noteq> 0 \<or> caps_lock s \<noteq> 0 then get_ascii k 1 0 else k)"
    using get_ascii_shift_cong [of "shift_down s OR caps_lock s" k 0] by (auto simp: or_eq_0_u8)
  with assms k Char_Key show ?thesis
    by (simp add: ps2_press_def kb_type_def kb_refines_def modifiers_def kb_listener_def Let_def)
qed (use assms distinct_modifier_codes in
  \<open>auto simp: ps2_press_def kb_type_def kb_key_of_def kb_refines_def modifiers_def Let_def split: if_splits\<close>)

lemma ps2_release_refines:
  assumes "\<not> c < 0x80"
  shows "kb_refines s (kb_type beyond c (modifiers s)) (ps2_release beyond c s)"
  using assms
  by (auto simp: ps2_release_def kb_type_def kb_key_of_def kb_refines_def modifiers_def Let_def)

lemma ps2_handler_step:
  assumes "ps2_listener s \<noteq> 0" and "g_listener s \<noteq> 0"
  obtains c where "kb_refines (snd (inb d 0x60 s)) (kb_type beyond c (modifiers s)) (snd (ps2_handler beyond d r s))"
    and "c = fst (inb d 0x60 s)"
proof
  let ?s = "snd (inb d 0x60 s)" and ?c = "fst (inb d 0x60 s)"
  have m: "modifiers ?s = modifiers s" "ps2_listener ?s \<noteq> 0" "g_listener ?s \<noteq> 0"
    using assms by (simp_all add: in_unfold modifiers_def)
  show "kb_refines ?s (kb_type beyond ?c (modifiers s)) (snd (ps2_handler beyond d r s))"
    using ps2_press_refines [OF m(2,3), of ?c beyond] ps2_release_refines [of ?c ?s beyond] m(1)
    by (cases "?c < 0x80") (simp_all add: ps2_handler_def split_def Let_def)
qed simp

lemma kb_typed_append:
  "kb_typed beyond (cs @ ds) m =
     (let (out, m1) = kb_typed beyond cs m; (outs, m2) = kb_typed beyond ds m1 in (out @ outs, m2))"
  by (induction cs arbitrary: m) (auto simp: Let_def split: prod.splits)

text \<open>Claim C8: the interrupt handler refines the abstract keyboard. After \<open>n\<close> keyboard interrupts,
  whatever scancodes the controller delivered (\<open>cs\<close>, as read from port 0x60), the registered
  listener has been called with exactly the characters the abstract keyboard types for them, in
  order, and the driver's flags are its modifiers.\<close>

theorem ps2_handler_refines_typing:
  assumes "ps2_listener s \<noteq> 0" and "g_listener s \<noteq> 0"
    and "s' = ((\<lambda>s. snd (ps2_handler beyond d r s)) ^^ n) s"
  shows "\<exists>cs. length cs = n \<and> trace s' = map (Inb 0x60) (rev cs) @ trace s
      \<and> modifiers s' = snd (kb_typed beyond cs (modifiers s))
      \<and> kb_calls s' = kb_calls s @ map (Pair (g_listener s)) (fst (kb_typed beyond cs (modifiers s)))
      \<and> ps2_listener s' = ps2_listener s \<and> g_listener s' = g_listener s"
  using assms(3)
proof (induction n arbitrary: s')
  case 0
  then show ?case by simp
next
  case (Suc n)
  let ?u = "((\<lambda>s. snd (ps2_handler beyond d r s)) ^^ n) s"
  from Suc.IH [OF refl] obtain cs where cs: "length cs = n" "trace ?u = map (Inb 0x60) (rev cs) @ trace s"
    "modifiers ?u = snd (kb_typed beyond cs (modifiers s))"
    "kb_calls ?u = kb_calls s @ map (Pair (g_listener s)) (fst (kb_typed beyond cs (modifiers s)))"
    "ps2_listener ?u = ps2_listener s" "g_listener ?u = g_listener s" by blast
  from assms(1,2) cs(5,6) have "ps2_listener ?u \<noteq> 0" "g_listener ?u \<noteq> 0" by simp_all
  then obtain c where "kb_refines (snd (inb d 0x60 ?u)) (kb_type beyond c (modifiers ?u)) s'"
      "c = fst (inb d 0x60 ?u)"
    using Suc.prems by (auto elim: ps2_handler_step [of ?u d beyond r])
  with cs show ?case
    by (intro exI [of _ "cs @ [c]"])
      (auto simp: kb_refines_def kb_typed_append in_unfold Let_def split: prod.splits)
qed

text \<open>While Caps Lock is on, no key press reaches the listener as a control character: a
  press delivers nothing or one printable character. Enter, backspace and tab are delivered as
  spaces, so no command line can be ended.\<close>

theorem caps_lock_swallows_enter:
  assumes "caps_lock s \<noteq> 0" and "snd (ps2_handler beyond d r s) = s'"
  shows "kb_calls s' = kb_calls s \<or>
    (\<exists>c. 32 \<le> c \<and> c \<le> 126 \<and> kb_calls s' = kb_calls s @ [(g_listener s, c)])"
proof -
  let ?u = "snd (inb d 0x60 s)" and ?c = "fst (inb d 0x60 s)"
  have u: "caps_lock ?u \<noteq> 0" "kb_calls ?u = kb_calls s" "g_listener ?u = g_listener s"
    using assms(1) by (simp_all add: in_unfold)
  have "32 \<le> get_ascii k (shift_down ?u OR caps_lock ?u) 0 \<and> get_ascii k (shift_down ?u OR caps_lock ?u) 0 \<le> 126"
    for k using u(1) by (intro get_ascii_shift) (simp add: or_eq_0_u8)
  with u have "kb_calls (ps2_press beyond ?c ?u) = kb_calls s \<or>
    (\<exists>c. 32 \<le> c \<and> c \<le> 126 \<and> kb_calls (ps2_press beyond ?c ?u) = kb_calls s @ [(g_listener s, c)])"
    by (auto simp: ps2_press_def kb_listener_def Let_def)
  moreover have "kb_calls (ps2_release beyond ?c ?u) = kb_calls s"
    using u by (auto simp: ps2_release_def Let_def)
  ultimately show ?thesis
    using assms(2) by (auto simp: ps2_handler_def split_def Let_def split: if_splits)
qed

text \<open>The interrupts of a sequence of scancodes, each read from a controller that offers it.\<close>

definition scancode_dev :: "u8 \<Rightarrow> device" where
  "scancode_dev c = \<lparr>dev_inb = (\<lambda>_ _. c), dev_inw = (\<lambda>_ _. 0), dev_seconds = (\<lambda>_. 0)\<rparr>"

definition type_keys :: "(nat \<Rightarrow> u8) \<Rightarrow> u8 list \<Rightarrow> 'a keyboard_scheme \<Rightarrow> 'a keyboard_scheme" where
  "type_keys beyond cs s = fold (\<lambda>c s. snd (ps2_handler beyond (scancode_dev c) () s)) cs s"

lemma type_keys_typed:
  assumes "ps2_listener s \<noteq> 0" and "g_listener s \<noteq> 0"
  shows "modifiers (type_keys beyond cs s) = snd (kb_typed beyond cs (modifiers s))
    \<and> kb_calls (type_keys beyond cs s) =
      kb_calls s @ map (Pair (g_listener s)) (fst (kb_typed beyond cs (modifiers s)))"
  using assms
proof (induction cs arbitrary: s)
  case (Cons c cs)
  let ?u = "snd (ps2_handler beyond (scancode_dev c) () s)"
  have c: "fst (inb (scancode_dev c) 0x60 s) = c" by (simp add: in_unfold scancode_dev_def)
  have u: "kb_refines (snd (inb (scancode_dev c) 0x60 s)) (kb_type beyond c (modifiers s)) ?u"
    using ps2_handler_step [OF Cons.prems, of "scancode_dev c" beyond "()"] c by metis
  then have "ps2_listener ?u = ps2_listener s" "g_listener ?u = g_listener s"
    "modifiers ?u = snd (kb_type beyond c (modifiers s))"
    "kb_calls ?u = kb_calls s @ map (Pair (g_listener s)) (fst (kb_type beyond c (modifiers s)))"
    by (auto simp: kb_refines_def in_unfold)
  with Cons.IH [of ?u] Cons.prems show ?case
    by (auto simp: type_keys_def Let_def split: prod.splits)
qed (simp add: type_keys_def)

lemmas kb_table_simps =
  kb_type_def kb_key_of_def translated_kb_codes_def kb_codes_def LSHFT_def RSHFT_def CAPS_def
  LALT_def get_ascii_def

text \<open>Control is a Shift key: with no modifier active, Control-A (press 0x1D, press and
  release 0x1E, release 0x9D) delivers a capital A, and releasing Control while Shift (0x2A) is held
  ends the Shift, for the table has at 0x1D the code 0x81, which \<open>kb.h\<close> names the left Shift.\<close>

theorem ctrl_acts_as_shift:
  assumes "ps2_listener s \<noteq> 0" and "g_listener s \<noteq> 0" and "shift_down s = 0" and "caps_lock s = 0"
  shows "kb_calls (type_keys beyond [0x1D, 0x1E, 0x9E, 0x9D] s) = kb_calls s @ [(g_listener s, 65)]
   \<and> kb_calls (type_keys beyond [0x2A, 0x1D, 0x9D, 0x1E] s) = kb_calls s @ [(g_listener s, 97)]"
proof -
  have m: "modifiers s = (False, False)" using assms by (simp add: modifiers_def)
  show ?thesis unfolding type_keys_typed [OF assms(1,2), THEN conjunct2] m by (simp add: kb_table_simps)
qed

text \<open>The function keys F1 to F6 type the codes \<open>F1\<close> to \<open>F6\<close> of \<open>kb.h\<close> (0x90 on); from F7
  on each types the code of the key before it, since the table lists 0x95 twice, and \<open>F10\<close> (0x99) is
  typed by Num Lock.\<close>

theorem function_keys_shifted_by_one:
  assumes "ps2_listener s \<noteq> 0" and "g_listener s \<noteq> 0" and "shift_down s = 0" and "caps_lock s = 0"
  shows "kb_calls (type_keys beyond [0x3B, 0x3C, 0x3D, 0x3E, 0x3F, 0x40, 0x41, 0x42, 0x43, 0x44, 0x45] s) =
    kb_calls s @ map (Pair (g_listener s))
      [0x90, 0x91, 0x92, 0x93, 0x94, 0x95, 0x95, 0x96, 0x97, 0x98, 0x99]"
proof -
  have m: "modifiers s = (False, False)" using assms by (simp add: modifiers_def)
  show ?thesis unfolding type_keys_typed [OF assms(1,2), THEN conjunct2] m by (simp add: kb_table_simps)
qed

subsection \<open>Start of the controller\<close>

text \<open>
  A controller that works as documented: no byte waits after the ports are disabled (0xA7), it
  answers the commands 0x20 (read configuration), 0xAA, 0xAB and 0xA9 (self tests) at once, with
  the configuration byte \<open>cfg\<close> and success.
\<close>

definition working_8042 :: "u8 \<Rightarrow> device \<Rightarrow> bool" where
  "working_8042 cfg d \<longleftrightarrow>
     (\<forall>tr. dev_inb d (Outb 0x64 0xA7 # tr) 0x64 AND 1 = 0
       \<and> (\<forall>c \<in> {0x20, 0xAA, 0xAB, 0xA9}. dev_inb d (Outb 0x64 c # tr) 0x64 AND 1 = 1)
       \<and> (\<forall>st. dev_inb d (Inb 0x64 st # Outb 0x64 0x20 # tr) 0x60 = cfg
         \<and> dev_inb d (Inb 0x64 st # Outb 0x64 0xAA # tr) 0x60 = 0x55
         \<and> dev_inb d (Inb 0x64 st # Outb 0x64 0xAB # tr) 0x60 = 0
         \<and> dev_inb d (Inb 0x64 st # Outb 0x64 0xA9 # tr) 0x60 = 0))"

lemma answer_8042_at_once:
  "dev_inb d (trace s) 0x64 AND 1 = 1 \<Longrightarrow> answer_8042 d s = Some (inb d 0x60 (snd (inb d 0x64 s)))"
  by (subst answer_8042_def, subst wait_8042.simps) (simp add: in_unfold)

lemma drain_8042_empty:
  "dev_inb d (trace s) 0x64 AND 1 = 0 \<Longrightarrow> drain_8042 d s = Some (snd (inb d 0x64 s))"
  by (subst drain_8042.simps) (simp add: in_unfold)

lemma answer_8042_working:
  assumes "working_8042 cfg d" and "c \<in> {0x20, 0xAA, 0xAB, 0xA9}"
  shows "\<exists>st. answer_8042 d (outb 0x64 c s) =
    (let v = (if c = 0x20 then cfg else if c = 0xAA then 0x55 else 0)
     in Some (v, s\<lparr>trace := Inb 0x60 v # Inb 0x64 st # Outb 0x64 c # trace s\<rparr>))"
proof -
  have "answer_8042 d (outb 0x64 c s) = Some (inb d 0x60 (snd (inb d 0x64 (outb 0x64 c s))))"
    by (rule answer_8042_at_once) (use assms in \<open>auto simp: working_8042_def\<close>)
  also have "\<dots> = (let v = (if c = 0x20 then cfg else if c = 0xAA then 0x55 else 0);
        st = dev_inb d (Outb 0x64 c # trace s) 0x64
     in Some (v, s\<lparr>trace := Inb 0x60 v # Inb 0x64 st # Outb 0x64 c # trace s\<rparr>))"
    using assms by (auto simp: in_unfold outb_def working_8042_def Let_def)
  finally show ?thesis by (auto simp: Let_def)
qed

lemma test_8042_working:
  assumes "working_8042 cfg d" and "c = 0xAB \<or> c = 0xA9"
  shows "\<exists>st. test_8042 m c d s = Some (s\<lparr>trace := Inb 0x60 0 # Inb 0x64 st # Outb 0x64 c # trace s\<rparr>)"
  using answer_8042_working [OF assms(1), of c s] assms(2) by (auto simp: test_8042_def)

text \<open>With a working controller \<open>init_8042\<close> returns 0 and installs the keyboard listener,
  but the configuration byte it computed (interrupts and translation off) goes to the command port
  0x64, as everything else it writes: the data port 0x60, where the controller expects it after the
  command 0x60, is never written.\<close>

theorem init_8042_never_writes_configuration:
  fixes s :: "'a keyboard_scheme"
  assumes "working_8042 cfg d"
  shows "\<exists>s'. init_8042 fp d s = Some (0, s') \<and> ps2_listener s' = fp
    \<and> outputs (trace s') = outputs (trace s)
      @ map (Outb 0x64) ([0xAD, 0xA7, 0x20, 0x60, cfg AND 0xBC, 0xAA, 0xAB]
          @ (if cfg AND 0x20 = 0 then [0xA9, 0xA8] else []) @ [0xAE])"
proof -
  let ?stat = "cfg AND 0xBC"
  obtain s1 where s1: "drain_8042 d (outb 0x64 0xA7 (outb 0x64 0xAD s)) = Some s1"
    "outputs (trace s1) = outputs (trace s) @ map (Outb 0x64) [0xAD, 0xA7]"
    using assms by (simp add: drain_8042_empty working_8042_def)
  obtain st2 where s2: "answer_8042 d (outb 0x64 0x20 s1) =
      Some (cfg, s1\<lparr>trace := Inb 0x60 cfg # Inb 0x64 st2 # Outb 0x64 0x20 # trace s1\<rparr>)"
    using answer_8042_working [OF assms, where c = "0x20" and s = s1] by auto
  let ?s2 = "s1\<lparr>trace := Inb 0x60 cfg # Inb 0x64 st2 # Outb 0x64 0x20 # trace s1\<rparr>"
  let ?t2 = "outb 0x64 ?stat (outb 0x64 0x60 ?s2)"
  obtain st3 where s3: "answer_8042 d (outb 0x64 0xAA ?t2) =
      Some (0x55, ?t2\<lparr>trace := Inb 0x60 0x55 # Inb 0x64 st3 # Outb 0x64 0xAA # trace ?t2\<rparr>)"
    using answer_8042_working [OF assms, where c = "0xAA" and s = ?t2] by auto
  let ?s3 = "?t2\<lparr>trace := Inb 0x60 0x55 # Inb 0x64 st3 # Outb 0x64 0xAA # trace ?t2\<rparr>"
  obtain st4 where s4: "test_8042 ''Error: PS_2 Keyboard Encountered an error: %s'' 0xAB d ?s3 =
      Some (?s3\<lparr>trace := Inb 0x60 0 # Inb 0x64 st4 # Outb 0x64 0xAB # trace ?s3\<rparr>)"
    using test_8042_working [OF assms, where c = "0xAB"] by blast
  let ?s4 = "?s3\<lparr>trace := Inb 0x60 0 # Inb 0x64 st4 # Outb 0x64 0xAB # trace ?s3\<rparr>"
  obtain st5 where s5: "test_8042 ''Error: PS_2 Mouse Encountered an error: %s'' 0xA9 d ?s4 =
      Some (?s4\<lparr>trace := Inb 0x60 0 # Inb 0x64 st5 # Outb 0x64 0xA9 # trace ?s4\<rparr>)"
    using test_8042_working [OF assms, where c = "0xA9"] by blast
  have "?stat AND 0x20 = cfg AND 0x20" by (simp add: and.assoc)
  with s1 s2 s3 s4 s5 show ?thesis
    by (auto simp: init_8042_def request_register_driver_def register_handlers_def outb_def)
qed

text \<open>The start of the controller touches only ports and the driver's listener.\<close>

lemma drain_8042_frame:
  assumes "drain_8042 d s = Some s'"
  shows "\<exists>tr. s' = s\<lparr>trace := tr\<rparr>"
proof (rule drain_8042.raw_induct [where P = "\<lambda>d s s'. \<exists>tr. s' = s\<lparr>trace := tr\<rparr>", OF _ assms], goal_cases)
  case (1 drain d s s')
  note step = 1
  let ?s1 = "snd (inb d 0x64 s)"
  show ?case
  proof (cases "fst (inb d 0x64 s) AND 1 \<noteq> 0")
    case True
    then have "drain d (snd (inb d 0x60 ?s1)) = Some s'" using step(2) by (simp add: split_def Let_def)
    from step(1) [OF this] show ?thesis by (auto simp: in_unfold)
  next
    case False
    then show ?thesis using step(2) by (auto simp: split_def Let_def in_unfold)
  qed
qed

lemma wait_8042_frame:
  assumes "wait_8042 d s = Some s'"
  shows "\<exists>tr. s' = s\<lparr>trace := tr\<rparr>"
proof (rule wait_8042.raw_induct [where P = "\<lambda>d s s'. \<exists>tr. s' = s\<lparr>trace := tr\<rparr>", OF _ assms], goal_cases)
  case (1 wait d s s')
  note step = 1
  let ?s1 = "snd (inb d 0x64 s)"
  show ?case
  proof (cases "fst (inb d 0x64 s) AND 1 = 0")
    case True
    then have "wait d ?s1 = Some s'" using step(2) by (simp add: split_def Let_def)
    from step(1) [OF this] show ?thesis by (auto simp: in_unfold)
  next
    case False
    then show ?thesis using step(2) by (auto simp: split_def Let_def in_unfold)
  qed
qed

lemma answer_8042_frame: "answer_8042 d s = Some (v, s') \<Longrightarrow> \<exists>tr. s' = s\<lparr>trace := tr\<rparr>"
  by (auto simp: answer_8042_def in_unfold dest!: wait_8042_frame)

lemma test_8042_frame: "test_8042 msg c d s = Some s' \<Longrightarrow> \<exists>tr. s' = s\<lparr>trace := tr\<rparr>"
  by (auto simp: test_8042_def outb_def printf_def dest!: answer_8042_frame split: Option.bind_splits if_splits)

lemma init_8042_frame:
  "init_8042 fp d s = Some (r, s') \<Longrightarrow> s'\<lparr>trace := [], ps2_listener := 0\<rparr> = s\<lparr>trace := [], ps2_listener := 0\<rparr>"
  by (auto simp: init_8042_def request_register_driver_def register_handlers_def outb_def printf_def Let_def
      split: Option.bind_splits if_splits dest!: drain_8042_frame answer_8042_frame test_8042_frame)

end
