(* ===== verification/Drives.thy ===== *)
theory Drives
  imports Ata Keyboard
begin

text \<open>
  The first half of \<open>kernel/drivers/storage.c\<close>: the tables of drives and file systems, the RAM
  disk, and the two functions every sector passes through, \<open>read_from_drive\<close> and
  \<open>write_to_drive\<close>. The structures of \<open>storage.h\<close> and \<open>filesystems/fat.h\<close> are records; the ones
  reached through pointers are kept by their address. Every drive is an \<open>ata_drive32\<close> record, of
  which only the first part means something unless its type says so.
\<close>

definition DRIVE_NULL :: u8 where "DRIVE_NULL = 0"
definition DRIVE_VIRT :: u8 where "DRIVE_VIRT = 1"
definition DRIVE_PATA28 :: u8 where "DRIVE_PATA28 = 3"

lemmas drive_type_defs = DRIVE_NULL_def DRIVE_VIRT_def DRIVE_PATA28_def

definition FS_FAT12 :: u8 where "FS_FAT12 = 1"
definition FS_FAT16 :: u8 where "FS_FAT16 = 3"
definition FS_FAT32 :: u8 where "FS_FAT32 = 5"

lemmas fs_type_defs = FS_FAT12_def FS_FAT16_def FS_FAT32_def

record fs32 =
  mountID :: u8
  fs_type :: u8
  partition :: u8
  fs_drive :: u8
  fs_flags :: u8
  start_low :: u32
  start_high :: u32
  sector_size_bytes :: u32
  fs_size_low :: u32
  fs_size_high :: u32

record file_base =
  f_permission :: u8
  f_mode :: u8
  f_fs_type :: u8
  f_position :: u32
  f_filesystem_id :: u8

text \<open>A directory entry, 32 bytes in memory. The two structures of time bit fields are kept as the
  16-bit words they fill.\<close>

record dirent =
  de_name :: "u8 list"
  de_ext :: "u8 list"
  de_attributes :: u8
  de_reserved :: u8
  creation_time_tenths :: u8
  creation_time :: u16
  creation_date :: u16
  last_accessed :: u16
  first_cluster_high :: u16
  last_mod_time :: u16
  last_mod_date :: u16
  first_cluster :: u16
  filesize_bytes :: u32

record fat_file = file_base +
  start_cluster :: u32
  current_cluster :: u32
  f_dirent :: dirent
  position_in_cluster :: u32

record fs_fat = fs32 +
  fat_offset_primary :: u32
  fat_offset_secondary :: u32
  fat_sectors_per_fat :: u16
  total_clusters :: u32
  sectors_per_cluster :: u32
  first_data_sector :: u32
  free_clusters :: u32
  root_dir_cluster :: u32
  cached_clusters_start :: u32
  cached_clusters_size :: u32
  fat_cache :: ptr
  last_free_cluster :: u32
  fat_cache_size :: u32
  root_dir_entries :: ptr
  root_dir_size_entries :: u32
  root_file :: fat_file

text \<open>The globals of \<open>storage.c\<close> and the structures its pointers lead to. \<open>tok_rest\<close> is the static
  variable of \<open>kstrtok\<close>.\<close>

record storage = keyboard +
  drives :: "int \<Rightarrow> ptr"
  filesystems :: "int \<Rightarrow> ptr"
  ramdisk :: ptr
  drive_at :: "ptr \<Rightarrow> ata_drive32"
  fs_at :: "ptr \<Rightarrow> fs_fat"
  file_at :: "ptr \<Rightarrow> fat_file"
  tok_rest :: ptr

definition set_drive :: "ptr \<Rightarrow> (ata_drive32 \<Rightarrow> ata_drive32) \<Rightarrow> 'a storage_scheme \<Rightarrow> 'a storage_scheme" where
  "set_drive a f s = s\<lparr>drive_at := (drive_at s)(a := f (drive_at s a))\<rparr>"

definition set_fs :: "ptr \<Rightarrow> (fs_fat \<Rightarrow> fs_fat) \<Rightarrow> 'a storage_scheme \<Rightarrow> 'a storage_scheme" where
  "set_fs a f s = s\<lparr>fs_at := (fs_at s)(a := f (fs_at s a))\<rparr>"

definition set_file :: "ptr \<Rightarrow> (fat_file \<Rightarrow> fat_file) \<Rightarrow> 'a storage_scheme \<Rightarrow> 'a storage_scheme" where
  "set_file a f s = s\<lparr>file_at := (file_at s)(a := f (file_at s a))\<rparr>"

subsection \<open>The tables\<close>

definition get_fs :: "int \<Rightarrow> 'a storage_scheme \<Rightarrow> ptr" where
  "get_fs fs s = filesystems s fs"

fun count_slots :: "(int \<Rightarrow> ptr) \<Rightarrow> int \<Rightarrow> nat \<Rightarrow> u32 \<Rightarrow> u32" where
  "count_slots t i 0 c = c"
| "count_slots t i (Suc k) c = count_slots t (i + 1) k (c + (if t i \<noteq> 0 then 1 else 0))"

definition get_fs_count :: "'a storage_scheme \<Rightarrow> u32" where
  "get_fs_count s = count_slots (filesystems s) 0 26 0"

definition get_drive :: "int \<Rightarrow> 'a storage_scheme \<Rightarrow> ptr" where
  "get_drive drive s = drives s drive"

text \<open>\<open>get_drive_count\<close> counts on from an uninitialised \<open>uint8_t\<close>, the parameter \<open>count\<close>.\<close>

fun count_drives :: "(int \<Rightarrow> ptr) \<Rightarrow> int \<Rightarrow> nat \<Rightarrow> u8 \<Rightarrow> u8" where
  "count_drives t i 0 count = count"
| "count_drives t i (Suc k) count = count_drives t (i + 1) k (if t i \<noteq> 0 then count + 1 else count)"

definition get_drive_count :: "u8 \<Rightarrow> 'a storage_scheme \<Rightarrow> u8" where
  "get_drive_count count s = count_drives (drives s) 0 26 count"

definition register_fs :: "ptr \<Rightarrow> 'a storage_scheme \<Rightarrow> u32 \<times> 'a storage_scheme" where
  "register_fs fs s =
     (case first_slot (filesystems s) 0 26 of
        Some i \<Rightarrow> (0, set_fs fs (mountID_update (\<lambda>_. word_of_int i)) (s\<lparr>filesystems := (filesystems s)(i := fs)\<rparr>))
      | None \<Rightarrow> (- 1, s))"

subsection \<open>The RAM disk\<close>

text \<open>The loop that copies words upwards, the same in both directions.\<close>

fun copy_words :: "ptr \<Rightarrow> ptr \<Rightarrow> nat \<Rightarrow> mem \<Rightarrow> mem" where
  "copy_words src dest 0 m = m"
| "copy_words src dest (Suc k) m = copy_words (src + 4) (dest + 4) k (store32 dest (load32 m src) m)"

text \<open>\<open>ramdisk + pos\<close> is pointer arithmetic on \<open>uint32_t\<close>: a position is four bytes.\<close>

definition ramdisk_write :: "u32 \<Rightarrow> ptr \<Rightarrow> u32 \<Rightarrow> 'a storage_scheme \<Rightarrow> 'a storage_scheme" where
  "ramdisk_write pos data sz s =
     s\<lparr>mem := copy_words data (ramdisk s + 4 * pos) (unat (sz * 512 div 4)) (mem s)\<rparr>"

definition ramdisk_read :: "u32 \<Rightarrow> ptr \<Rightarrow> u32 \<Rightarrow> 'a storage_scheme \<Rightarrow> 'a storage_scheme" where
  "ramdisk_read pos data sz s =
     s\<lparr>mem := copy_words (ramdisk s + 4 * pos) data (unat (sz * 512 div 4)) (mem s)\<rparr>"

subsection \<open>Sectors in and out\<close>

definition read_from_drive ::
    "device \<Rightarrow> ptr \<Rightarrow> u32 \<Rightarrow> u32 \<Rightarrow> int \<Rightarrow> 'a storage_scheme \<Rightarrow> (ptr \<times> 'a storage_scheme) option" where
  "read_from_drive d buffer sectors start drive s =
     (let dr = drive_at s (drives s drive)
      in if d_type dr = DRIVE_NULL then Some (DE_INVALID_DRIVE, s)
         else if d_type dr = DRIVE_VIRT then Some (E_NO_ERR, ramdisk_read start buffer sectors s)
         else if d_type dr = DRIVE_PATA28 then ata_read d buffer dr sectors start s
         else Some (E_NOT_IMPLEMENTED, s))"

definition write_to_drive ::
    "device \<Rightarrow> ptr \<Rightarrow> u32 \<Rightarrow> u32 \<Rightarrow> int \<Rightarrow> 'a storage_scheme \<Rightarrow> (u16 \<times> 'a storage_scheme) option" where
  "write_to_drive d buffer sectors start drive s =
     (let dr = drive_at s (drives s drive)
      in if d_type dr = DRIVE_NULL then Some (ucast DE_INVALID_DRIVE, s)
         else if d_type dr = DRIVE_VIRT then Some (ucast E_NO_ERR, ramdisk_write start buffer sectors s)
         else if d_type dr = DRIVE_PATA28 then do {
           (_, s1) \<leftarrow> ata_write d buffer dr sectors start s;
           Some (ucast E_NO_ERR, s1) }
         else Some (ucast E_NOT_IMPLEMENTED, s))"

section \<open>Properties\<close>

subsection \<open>Slots\<close>

lemma count_slots_eq:
  "count_slots t i k c = c + of_nat (card {x. i \<le> x \<and> x < i + int k \<and> t x \<noteq> 0})"
proof (induction k arbitrary: i c)
  case (Suc k)
  let ?A = "{x. i + 1 \<le> x \<and> x < i + 1 + int k \<and> t x \<noteq> 0}"
  have fin: "finite ?A" by (rule finite_subset [of _ "{i + 1 ..< i + 1 + int k}"]) auto
  have split: "{x. i \<le> x \<and> x < i + int (Suc k) \<and> t x \<noteq> 0} = (if t i \<noteq> 0 then insert i ?A else ?A)"
  proof (rule set_eqI)
    fix x
    show "x \<in> {x. i \<le> x \<and> x < i + int (Suc k) \<and> t x \<noteq> 0} \<longleftrightarrow> x \<in> (if t i \<noteq> 0 then insert i ?A else ?A)"
      using int_range_Suc [of i x k] by auto
  qed
  have "i \<notin> ?A" by simp
  with fin split Suc.IH [of "i + 1"] show ?case by simp
next
  case 0
  have "{x. i \<le> x \<and> x < i + int 0 \<and> t x \<noteq> 0} = {}" by auto
  then show ?case by (simp only: card.empty) simp
qed

text \<open>A file system is entered in the first free of the 26 slots, gets that slot's number as
  its mount identifier and is counted; with all slots taken \<open>register_fs\<close> returns -1 and changes
  nothing.\<close>

theorem register_fs_first_free:
  "if \<forall>i. 0 \<le> i \<and> i < 26 \<longrightarrow> get_fs i s \<noteq> 0 then register_fs fs s = (- 1, s)
   else \<exists>i s'. 0 \<le> i \<and> i < 26 \<and> get_fs i s = 0 \<and> (\<forall>j. 0 \<le> j \<and> j < i \<longrightarrow> get_fs j s \<noteq> 0)
     \<and> register_fs fs s = (0, s') \<and> get_fs i s' = fs \<and> mountID (fs_at s' fs) = word_of_int i
     \<and> (\<forall>j. j \<noteq> i \<longrightarrow> get_fs j s' = get_fs j s)
     \<and> get_fs_count s' = get_fs_count s + (if fs \<noteq> 0 then 1 else 0)"
proof (cases "first_slot (filesystems s) 0 26")
  case None
  then have "\<forall>i. 0 \<le> i \<and> i < 26 \<longrightarrow> filesystems s i \<noteq> 0" by (simp add: first_slot_None)
  with None show ?thesis by (simp add: register_fs_def get_fs_def)
next
  case (Some i)
  let ?s' = "set_fs fs (mountID_update (\<lambda>_. word_of_int i)) (s\<lparr>filesystems := (filesystems s)(i := fs)\<rparr>)"
  have i: "0 \<le> i" "i < 26" "filesystems s i = 0" "\<forall>x. 0 \<le> x \<and> x < i \<longrightarrow> filesystems s x \<noteq> 0"
    using Some by (simp_all add: first_slot_Some)
  let ?A = "{x. 0 \<le> x \<and> x < 26 \<and> filesystems s x \<noteq> 0}"
  have fin: "finite ?A" by (rule finite_subset [of _ "{0 ..< 26}"]) auto
  have "{x. 0 \<le> x \<and> x < 26 \<and> ((filesystems s)(i := fs)) x \<noteq> 0} = (if fs \<noteq> 0 then insert i ?A else ?A)"
    using i by auto
  then have "get_fs_count ?s' = get_fs_count s + (if fs \<noteq> 0 then 1 else 0)"
    using fin i(3) by (simp add: get_fs_count_def count_slots_eq set_fs_def)
  then show ?thesis
    using i Some by (auto simp: register_fs_def get_fs_def set_fs_def intro!: exI [of _ i])
qed

subsection \<open>The RAM disk\<close>

lemma copy_words_store:
  assumes "4 * k \<le> 2 ^ 32" and "apart src (4 * k) dest (4 * k)"
  shows "copy_words src dest k m = store_words dest (load_words m src k) m"
  using assms
proof (induction k arbitrary: src dest m)
  case (Suc k)
  have ap: "apart (src + 4) (4 * k) (dest + 4) (4 * k)" "apart (src + 4) (4 * k) dest 4"
    using apart_sub [OF apart_sub_left [OF Suc.prems(2), of 4 "4 * k"], of 4 "4 * k"]
      apart_mono [OF apart_sub_left [OF Suc.prems(2), of 4 "4 * k"], of "4 * k" 4] Suc.prems(1)
    by simp_all
  have "load_words (store32 dest (load32 m src) m) (src + 4) k = load_words m (src + 4) k"
    by (rule load_words_cong, rule store32_outside) (use ap(2) Suc.prems(1) in \<open>auto simp: apart_iff\<close>)
  with Suc.IH [OF _ ap(1)] Suc.prems(1) show ?case by simp
qed simp

text \<open>Where a sector of the RAM disk lies, and its length in words.\<close>

abbreviation ramdisk_addr :: "u32 \<Rightarrow> 'a storage_scheme \<Rightarrow> ptr" where
  "ramdisk_addr pos s \<equiv> ramdisk s + 4 * pos"

lemma sector_words:
  assumes "512 * unat n < 2 ^ 32"
  shows "unat (n * 512 div 4) = 128 * unat (n :: u32)"
proof -
  have "unat (n * 512) = unat n * 512" using assms by (subst unat_mult_lem [THEN iffD1]) simp_all
  then show ?thesis by (simp add: unat_div)
qed

lemma copy_words_load:
  assumes "4 * k \<le> 2 ^ 32" and "apart src (4 * k) dest (4 * k)"
  shows "load_words (copy_words src dest k m) dest k = load_words m src k"
    and "\<not> in_region dest (4 * k) x \<Longrightarrow> copy_words src dest k m x = m x"
  using load_words_store_words [of "load_words m src k" dest m] assms
    store_words_outside [of dest "load_words m src k" x m]
  by (simp_all add: copy_words_store)

lemma ramdisk_write_words:
  assumes "512 * unat n < 2 ^ 32" and "apart a (512 * unat n) (ramdisk_addr pos s) (512 * unat n)"
  shows "load_words (mem (ramdisk_write pos a n s)) (ramdisk_addr pos s) (128 * unat n) =
      load_words (mem s) a (128 * unat n)"
    and "\<not> in_region (ramdisk_addr pos s) (512 * unat n) x \<Longrightarrow> mem (ramdisk_write pos a n s) x = mem s x"
  using copy_words_load [of "128 * unat n" a "ramdisk_addr pos s"] assms
  by (simp_all add: ramdisk_write_def sector_words)

lemma ramdisk_read_words:
  assumes "512 * unat n < 2 ^ 32" and "apart (ramdisk_addr pos s) (512 * unat n) b (512 * unat n)"
  shows "load_words (mem (ramdisk_read pos b n s)) b (128 * unat n) =
      load_words (mem s) (ramdisk_addr pos s) (128 * unat n)"
  using copy_words_load [of "128 * unat n" "ramdisk_addr pos s" b] assms
  by (simp add: ramdisk_read_def sector_words)

lemma ramdisk_write_frame [simp]: "ramdisk (ramdisk_write pos a n s) = ramdisk s"
  by (simp add: ramdisk_write_def)

text \<open>Claim C39: sectors written to the RAM disk and read back from the same position are the ones
  written, when neither buffer overlaps them.\<close>

theorem ramdisk_roundtrip:
  assumes "512 * unat n < 2 ^ 32"
    and "apart a (512 * unat n) (ramdisk_addr pos s) (512 * unat n)"
    and "apart (ramdisk_addr pos s) (512 * unat n) b (512 * unat n)"
  shows "load_words (mem (ramdisk_read pos b n (ramdisk_write pos a n s))) b (128 * unat n) =
    load_words (mem s) a (128 * unat n)"
  using ramdisk_write_words(1) [OF assms(1,2)] ramdisk_read_words [where n = n and pos = pos and s = "ramdisk_write pos a n s" and b = b]
    assms(1,3) by simp

lemma take_load_words: "j \<le> n \<Longrightarrow> take j (load_words m a n) = load_words m a j"
proof (induction n arbitrary: a j)
  case (Suc n)
  then show ?case by (cases j) simp_all
qed simp

lemma load_words_128: "load_words m a 128 = load32 m a # load_words m (a + 4) 127"
  using load_words.simps(2) [of m a 127] by (simp del: load_words.simps)

text \<open>A position on the RAM disk is four bytes, not a sector: writing the sector after
  \<open>pos\<close> overwrites the sector at \<open>pos\<close> but for its first word.\<close>

theorem ramdisk_sectors_overlap:
  assumes "apart a 512 (ramdisk_addr pos s) 516" and "apart b 512 (ramdisk_addr pos s) 516"
  shows "load_words (mem (ramdisk_write (pos + 1) b 1 (ramdisk_write pos a 1 s))) (ramdisk_addr pos s) 128 =
    load32 (mem s) a # load_words (mem s) b 127"
proof -
  let ?p = "ramdisk_addr pos s" and ?s1 = "ramdisk_write pos a 1 s"
  let ?s2 = "ramdisk_write (pos + 1) b 1 ?s1"
  have p1: "ramdisk_addr (pos + 1) ?s1 = ?p + 4" by (simp add: algebra_simps)
  have ap1: "apart a 512 ?p 512" using assms(1) by (rule apart_mono) simp_all
  have ap2: "apart b 512 (?p + 4) 512" "apart b 512 ?p 512"
    using apart_sub [OF assms(2), of 4 512] apart_mono [OF assms(2), of 512 512] by simp_all
  have w1: "load_words (mem ?s1) ?p 128 = load_words (mem s) a 128"
    using ramdisk_write_words(1) [where n = 1 and a = a and pos = pos and s = s] ap1 by simp
  have w2: "load_words (mem ?s2) (?p + 4) 128 = load_words (mem ?s1) b 128"
    using ramdisk_write_words(1) [where n = 1 and a = b and pos = "pos + 1" and s = ?s1] ap2(1) unfolding p1 by simp
  have "load_words (mem ?s1) b 128 = load_words (mem s) b 128"
  proof (rule load_words_cong)
    fix x assume "in_region b (4 * 128) x"
    then have "\<not> in_region ?p 512 x" using ap2(2) by (simp add: apart_iff)
    then show "mem ?s1 x = mem s x" using ramdisk_write_words(2) [where n = 1 and a = a and pos = pos and s = s and x = x] ap1 by simp
  qed simp
  with w2 have rest: "load_words (mem ?s2) (?p + 4) 128 = load_words (mem s) b 128" by simp
  have "load32 (mem ?s2) ?p = load32 (mem ?s1) ?p"
  proof (rule load32_cong)
    fix x assume "in_region ?p 4 x"
    moreover have "apart ?p 4 (?p + of_nat 4) 512" by (rule apart_adjacent) simp
    ultimately have "\<not> in_region (?p + 4) 512 x" by (simp add: apart_iff)
    then show "mem ?s2 x = mem ?s1 x"
      using ramdisk_write_words(2) [where n = 1 and a = b and pos = "pos + 1" and s = ?s1 and x = x] ap2(1) unfolding p1 by simp
  qed
  moreover have "load32 (mem ?s1) ?p = load32 (mem s) a"
    using w1 by (simp add: load_words_128)
  moreover have "load_words (mem ?s2) (?p + 4) 127 = load_words (mem s) b 127"
    using arg_cong [OF rest, of "take 127"] by (simp add: take_load_words)
  ultimately show ?thesis by (simp add: load_words_128)
qed

subsection \<open>What a transfer leaves alone\<close>

text \<open>A transfer changes the trace, the timers and memory, nothing else of the state.\<close>

definition others :: "'a machine_scheme \<Rightarrow> mm \<times> 'a" where
  "others s = (mmgr s, machine.more s)"

lemma others_io [simp]:
  "others (snd (inb d p s)) = others s" "others (snd (inw d p s)) = others s"
  "others (outb p v s) = others s" "others (outw p w s) = others s"
  "others (printf f as s) = others s" "others (snd (poll_wait_secs d c s)) = others s"
  "others (s\<lparr>mem := m\<rparr>) = others s"
  by (simp_all add: others_def in_unfold outb_def outw_def printf_def)
    (simp_all add: poll_wait_secs_def wait_secs_def Let_def)

lemma others_wait_ready: "wait_ready d p s = Some s' \<Longrightarrow> others s' = others s"
proof (rule wait_ready.raw_induct [where P = "\<lambda>d p s s'. others s' = others s"], goal_cases)
  case (1 wr d p s s')
  from 1(3) show ?case by (auto simp: Let_def split_def split: if_splits dest!: 1(2))
qed

lemma others_poll_drive_loop: "poll_drive_loop d p res s = Some rs \<Longrightarrow> others (snd rs) = others s"
proof (rule poll_drive_loop.raw_induct [where P = "\<lambda>d p res s rs. others (snd rs) = others s"], goal_cases)
  case (1 lp d p res s rs)
  from 1(3) show ?case by (auto simp: Let_def split_def split: if_splits dest!: 1(2))
qed

lemma others_write_wait: "write_wait d p st s = Some os \<Longrightarrow> others (snd os) = others s"
proof (rule write_wait.raw_induct [where P = "\<lambda>d p st s os. others (snd os) = others s"], goal_cases)
  case (1 ww d p st s os)
  from 1(3) show ?case by (auto simp: Let_def split_def split: if_splits dest!: 1(2))
qed

lemmas others_poll = others_wait_ready others_poll_drive_loop others_write_wait

lemma others_poll_drive: "poll_drive d p s = Some (r, s') \<Longrightarrow> others s' = others s"
  by (auto simp: poll_drive_def Let_def split_def split: Option.bind_splits option.splits
      dest!: others_poll(2))

lemma others_poll_retry: "poll_retry d p k res s = Some (r, s') \<Longrightarrow> others s' = others s"
  by (induction k arbitrary: res s)
    (auto split: if_splits Option.bind_splits dest!: others_poll_drive)

lemma others_data [simp]:
  "others (read_data d p a n s) = others s" "others (write_data p a n s) = others s"
proof -
  show "others (read_data d p a n s) = others s"
  proof (induction n arbitrary: a s)
    case (Suc n)
    obtain w s1 where w: "inw d p s = (w, s1)" by fastforce
    then have "others s1 = others s" using others_io(2) [of d p s] by simp
    with Suc w show ?case by simp
  qed simp
  show "others (write_data p a n s) = others s"
    by (induction n arbitrary: a s) simp_all
qed

lemma others_out_address [simp]: "others (out_address drv n start c s) = others s"
  by (simp add: out_address_def Let_def)

lemma others_read_sectors: "read_sectors d p a k s = Some (ok, s') \<Longrightarrow> others s' = others s"
  by (induction k arbitrary: a s)
    (auto split: if_splits Option.bind_splits dest!: others_poll_drive others_poll_retry)

lemma others_ata28:
  "ata28_read d a drv n start s = Some (r, s') \<Longrightarrow> others s' = others s"
  "ata28_write d a drv n start s = Some (e, s') \<Longrightarrow> others s' = others s"
proof -
  show "others s' = others s" if "ata28_read d a drv n start s = Some (r, s')"
    using that by (auto simp: ata28_read_def Let_def split: Option.bind_splits
      dest!: others_read_sectors others_poll(1))
  have snd: "others s2 = others s1" if "inb d p s1 = (st, s2)" for p s1 st s2
    using others_io(1) [of d p s1] that by simp
  show "others s' = others s" if "ata28_write d a drv n start s = Some (e, s')"
    using that by (auto simp: ata28_write_def Let_def split: Option.bind_splits prod.splits if_splits
      dest!: others_poll(1,3) snd)
qed

lemma others_ata_blocks:
  "ata_read_blocks d a drv start k i e s = Some (e', s') \<Longrightarrow> others s' = others s"
  "ata_write_blocks d a drv start k i e s = Some (e', s') \<Longrightarrow> others s' = others s"
  by (induction k arbitrary: i e s)
    (auto simp: Let_def split: Option.bind_splits dest!: others_ata28)

lemma others_ata:
  "ata_read d a drv n start s = Some (r, s') \<Longrightarrow> others s' = others s"
  "ata_write d a drv n start s = Some (w, s') \<Longrightarrow> others s' = others s"
  by (auto simp: ata_read_def ata_write_def split: if_splits Option.bind_splits
      dest!: others_ata_blocks others_ata28)

lemma others_ramdisk [simp]:
  "others (ramdisk_read pos b n s) = others s" "others (ramdisk_write pos b n s) = others s"
  by (simp_all add: ramdisk_read_def ramdisk_write_def)

lemma others_drive:
  "read_from_drive d b n start drive s = Some (r, s') \<Longrightarrow> others s' = others s"
  "write_to_drive d b n start drive s = Some (w, s') \<Longrightarrow> others s' = others s"
  by (auto simp: read_from_drive_def write_to_drive_def Let_def split: if_splits Option.bind_splits
      dest!: others_ata)

text \<open>In terms of the storage fields.\<close>

lemma others_storage:
  assumes "others s' = others (s :: 'a storage_scheme)"
  shows "mmgr s' = mmgr s" "drives s' = drives s" "filesystems s' = filesystems s" "ramdisk s' = ramdisk s"
    "drive_at s' = drive_at s" "fs_at s' = fs_at s" "file_at s' = file_at s" "tok_rest s' = tok_rest s"
  using assms by (cases s; cases s'; simp add: others_def)+

end
