(* ===== verification/Fat.thy ===== *)
theory Fat
  imports Drives
begin

text \<open>
  \<open>kernel/filesystems/fat.c\<close>: the cache of the allocation table, cluster chains, reading, writing,
  creating and opening files, and mounting. A file system structure and a file structure are records
  kept by their address (theory \<open>Drives\<close>), the sectors they describe are bytes of memory. Divisions
  by zero and loops that never end are \<open>None\<close>. \<open>slash\<close> is the address of the string literal
  \<open>"/"\<close>.
\<close>

section \<open>The code\<close>

subsection \<open>Directory entries in memory\<close>

definition load_dirent :: "mem \<Rightarrow> ptr \<Rightarrow> dirent" where
  "load_dirent m a = \<lparr>de_name = read_bytes m a 8, de_ext = read_bytes m (a + 8) 3,
     de_attributes = m (a + 11), de_reserved = m (a + 12), creation_time_tenths = m (a + 13),
     creation_time = load16 m (a + 14), creation_date = load16 m (a + 16),
     last_accessed = load16 m (a + 18), first_cluster_high = load16 m (a + 20),
     last_mod_time = load16 m (a + 22), last_mod_date = load16 m (a + 24),
     first_cluster = load16 m (a + 26), filesize_bytes = load32 m (a + 28)\<rparr>"

text \<open>The first dot of a name, or 0.\<close>

partial_function (option) find_dot :: "mem \<Rightarrow> ptr \<Rightarrow> ptr option" where
  "find_dot m extension =
     (if m extension = 46 then Some extension
      else if m extension = 0 then Some 0
      else find_dot m (extension + 1))"

fun search_dir_loop :: "mem \<Rightarrow> ptr \<Rightarrow> ptr \<Rightarrow> ptr \<Rightarrow> nat \<Rightarrow> ptr option" where
  "search_dir_loop m name extension dir 0 = Some 0"
| "search_dir_loop m name extension dir (Suc k) =
     (if kmemcmp m name dir (extension - name) = 0 then
        if extension \<noteq> 0 then do {
          n \<leftarrow> kstrlen m extension;
          if kmemcmp m extension dir n \<noteq> 0 then search_dir_loop m name extension (dir + 32) k
          else Some dir }
        else Some dir
      else search_dir_loop m name extension (dir + 32) k)"

definition search_dir :: "mem \<Rightarrow> ptr \<Rightarrow> ptr \<Rightarrow> u32 \<Rightarrow> ptr option" where
  "search_dir m file dir dirsize = do {
     extension \<leftarrow> find_dot m file;
     search_dir_loop m file extension dir (unat dirsize) }"

subsection \<open>The cached part of the allocation table\<close>

definition cache_fat32 :: "device \<Rightarrow> ptr \<Rightarrow> u32 \<Rightarrow> 'a storage_scheme \<Rightarrow> 'a storage_scheme option" where
  "cache_fat32 d fat start s =
     (let f = fs_at s fat;
          (buffer, s1) = (if fat_cache f = 0 then sys_kmalloc (sint (fat_cache_size f div 8 + 1)) 6 s
                          else (fat_cache f, s));
          s2 = (if buffer = 0
                then printf (CHR 0x1B # line ''[lOSt] Error allocating memory for Fat Cache!'') [] s1
                else s1);
          s3 = set_fs fat (\<lambda>f. f\<lparr>cached_clusters_start := start\<rparr>) s2;
          f3 = fs_at s3 fat
      in if sector_size_bytes f3 div 4 = 0 then None
         else map_option snd (read_from_drive d buffer (fat_cache_size f3)
           (start div (sector_size_bytes f3 div 4) + fat_offset_primary f3) (uint (fs_drive f3)) s3))"

definition write_cache :: "device \<Rightarrow> ptr \<Rightarrow> 'a storage_scheme \<Rightarrow> 'a storage_scheme option" where
  "write_cache d fat s =
     (let f = fs_at s fat
      in map_option snd (write_to_drive d (fat_cache f) (fat_cache_size f)
           (fat_offset_primary f + cached_clusters_start f) (uint (fs_drive f)) s))"

text \<open>The first cluster the code takes to be in the cache, and whether it takes one to be.\<close>

definition cache_base :: "fs_fat \<Rightarrow> u32" where
  "cache_base f = cached_clusters_start f div sector_size_bytes f div 4"

definition cache_misses :: "fs_fat \<Rightarrow> u32 \<Rightarrow> bool" where
  "cache_misses f cluster \<longleftrightarrow>
     cluster < cache_base f \<or> cluster > cache_base f + cached_clusters_size f"

definition cache_slot :: "fs_fat \<Rightarrow> u32 \<Rightarrow> ptr" where
  "cache_slot f cluster = fat_cache f + 4 * (cluster - cache_base f)"

definition get_next_cluster32 ::
    "device \<Rightarrow> u32 \<Rightarrow> ptr \<Rightarrow> 'a storage_scheme \<Rightarrow> (u32 \<times> 'a storage_scheme) option" where
  "get_next_cluster32 d cluster fat s =
     (if sector_size_bytes (fs_at s fat) = 0 then None
      else do {
        s1 \<leftarrow> (if cache_misses (fs_at s fat) cluster then cache_fat32 d fat cluster s else Some s);
        Some (load32 (mem s1) (cache_slot (fs_at s1 fat) cluster), s1) })"

definition set_next_cluster32 ::
    "device \<Rightarrow> u32 \<Rightarrow> u32 \<Rightarrow> ptr \<Rightarrow> 'a storage_scheme \<Rightarrow> 'a storage_scheme option" where
  "set_next_cluster32 d cluster nxt fat s =
     (if sector_size_bytes (fs_at s fat) = 0 then None
      else do {
        s1 \<leftarrow> (if cache_misses (fs_at s fat) cluster
                then do { s' \<leftarrow> write_cache d fat s; cache_fat32 d fat cluster s' } else Some s);
        Some (s1\<lparr>mem := store32 (cache_slot (fs_at s1 fat) cluster)
                           (if cluster = nxt then - 1 else nxt) (mem s1)\<rparr>) })"

text \<open>\<open>k\<close> counts the clusters left to look at; \<open>total_clusters\<close> does not change in the loop.\<close>

fun find_free_loop ::
    "device \<Rightarrow> ptr \<Rightarrow> u32 \<Rightarrow> u32 \<Rightarrow> nat \<Rightarrow> 'a storage_scheme \<Rightarrow> (u32 \<times> 'a storage_scheme) option" where
  "find_free_loop d fat c i 0 s = Some (c, s)"
| "find_free_loop d fat c i (Suc k) s = do {
     (nxt, s1) \<leftarrow> get_next_cluster32 d i fat s;
     if nxt = 0 then Some (i, s1) else find_free_loop d fat c (i + 1) k s1 }"

definition fat32_find_free_cluster ::
    "device \<Rightarrow> ptr \<Rightarrow> 'a storage_scheme \<Rightarrow> (u32 \<times> 'a storage_scheme) option" where
  "fat32_find_free_cluster d fat s =
     (let f = fs_at s fat;
          c = last_free_cluster f;
          i = (if last_free_cluster f = - 1 then 0 else last_free_cluster f)
      in do {
        (c', s1) \<leftarrow> find_free_loop d fat c i (unat (total_clusters f) - unat i) s;
        Some (c', set_fs fat (\<lambda>f. f\<lparr>last_free_cluster := c'\<rparr>) s1) })"

subsection \<open>Writing and reading\<close>

text \<open>Which sector a cluster begins at.\<close>

definition cluster_sector :: "fs_fat \<Rightarrow> u32 \<Rightarrow> u32" where
  "cluster_sector f cluster = first_data_sector f + cluster * sectors_per_cluster f"

text \<open>One round of the loop of \<open>fat32_write\<close>: \<open>buffer\<close> is a \<open>uint16_t\<close> pointer there, so an offset of
  \<open>n\<close> is \<open>2 * n\<close> bytes. The result is the failure flag and the next cluster.\<close>

definition write_round ::
    "device \<Rightarrow> ptr \<Rightarrow> u32 \<Rightarrow> ptr \<Rightarrow> u32 \<Rightarrow> 'a storage_scheme \<Rightarrow> (bool \<times> u32 \<times> 'a storage_scheme) option" where
  "write_round d buffer i fat cluster s =
     (let f = fs_at s fat;
          sector = cluster_sector f cluster
      in do {
        (e, s1) \<leftarrow> write_to_drive d (buffer + 2 * (i * (sector_size_bytes f * sectors_per_cluster f)))
                     (if sectors_per_cluster f = 0 then 8 else sectors_per_cluster f) sector (uint (fs_drive f)) s;
        if e \<noteq> 0 then Some (False, cluster, s1)
        else do {
          let s2 = printf (line ''sector written to: %d, sector'' @ ''Byte: 0x%x (%d)'')
                     [PInt sector, PInt (sector * 512), PInt (sector * 512)] s1;
          (nxt, s3) \<leftarrow> get_next_cluster32 d cluster fat s2;
          if nxt \<ge> 0x0fffffff then do {
            (free, s4) \<leftarrow> fat32_find_free_cluster d fat s3;
            s5 \<leftarrow> set_next_cluster32 d cluster free fat s4;
            s6 \<leftarrow> set_next_cluster32 d free (- 1) fat s5;
            Some (True, free, s6) }
          else Some (True, nxt, s3) } })"

fun write_rounds ::
    "device \<Rightarrow> ptr \<Rightarrow> u32 \<Rightarrow> nat \<Rightarrow> ptr \<Rightarrow> u32 \<Rightarrow> 'a storage_scheme \<Rightarrow> (u32 \<times> 'a storage_scheme) option" where
  "write_rounds d buffer i 0 fat cluster s = Some (0, s)"
| "write_rounds d buffer i (Suc k) fat cluster s = do {
     (ok, cluster', s1) \<leftarrow> write_round d buffer i fat cluster s;
     if ok then write_rounds d buffer (i + 1) k fat cluster' s1 else Some (- 1, s1) }"

definition fat32_write ::
    "device \<Rightarrow> fat_file \<Rightarrow> u32 \<Rightarrow> ptr \<Rightarrow> ptr \<Rightarrow> 'a storage_scheme \<Rightarrow> (u32 \<times> 'a storage_scheme) option" where
  "fat32_write d ffile sz buffer fat s =
     (let n = sector_size_bytes (fs_at s fat) * sectors_per_cluster (fs_at s fat)
      in if n = 0 then None
         else write_rounds d buffer 0 (unat (sz div n + 1)) fat (start_cluster ffile) s)"

text \<open>The loop of \<open>fat32_read\<close>; the sectors of every cluster go to the start of the buffer.\<close>

partial_function (option) read_clusters ::
    "device \<Rightarrow> u32 \<Rightarrow> ptr \<Rightarrow> ptr \<Rightarrow> u32 \<Rightarrow> u32 \<Rightarrow> u32 \<Rightarrow> 'a storage_scheme \<Rightarrow> (u32 \<times> 'a storage_scheme) option" where
  "read_clusters d sz buffer fat sectors cluster pos s =
     (if sint sectors > 0 \<and> cluster < 0x0FFFFFF8 then do {
        let f = fs_at s fat;
        (_, s1) \<leftarrow> read_from_drive d buffer (sectors_per_cluster f) (cluster_sector f cluster)
                     (uint (fs_drive f)) s;
        let s2 = (if pos \<noteq> 0 then s1\<lparr>mem := kmemcpy buffer (buffer + pos) sz (mem s1)\<rparr> else s1);
        (nxt, s3) \<leftarrow> get_next_cluster32 d cluster fat s2;
        read_clusters d sz buffer fat (sectors div sectors_per_cluster (fs_at s3 fat)) nxt
          (if pos \<noteq> 0 then sz else pos) s3 }
      else Some (cluster, s))"

text \<open>\<open>fat32_read\<close> on the contents of a file structure; the structure comes back with its position.
  \<open>file\<close> says whether there is one.\<close>

definition fat32_read ::
    "device \<Rightarrow> fat_file option \<Rightarrow> u32 \<Rightarrow> ptr \<Rightarrow> ptr \<Rightarrow> 'a storage_scheme
      \<Rightarrow> (u32 \<times> fat_file option \<times> 'a storage_scheme) option" where
  "fat32_read d ffile sz buffer fat s =
     (case ffile of None \<Rightarrow> Some (- 1, None, s)
      | Some ff \<Rightarrow>
          if buffer = 0 then Some (- 2, ffile, s)
          else if fat = 0 then Some (- 3, ffile, s)
          else
            let f = fs_at s fat
            in if sector_size_bytes f = 0 \<or> sectors_per_cluster f * sector_size_bytes f = 0 then None
               else do {
                 (cluster, s1) \<leftarrow> read_clusters d sz buffer fat
                   ((sz div sector_size_bytes f + 1) * sectors_per_cluster f) (current_cluster ff)
                   (position_in_cluster ff) s;
                 Some (0, Some (ff\<lparr>position_in_cluster := sz mod (sectors_per_cluster f * sector_size_bytes f),
                                  f_position := f_position ff + sz, current_cluster := cluster\<rparr>), s1) })"

subsection \<open>Opening and creating\<close>

text \<open>The loop that is meant to count the entries of a directory never moves on from the first.\<close>

partial_function (option) count_dirents :: "mem \<Rightarrow> ptr \<Rightarrow> u32 \<Rightarrow> u32 option" where
  "count_dirents m dirents n =
     (if m dirents \<noteq> 0 then count_dirents m dirents (n + 1) else Some n)"

definition dirent_cluster :: "dirent \<Rightarrow> u32" where
  "dirent_cluster e = ucast (first_cluster e) OR push_bit 16 (ucast (first_cluster_high e))"

text \<open>\<open>kstrtok\<close> with its static variable in the state.\<close>

definition sys_kstrtok :: "ptr \<Rightarrow> ptr \<Rightarrow> 'a storage_scheme \<Rightarrow> (ptr \<times> 'a storage_scheme) option" where
  "sys_kstrtok to_tok delim s = do {
     (r, rest, m) \<leftarrow> kstrtok to_tok delim (tok_rest s) (mem s);
     Some (r, s\<lparr>tok_rest := rest, mem := m\<rparr>) }"

text \<open>The walk along the components of a path. \<open>None\<close> inside \<open>Some\<close> is the early return of 0. The
  directory read is always the file system's \<open>root_file\<close>, which the walk changes.\<close>

partial_function (option) walk_path ::
    "device \<Rightarrow> ptr \<Rightarrow> ptr \<Rightarrow> ptr \<Rightarrow> ptr \<Rightarrow> dirent \<Rightarrow> 'a storage_scheme
      \<Rightarrow> (dirent option \<times> 'a storage_scheme) option" where
  "walk_path d slash dirents fat token e s =
     (if token = 0 then Some (Some e, s)
      else do {
        let s1 = printf ''token: %s'' [PInt token] s;
        (_, ff, s2) \<leftarrow> fat32_read d (Some (root_file (fs_at s1 fat))) (- 1) dirents fat s1;
        let s3 = set_fs fat (\<lambda>f. f\<lparr>root_file := the ff\<rparr>) s2;
        dirsize \<leftarrow> count_dirents (mem s3) dirents 0;
        result \<leftarrow> search_dir (mem s3) token dirents dirsize;
        if result = 0 then Some (None, s3)
        else do {
          let e' = load_dirent (mem s3) result;
          let c = dirent_cluster e';
          let s4 = set_fs fat (\<lambda>f. f\<lparr>root_file := (root_file f)\<lparr>current_cluster := c, start_cluster := c,
                     f_position := 0, position_in_cluster := 0\<rparr>\<rparr>) s3;
          (token', s5) \<leftarrow> sys_kstrtok 0 slash s4;
          walk_path d slash dirents fat token' e' s5 } })"

text \<open>\<open>dirent0\<close> is what the uninitialised local \<open>dirent\<close> holds.\<close>

definition fat32_open_file ::
    "device \<Rightarrow> ptr \<Rightarrow> dirent \<Rightarrow> ptr \<Rightarrow> ptr \<Rightarrow> u8 \<Rightarrow> 'a storage_scheme \<Rightarrow> (ptr \<times> 'a storage_scheme) option" where
  "fat32_open_file d slash dirent0 filename fat mode s =
     (if fat = 0 \<or> filename = 0 then Some (0, s)
      else do {
        c \<leftarrow> kstrcmp (mem s) filename slash;
        if c = 0 then
          (let (root, s1) = sys_kmalloc 1 6 s
           in Some (root, set_file root (\<lambda>_. root_file (fs_at s1 fat)) s1))
        else do {
          n \<leftarrow> kstrlen (mem s) filename;
          let (str, s1) = sys_kmalloc (sint n sdiv 4096 + 1) 6 s;
          let s2 = s1\<lparr>mem := kmemcpy filename str n (mem s1)\<rparr>;
          (token, s3) \<leftarrow> sys_kstrtok str slash s2;
          let f = fs_at s3 fat;
          let (dirents, s4) = sys_kmalloc
                (sint (sector_size_bytes f * sectors_per_cluster f * 2048 div 4096)) 6 s3;
          (found, s5) \<leftarrow> walk_path d slash dirents fat token dirent0 s4;
          case found of
            None \<Rightarrow> Some (0, s5)
          | Some e \<Rightarrow>
              (let (ret, s6) = sys_kmalloc 1 6 s5;
                   c = dirent_cluster e
               in Some (ret, set_file ret (\<lambda>ff. ff\<lparr>f_dirent := e, f_fs_type := FS_FAT32, f_mode := mode,
                    f_permission := 7, f_position := 0, position_in_cluster := 0,
                    current_cluster := c, start_cluster := c\<rparr>) s6)) } })"

text \<open>The two scans of \<open>fat32_create_file\<close>: the first unused entry of a directory, and the loop meant to
  find the dot of a name, which stops after the first character that is not one.\<close>

partial_function (option) unused_dirent :: "mem \<Rightarrow> ptr \<Rightarrow> u32 \<Rightarrow> u32 option" where
  "unused_dirent m dirents i =
     (if m (dirents + 32 * i) \<noteq> 0 then unused_dirent m dirents (i + 1) else Some i)"

partial_function (option) leading_dots :: "mem \<Rightarrow> ptr \<Rightarrow> u32 \<Rightarrow> u32 option" where
  "leading_dots m fname sz =
     (if m (fname + sz) = 0 then Some sz
      else if m (fname + sz) = 46 then leading_dots m fname (sz + 1)
      else Some (sz + 1))"

fun clear_words :: "ptr \<Rightarrow> nat \<Rightarrow> mem \<Rightarrow> mem" where
  "clear_words a 0 m = m"
| "clear_words a (Suc k) m = clear_words (a + 4) k (store32 a 0 m)"

definition fat32_create_file ::
    "device \<Rightarrow> ptr \<Rightarrow> dirent \<Rightarrow> ptr \<Rightarrow> ptr \<Rightarrow> ptr \<Rightarrow> 'a storage_scheme \<Rightarrow> (ptr \<times> 'a storage_scheme) option" where
  "fat32_create_file d slash dirent0 fname root fat s = do {
     (rdir, s1) \<leftarrow> fat32_open_file d slash dirent0 root fat 2 s;
     (f, s2) \<leftarrow> fat32_open_file d slash dirent0 fname fat 6 s1;
     s3 \<leftarrow> (if f \<noteq> 0 then do { s' \<leftarrow> sys_kfree rdir s2; sys_kfree f s' } else Some s2);
     (cluster, s4) \<leftarrow> (if last_free_cluster (fs_at s3 fat) = - 1 then fat32_find_free_cluster d fat s3
                       else Some (last_free_cluster (fs_at s3 fat), s3));
     let pages = filesize_bytes (f_dirent (file_at s4 rdir)) div 4096 + 1;
     let (dirents, s5) = sys_kmalloc (sint pages) 6 s4;
     let s6 = s5\<lparr>mem := clear_words dirents (unat pages) (mem s5)\<rparr>;
     i \<leftarrow> unused_dirent (mem s6) dirents 0;
     sz \<leftarrow> leading_dots (mem s6) fname 0;
     let e = dirents + 32 * i;
     let m7 = kmemcpy fname e (sz - 1) (mem s6);
     n \<leftarrow> kstrlen m7 (fname + sz);
     let m8 = store32 (e + 28) 0 (kmemcpy (fname + sz) (e + 8) n m7);
     s9 \<leftarrow> set_next_cluster32 d cluster (- 1) fat (s6\<lparr>mem := m8\<rparr>);
     let m10 = store16 (e + 20) (ucast (drop_bit 16 cluster AND 0xffff))
                 (store16 (e + 26) (ucast (cluster AND 0xffff)) (mem s9));
     let (ret, s11) = sys_kmalloc 1 6 (s9\<lparr>mem := m10\<rparr>);
     let s12 = set_file ret (\<lambda>ff. ff\<lparr>f_dirent := load_dirent (mem s11) e, f_fs_type := FS_FAT32, f_mode := 1,
                 f_permission := 6, f_position := 0, position_in_cluster := 0, start_cluster := cluster,
                 current_cluster := cluster\<rparr>) s11;
     (_, s13) \<leftarrow> fat32_write d (file_at s12 ret) (filesize_bytes (f_dirent (file_at s12 rdir))) dirents fat s12;
     s14 \<leftarrow> sys_kfree rdir s13;
     s15 \<leftarrow> sys_kfree dirents s14;
     Some (ret, s15) }"

subsection \<open>Mounting\<close>

text \<open>The boot sector's fields at their packed offsets.\<close>

definition bpb_bytes_per_sector :: "mem \<Rightarrow> ptr \<Rightarrow> u16" where
  "bpb_bytes_per_sector m b = load16 m (b + 11)"

definition bpb_sectors_per_cluster :: "mem \<Rightarrow> ptr \<Rightarrow> u8" where
  "bpb_sectors_per_cluster m b = m (b + 13)"

definition bpb_reserved :: "mem \<Rightarrow> ptr \<Rightarrow> u16" where "bpb_reserved m b = load16 m (b + 14)"
definition bpb_fat_c :: "mem \<Rightarrow> ptr \<Rightarrow> u8" where "bpb_fat_c m b = m (b + 16)"
definition bpb_root_dir_entries :: "mem \<Rightarrow> ptr \<Rightarrow> u16" where "bpb_root_dir_entries m b = load16 m (b + 17)"
definition bpb_sectors_in_vol :: "mem \<Rightarrow> ptr \<Rightarrow> u16" where "bpb_sectors_in_vol m b = load16 m (b + 19)"
definition bpb_sectors_per_fat :: "mem \<Rightarrow> ptr \<Rightarrow> u16" where "bpb_sectors_per_fat m b = load16 m (b + 22)"
definition bpb_lba_beginning :: "mem \<Rightarrow> ptr \<Rightarrow> u32" where "bpb_lba_beginning m b = load32 m (b + 28)"
definition bpb_large_sector_count :: "mem \<Rightarrow> ptr \<Rightarrow> u32" where "bpb_large_sector_count m b = load32 m (b + 32)"
definition ebpb_sectors_per_fat :: "mem \<Rightarrow> ptr \<Rightarrow> u32" where "ebpb_sectors_per_fat m b = load32 m (b + 36)"
definition ebpb_root_dir_cluster :: "mem \<Rightarrow> ptr \<Rightarrow> u32" where "ebpb_root_dir_cluster m b = load32 m (b + 44)"
definition ebpb_sector_FSInfo :: "mem \<Rightarrow> ptr \<Rightarrow> u16" where "ebpb_sector_FSInfo m b = load16 m (b + 48)"

text \<open>The fields \<open>fat32_register\<close> fills in from the boot sector at \<open>b\<close> and the information sector at
  \<open>i\<close>.\<close>

definition fat32_fields :: "mem \<Rightarrow> ptr \<Rightarrow> ptr \<Rightarrow> fs_fat \<Rightarrow> fs_fat" where
  "fat32_fields m b i f =
     (let fat_size = ebpb_sectors_per_fat m b;
          fats = ucast (bpb_fat_c m b) * fat_size;
          data_sectors = ucast (bpb_sectors_in_vol m b) - (ucast (bpb_reserved m b) + fats);
          root = ebpb_root_dir_cluster m b
      in f\<lparr>first_data_sector := fats,
           fat_offset_primary := ucast (bpb_reserved m b),
           fat_sectors_per_fat := ucast fat_size,
           total_clusters := data_sectors div ucast (bpb_sectors_per_cluster m b),
           sector_size_bytes := ucast (bpb_bytes_per_sector m b),
           root_dir_cluster := root,
           sectors_per_cluster := ucast (bpb_sectors_per_cluster m b),
           fat_cache_size := (if bpb_sectors_per_fat m b < 2048 then ucast (bpb_sectors_per_fat m b) else 2048),
           fat_offset_secondary := (if bpb_fat_c m b > 1 then ucast (bpb_reserved m b) + fat_size
                                    else fat_offset_secondary f),
           root_file := (root_file f)\<lparr>start_cluster := root, current_cluster := root,
             f_dirent := (f_dirent (root_file f))\<lparr>filesize_bytes := 4096,
               de_name := 47 # 0 # drop 2 (de_name (f_dirent (root_file f)))\<rparr>,
             f_fs_type := FS_FAT32, f_mode := 6, f_permission := 6, f_position := 0\<rparr>,
           last_free_cluster := load32 m (i + 492)\<rparr>)"

definition fat32_register ::
    "device \<Rightarrow> ptr \<Rightarrow> int \<Rightarrow> ptr \<Rightarrow> u32 \<Rightarrow> 'a storage_scheme \<Rightarrow> (ptr \<times> 'a storage_scheme) option" where
  "fat32_register d fs drive buffer partition_start_lba s = do {
     let (fsinfo, s1) = sys_kmalloc 8 6 s;
     s2 \<leftarrow> (if bpb_lba_beginning (mem s1) buffer = 0 \<and> partition_start_lba \<noteq> 0 then
              map_option snd (write_to_drive d buffer 1 partition_start_lba drive
                ((printf (line ''Bad Start... Rewriting!'') [] s1)
                  \<lparr>mem := store32 (buffer + 28) partition_start_lba (mem s1)\<rparr>))
            else Some s1);
     (r, s3) \<leftarrow> read_from_drive d fsinfo 7
       (ucast (ebpb_sector_FSInfo (mem s2) buffer) + bpb_lba_beginning (mem s2) buffer) drive s2;
     if r = 0 then
       Some (0, printf (line ''[lOSt] Error mounting FAT Partition: Error Reading from Disk'') [] s3)
     else if bpb_sectors_per_cluster (mem s3) buffer = 0 then None
     else Some (fs, set_fs fs (fat32_fields (mem s3) buffer fsinfo) s3) }"

text \<open>\<open>fat32_create_fs\<close> has no statement, not even a return: its value is whatever the caller finds.\<close>

definition fat32_create_fs :: "u8 \<Rightarrow> ptr \<Rightarrow> u32 \<Rightarrow> u8" where
  "fat32_create_fs garbage drive part = garbage"

section \<open>Properties\<close>

subsection \<open>Opening a file\<close>

text \<open>A scan over delimiters finds the first other character, whatever follows it: the copy of the name
  \<open>fat32_open_file\<close> makes has no terminator.\<close>

lemma kstrtok_skip_found:
  assumes "cstr_at m delim ds" and "c \<notin> set ds" and "c \<noteq> 0"
  shows "bytes_at m t xs \<Longrightarrow> set xs \<subseteq> set ds \<Longrightarrow> m (t + of_nat (length xs)) = c \<Longrightarrow>
    kstrtok_skip m delim t = Some (Some (t + of_nat (length xs)))"
proof (induction xs arbitrary: t)
  case Nil
  then show ?case using assms by (subst kstrtok_skip.simps) simp
next
  case (Cons x xs)
  then have "kstrtok_skip m delim (t + 1) = Some (Some (t + 1 + of_nat (length xs)))"
    by (intro Cons.IH) (simp_all add: add.assoc)
  then show ?case using Cons.prems assms by (subst kstrtok_skip.simps) (simp add: add.assoc)
qed

lemma kstrtok_found:
  assumes "cstr_at m delim ds" and "bytes_at m t cs" and "c \<in> set cs" and "c \<notin> set ds" and "0 \<notin> set cs"
    and "t \<noteq> 0" and "kstrtok t delim st m = Some (r, st', m')"
  shows "\<exists>i < length cs. r = t + of_nat i"
proof -
  obtain xs c' ys where cs: "cs = xs @ c' # ys" "c' \<notin> set ds" "\<forall>x \<in> set xs. x \<in> set ds"
    using split_list_first_prop [of cs "\<lambda>c. c \<notin> set ds"] assms(3,4) by blast
  have "kstrtok_skip m delim t = Some (Some (t + of_nat (length xs)))"
    by (rule kstrtok_skip_found [OF assms(1) cs(2)]) (use assms(2,5) cs in auto)
  then have "r = t + of_nat (length xs)"
    using assms(6,7) by (auto simp: kstrtok_def split: Option.bind_splits)
  then show ?thesis using cs(1) by (intro exI [of _ "length xs"]) simp
qed

lemma count_dirents_Some: "count_dirents m dirents n = Some k \<Longrightarrow> m dirents = 0 \<and> k = n"
proof (rule count_dirents.raw_induct
    [where P = "\<lambda>m dirents n k. m dirents = 0 \<and> k = n"], goal_cases)
  case (1 cont m dirents n k)
  from 1(3) show ?case using 1(2) by (auto split: if_splits)
qed

lemma search_dir_empty: "search_dir m file dir 0 = Some r \<Longrightarrow> r = 0"
  by (auto simp: search_dir_def split: Option.bind_splits)

lemma walk_path_finds_nothing:
  assumes "walk_path d slash dirents fat token e s = Some (found, s')" and "token \<noteq> 0"
  shows "found = None"
  using assms
  by (subst (asm) walk_path.simps)
    (auto simp: Let_def split: Option.bind_splits prod.splits if_splits
      dest!: count_dirents_Some search_dir_empty)

lemma unat_page_addr: "unat (page_addr i) mod 4096 = 0"
proof -
  have "uint (page_addr i) = i * 4096 mod 2 ^ 32"
    unfolding page_addr_def uint_word_of_int by (simp add: take_bit_eq_mod)
  also have "\<dots> mod 4096 = 0" by (simp add: mod_mod_cancel)
  finally have "int (unat (page_addr i)) mod 4096 = 0" by (simp only: uint_nat)
  then show ?thesis by presburger
qed

text \<open>Within a page there is no null pointer.\<close>

lemma page_offset_not_null:
  assumes "a = page_addr i" and "a \<noteq> 0" and "k < 4096"
  shows "a + of_nat k \<noteq> 0"
proof
  assume z: "a + of_nat k = 0"
  have "unat a + k < 2 ^ 32"
  proof -
    have "unat a < 2 ^ 32" "unat a mod 4096 = 0" using assms(1) unat_page_addr unat_lt_u32 by auto
    then have "unat a div 4096 < 1048576" "unat a = 4096 * (unat a div 4096)" by auto
    with assms(3) have "unat a + k < 4294967296" by linarith
    then show ?thesis by simp
  qed
  moreover have "unat (a + of_nat k) = (unat a + k) mod 2 ^ 32"
    using assms(3) by (simp add: unat_word_ariths unat_of_nat mod_add_right_eq)
  ultimately have "unat a = 0" using z by simp
  with assms(2) show False by (simp add: unat_eq_0)
qed

lemma sys_kmalloc_addr:
  "sys_kmalloc n perms s = (a, s') \<Longrightarrow> a \<noteq> 0 \<Longrightarrow> \<exists>i. a = page_addr i"
  by (auto simp: sys_kmalloc_def kmalloc_def split: option.splits)

lemma sys_kmalloc_frame:
  "sys_kmalloc n perms s = (a, s') \<Longrightarrow> \<exists>m. s' = s\<lparr>mmgr := m\<rparr>"
  by (auto simp: sys_kmalloc_def split: prod.splits)

lemma fat32_open_file_nothing:
  assumes name: "cstr_at (mem s) filename cs" "length cs < 4096" "c \<in> set cs" "c \<noteq> 47"
    and slash: "cstr_at (mem s) slash [47]"
    and al: "sys_kmalloc 1 6 s = (str, s1)" "str \<noteq> 0"
    and apart: "apart filename (length cs) str (length cs)" "apart slash 2 str (length cs)"
    and ret: "fat32_open_file d slash dirent0 filename fat mode s = Some (r, s')"
  shows "r = 0"
proof (cases "fat = 0 \<or> filename = 0")
  case True
  then show ?thesis using ret by (simp add: fat32_open_file_def)
next
  case False
  obtain m1 where s1: "s1 = s\<lparr>mmgr := m1\<rparr>" using sys_kmalloc_frame [OF al(1)] by blast
  have ne: "cs \<noteq> [47]" using name(3,4) by auto
  obtain q where q: "kstrcmp (mem s) filename slash = Some q" "q \<noteq> 0"
    using kstrcmp_cstr [OF name(1) slash] ne by blast
  let ?n = "of_nat (length cs) :: u32"
  have len: "nat (sint ?n) = length cs" "sint ?n sdiv 4096 + 1 = 1"
  proof -
    have "sint ?n = int (length cs)" using name(2) by (intro sint_of_nat_u32) simp
    then show "nat (sint ?n) = length cs" "sint ?n sdiv 4096 + 1 = 1"
      using name(2) by (simp_all add: signed_divide_int_def)
  qed
  let ?m = "kmemcpy filename str ?n (mem s)"
  have up: "copies_up filename str (nat (sint ?n))" using apart(1) by (simp add: len apart_copies_up)
  have "bytes_at (mem s) filename cs" using name(1) by (simp add: cstr_at_def)
  then have copy: "bytes_at ?m str cs" using kmemcpy_bytes_at [OF up] by (simp add: len)
  have lit: "cstr_at ?m slash [47]"
  proof (subst cstr_at_cong)
    fix x assume "in_region slash (Suc (length [47 :: u8])) x"
    then have "\<not> in_region str (nat (sint ?n)) x" using apart(2) by (simp add: apart_iff len numeral_2_eq_2)
    then show "?m x = mem s x" by (rule kmemcpy_frame [OF up])
  qed (use slash in simp_all)
  let ?s2 = "s1\<lparr>mem := ?m\<rparr>"
  obtain token s3 where tok: "sys_kstrtok str slash ?s2 = Some (token, s3)"
    using ret False q al(1) name(1) len(2)
    by (auto simp: fat32_open_file_def s1 Let_def split: Option.bind_splits)
  obtain dirents s4 where "sys_kmalloc (sint (sector_size_bytes (fs_at s3 fat) *
      sectors_per_cluster (fs_at s3 fat) * 2048 div 4096)) 6 s3 = (dirents, s4)" by fastforce
  then obtain found s5 where walk: "walk_path d slash dirents fat token dirent0 s4 = Some (found, s5)"
    "found = None \<longrightarrow> r = 0"
    using ret False q al(1) name(1) len(2) tok
    by (auto simp: fat32_open_file_def s1 Let_def split: Option.bind_splits option.splits)
  obtain i where "i < length cs" "token = str + of_nat i"
  proof -
    obtain st m' where "kstrtok str slash (tok_rest s) ?m = Some (token, st, m')"
      using tok by (auto simp: sys_kstrtok_def s1 split: Option.bind_splits)
    from kstrtok_found [OF lit copy name(3) _ _ al(2) this] name(1,4) that show ?thesis
      by (auto simp: cstr_at_def)
  qed
  moreover obtain j where "str = page_addr j" using sys_kmalloc_addr [OF al] by blast
  ultimately have "token \<noteq> 0" using page_offset_not_null al(2) name(2) by auto
  with walk walk_path_finds_nothing show ?thesis by blast
qed

text \<open>No file can be opened by name. For a path with a component (a character other than
  the slash) \<open>fat32_open_file\<close> either never returns or returns 0: the loop that should count the
  entries of the directory ends only if there is none.\<close>

theorem fat32_open_file_finds_nothing:
  assumes name: "cstr_at (mem s) filename cs" "length cs < 4096" "c \<in> set cs" "c \<noteq> 47"
    and slash: "cstr_at (mem s) slash [47]"
    and al: "sys_kmalloc 1 6 s = (str, s1)" "str \<noteq> 0"
    and apart: "apart filename (length cs) str (length cs)" "apart slash 2 str (length cs)"
    and ret: "fat32_open_file d slash dirent0 filename fat mode s = Some (r, s')"
  shows "r = 0"
  by (rule fat32_open_file_nothing [OF assms])

subsection \<open>Searching a directory\<close>

lemma find_dot_cstr:
  "cstr_at m a cs \<Longrightarrow> 46 \<notin> set cs \<Longrightarrow> find_dot m a = Some 0"
proof (induction cs arbitrary: a)
  case Nil
  then show ?case by (subst find_dot.simps) simp
next
  case (Cons c cs)
  then show ?case by (subst find_dot.simps) (auto simp: cstr_at_Cons)
qed

lemma find_dot_found:
  "cstr_at m a (nm @ 46 # ext) \<Longrightarrow> 46 \<notin> set nm \<Longrightarrow> find_dot m a = Some (a + of_nat (length nm))"
proof (induction nm arbitrary: a)
  case Nil
  then show ?case by (subst find_dot.simps) (simp add: cstr_at_Cons)
next
  case (Cons c nm)
  then show ?case by (subst find_dot.simps) (auto simp: cstr_at_Cons add.assoc)
qed

lemma kmemcmp_first_differs:
  assumes "m a \<noteq> m b" and "0 < sint n"
  shows "kmemcmp m a b n \<noteq> 0"
proof -
  obtain k where "nat (sint n) = Suc k" using assms(2) by (cases "nat (sint n)") auto
  moreover have "(ucast (m a) :: u32) \<noteq> ucast (m b)" using assms(1) by (simp add: ucast_u8_u32_inj)
  ultimately show ?thesis using assms(1) by (simp add: kmemcmp_def)
qed

text \<open>No name with an extension is ever found: \<open>search_dir\<close> compares both the name and the
  extension, dot included, with the beginning of the entry's name, so an entry would have to begin
  with two different characters.\<close>

theorem search_dir_finds_no_extension:
  assumes "cstr_at m file (nm @ 46 # ext)" and "46 \<notin> set nm" and "nm \<noteq> []"
    and "length nm + length ext + 1 < 2 ^ 31" and "file + of_nat (length nm) \<noteq> 0"
  shows "search_dir m file dir n = Some 0"
proof -
  let ?e = "file + of_nat (length nm)"
  have ext: "cstr_at m ?e (46 # ext)" using cstr_at_drop [OF assms(1), of "length nm"] by simp
  have first: "m file \<noteq> 46" using assms(1-3) by (cases nm) (auto simp: cstr_at_Cons)
  have pos: "0 < sint (of_nat (length nm) :: u32)" "0 < sint (of_nat (Suc (length ext)) :: u32)"
    using assms(3,4) by (subst sint_of_nat_u32; simp)+
  have "search_dir_loop m file ?e dir k = Some 0" for k
  proof (induction k arbitrary: dir)
    case (Suc k)
    have "kmemcmp m file dir (of_nat (length nm)) \<noteq> 0
        \<or> kmemcmp m ?e dir (of_nat (Suc (length ext))) \<noteq> 0"
    proof (cases "m dir = 46")
      case True
      with first pos(1) show ?thesis by (intro disjI1 kmemcmp_first_differs) simp_all
    next
      case False
      with ext pos(2) show ?thesis by (intro disjI2 kmemcmp_first_differs) (simp_all add: cstr_at_Cons)
    qed
    with Suc.IH ext assms(5) show ?case by auto
  qed simp
  then show ?thesis using find_dot_found [OF assms(1,2)] by (simp add: search_dir_def)
qed

text \<open>A name without a dot matches any entry: the length compared is 0 minus the name's
  address, which is negative for addresses up to 2 GB, and nothing is compared.\<close>

theorem search_dir_matches_anything:
  assumes "cstr_at m file cs" and "46 \<notin> set cs" and "0 < file" and "file \<le> 2 ^ 31"
  shows "search_dir m file dir n = Some (if n = 0 then 0 else dir)"
proof -
  have "nat (sint (- file)) = 0"
  proof -
    have "0 < uint file" "uint file \<le> 2 ^ 31"
      using assms(3,4) by (simp_all add: word_less_def word_le_def)
    moreover have "- file = word_of_int (- uint file)" by simp
    then have "sint (- file) = signed_take_bit 31 (- uint file)"
      by (simp only: signed_of_int of_int_eq_id id_apply) simp
    ultimately have "sint (- file) = - uint file" by (simp add: signed_take_bit_int_eq_self)
    then show ?thesis by simp
  qed
  then have none: "kmemcmp m file dir (0 - file) = 0" by (simp add: kmemcmp_def)
  have "search_dir_loop m file 0 dir k = Some (if k = 0 then 0 else dir)" for k
    using none by (cases k) simp_all
  then show ?thesis using find_dot_cstr [OF assms(1,2)] by (simp add: search_dir_def unat_eq_0)
qed

subsection \<open>The cached table\<close>

text \<open>The code takes the entry of a cluster to be in the cache, and what it then reads.\<close>

definition cached :: "'a storage_scheme \<Rightarrow> ptr \<Rightarrow> u32 \<Rightarrow> bool" where
  "cached s fat c \<longleftrightarrow> sector_size_bytes (fs_at s fat) \<noteq> 0 \<and> \<not> cache_misses (fs_at s fat) c"

definition cached_next :: "'a storage_scheme \<Rightarrow> ptr \<Rightarrow> u32 \<Rightarrow> u32" where
  "cached_next s fat c = load32 (mem s) (cache_slot (fs_at s fat) c)"

lemma get_next_cached: "cached s fat c \<Longrightarrow> get_next_cluster32 d c fat s = Some (cached_next s fat c, s)"
  by (simp add: cached_def cached_next_def get_next_cluster32_def)

lemma cache_slot_word:
  "cache_slot f c = fat_cache f + 4 * of_nat (unat (c - cache_base f))"
  by (simp add: cache_slot_def)

text \<open>Claim C28: in the cached part of the table, setting the successor of a cluster and reading it
  gives the value set (the end mark if it is the cluster itself), and the successors of the other
  cached clusters are as before.\<close>

theorem next_cluster_roundtrip:
  assumes "cached s fat c"
  shows "\<exists>s'. set_next_cluster32 d c n fat s = Some s'
    \<and> get_next_cluster32 d c fat s' = Some (if c = n then - 1 else n, s')
    \<and> (\<forall>c'. cached s fat c' \<longrightarrow> c' \<noteq> c \<longrightarrow> unat (c - cache_base (fs_at s fat)) < 2 ^ 29 \<longrightarrow>
          unat (c' - cache_base (fs_at s fat)) < 2 ^ 29 \<longrightarrow>
          get_next_cluster32 d c' fat s' = Some (cached_next s fat c', s'))"
proof -
  let ?s' = "s\<lparr>mem := store32 (cache_slot (fs_at s fat) c) (if c = n then - 1 else n) (mem s)\<rparr>"
  have set: "set_next_cluster32 d c n fat s = Some ?s'"
    using assms by (simp add: cached_def set_next_cluster32_def)
  have keep: "cached ?s' fat x = cached s fat x" for x by (simp add: cached_def)
  have get: "get_next_cluster32 d x fat ?s' = Some (cached_next ?s' fat x, ?s')" if "cached s fat x" for x
    by (rule get_next_cached) (use that in \<open>simp only: keep\<close>)
  have "cached_next ?s' fat c' = cached_next s fat c'"
    if "c' \<noteq> c" "unat (c - cache_base (fs_at s fat)) < 2 ^ 29" "unat (c' - cache_base (fs_at s fat)) < 2 ^ 29"
    for c'
  proof -
    have "unat (c - cache_base (fs_at s fat)) \<noteq> unat (c' - cache_base (fs_at s fat))"
      using that(1) by (simp flip: word_unat_eq_iff)
    from load32_store32_word [OF this that(2,3)] show ?thesis
      unfolding cached_next_def cache_slot_word by simp
  qed
  with set get [OF assms] get show ?thesis by (intro exI [of _ ?s']) (simp add: cached_next_def)
qed

lemma find_free_loop_cached:
  assumes "\<And>j. j < k \<Longrightarrow> cached s fat (i + of_nat j)"
  shows "\<exists>r. find_free_loop d fat c i k s = Some (r, s)
    \<and> ((\<exists>j < k. r = i + of_nat j \<and> cached_next s fat r = 0
          \<and> (\<forall>x < j. cached_next s fat (i + of_nat x) \<noteq> 0))
       \<or> r = c \<and> (\<forall>j < k. cached_next s fat (i + of_nat j) \<noteq> 0))"
  using assms
proof (induction k arbitrary: i)
  case (Suc k)
  have i: "get_next_cluster32 d i fat s = Some (cached_next s fat i, s)"
    using Suc.prems [of 0] by (intro get_next_cached) simp
  have shift: "i + 1 + of_nat j = i + of_nat (Suc j)" for j by (simp add: add.assoc)
  show ?case
  proof (cases "cached_next s fat i = 0")
    case True
    with i show ?thesis by (intro exI [of _ i]) (auto intro: exI [of _ 0])
  next
    case False
    obtain r where r: "find_free_loop d fat c (i + 1) k s = Some (r, s)"
      "(\<exists>j < k. r = i + of_nat (Suc j) \<and> cached_next s fat r = 0
          \<and> (\<forall>x < j. cached_next s fat (i + of_nat (Suc x)) \<noteq> 0))
       \<or> r = c \<and> (\<forall>j < k. cached_next s fat (i + of_nat (Suc j)) \<noteq> 0)"
      using Suc.IH [of "i + 1"] Suc.prems [of "Suc _"] unfolding shift by blast
    have all: "(\<forall>x < Suc j. cached_next s fat (i + of_nat x) \<noteq> 0)"
      if "\<forall>x < j. cached_next s fat (i + of_nat (Suc x)) \<noteq> 0" for j
      using that False by (auto simp: less_Suc_eq_0_disj)
    show ?thesis
      using r(2)
    proof (elim disjE exE conjE)
      fix j assume "j < k" "r = i + of_nat (Suc j)" "cached_next s fat r = 0"
        "\<forall>x < j. cached_next s fat (i + of_nat (Suc x)) \<noteq> 0"
      then show ?thesis
        using r(1) i False all by (intro exI [of _ r] conjI disjI1 exI [of _ "Suc j"]) simp_all
    next
      assume "r = c" "\<forall>j < k. cached_next s fat (i + of_nat (Suc j)) \<noteq> 0"
      then show ?thesis using r(1) i False all by (intro exI [of _ r] conjI disjI2) simp_all
    qed
  qed
qed simp

lemma find_free_cluster_first:
  assumes "i = (if last_free_cluster (fs_at s fat) = - 1 then 0 else last_free_cluster (fs_at s fat))"
    and "\<And>c. i \<le> c \<Longrightarrow> c < total_clusters (fs_at s fat) \<Longrightarrow> cached s fat c"
  shows "\<exists>r. fat32_find_free_cluster d fat s = Some (r, set_fs fat (\<lambda>f. f\<lparr>last_free_cluster := r\<rparr>) s)
    \<and> (i \<le> r \<and> r < total_clusters (fs_at s fat) \<and> cached_next s fat r = 0
         \<and> (\<forall>c. i \<le> c \<longrightarrow> c < r \<longrightarrow> cached_next s fat c \<noteq> 0)
       \<or> r = last_free_cluster (fs_at s fat)
         \<and> (\<forall>c. i \<le> c \<longrightarrow> c < total_clusters (fs_at s fat) \<longrightarrow> cached_next s fat c \<noteq> 0))"
proof -
  let ?t = "total_clusters (fs_at s fat)" and ?l = "last_free_cluster (fs_at s fat)"
  let ?k = "unat ?t - unat i"
  have off: "i \<le> i + of_nat j" "unat (i + of_nat j) = unat i + j" if "j < ?k" for j
  proof -
    have "unat i + j < 4294967296" using that unat_lt_u32 [of ?t] by linarith
    then show u: "unat (i + of_nat j) = unat i + j" by (simp add: unat_add_u32 unat_of_nat)
    then show "i \<le> i + of_nat j" by (simp add: word_le_nat_alt)
  qed
  have le: "\<exists>j < unat r - unat i. c = i + of_nat j" if "i \<le> c" "c < r" for c r :: u32
    using that by (intro exI [of _ "unat c - unat i"])
      (auto simp: word_le_nat_alt word_less_nat_alt of_nat_diff intro!: diff_less_mono)
  have "cached s fat (i + of_nat j)" if "j < ?k" for j
    using off [OF that] that by (intro assms(2)) (simp_all add: word_less_nat_alt)
  from find_free_loop_cached [OF this, of ?k d ?l] obtain r where
    r: "find_free_loop d fat ?l i ?k s = Some (r, s)"
    "(\<exists>j < ?k. r = i + of_nat j \<and> cached_next s fat r = 0
        \<and> (\<forall>x < j. cached_next s fat (i + of_nat x) \<noteq> 0))
     \<or> r = ?l \<and> (\<forall>j < ?k. cached_next s fat (i + of_nat j) \<noteq> 0)" by blast
  have res: "fat32_find_free_cluster d fat s = Some (r, set_fs fat (\<lambda>f. f\<lparr>last_free_cluster := r\<rparr>) s)"
    using r(1) assms(1) by (simp add: fat32_find_free_cluster_def Let_def)
  show ?thesis
    using r(2)
  proof (elim disjE exE conjE)
    fix j assume j: "j < ?k" "r = i + of_nat j" "cached_next s fat r = 0"
      "\<forall>x < j. cached_next s fat (i + of_nat x) \<noteq> 0"
    have "cached_next s fat c \<noteq> 0" if "i \<le> c" "c < r" for c
      using le [OF that] j(2,4) off [OF j(1)] by auto
    then show ?thesis using res j off [OF j(1)] by (intro exI [of _ r]) (auto simp: word_less_nat_alt)
  next
    assume "r = ?l" "\<forall>j < ?k. cached_next s fat (i + of_nat j) \<noteq> 0"
    then show ?thesis using res le by (intro exI [of _ r]) blast
  qed
qed


text \<open>The cache is filled but never kept.\<close>

lemma set_fs_fat_cache:
  "fat_cache (fs_at (set_fs fat (\<lambda>f. f\<lparr>cached_clusters_start := c\<rparr>) s) a) = fat_cache (fs_at s a)"
  by (simp add: set_fs_def)

lemma cache_fat32_keeps_pointer:
  assumes "cache_fat32 d fat start s = Some s'"
  shows "fat_cache (fs_at s' fat) = fat_cache (fs_at s fat)"
proof -
  obtain b s1 where b: "(if fat_cache (fs_at s fat) = 0 then sys_kmalloc (sint (fat_cache_size (fs_at s fat) div 8 + 1)) 6 s
      else (fat_cache (fs_at s fat), s)) = (b, s1)" by fastforce
  then have s1: "fs_at s1 = fs_at s" by (auto split: if_splits dest!: sys_kmalloc_frame)
  obtain n start' dr s2 r where
    "read_from_drive d b n start' dr (set_fs fat (\<lambda>f. f\<lparr>cached_clusters_start := start\<rparr>) s2) = Some (r, s')"
    "fs_at s2 = fs_at s"
    using assms b s1
    by (auto simp: cache_fat32_def Let_def printf_def split: if_splits)
  then show ?thesis
    using others_storage(6) [OF others_drive(1)] by (metis set_fs_fat_cache set_fs_def)
qed

text \<open>\<open>cache_fat32\<close> reads the table into a page it then forgets. A file system without a
  cache still has none afterwards, and the successor of a cluster is read from the first bytes of
  memory, wherever the table's null pointer leads.\<close>

theorem fat_cache_never_kept:
  assumes "fat_cache (fs_at s fat) = 0" and "get_next_cluster32 d c fat s = Some (v, s')"
  shows "fat_cache (fs_at s' fat) = 0 \<and> v = load32 (mem s') (4 * (c - cache_base (fs_at s' fat)))"
proof -
  have "fat_cache (fs_at s' fat) = 0"
    using assms by (auto simp: get_next_cluster32_def split: if_splits Option.bind_splits
        dest!: cache_fat32_keeps_pointer)
  moreover have "v = load32 (mem s') (cache_slot (fs_at s' fat) c)"
    using assms(2) by (auto simp: get_next_cluster32_def split: if_splits Option.bind_splits)
  ultimately show ?thesis by (simp add: cache_slot_def)
qed

subsection \<open>Reading\<close>

lemma read_ramdisk:
  "d_type (drive_at s (drives s drive)) = DRIVE_VIRT \<Longrightarrow>
   read_from_drive d b n start drive s = Some (0, ramdisk_read start b n s)"
  by (simp add: read_from_drive_def drive_type_defs ecode_defs)

lemma ramdisk_read_frame [simp]:
  "drive_at (ramdisk_read p b n s) = drive_at s" "drives (ramdisk_read p b n s) = drives s"
  "fs_at (ramdisk_read p b n s) = fs_at s" "ramdisk (ramdisk_read p b n s) = ramdisk s"
  by (simp_all add: ramdisk_read_def)

lemma ramdisk_read_outside:
  assumes "512 * unat n < 2 ^ 32" and "apart (ramdisk_addr pos s) (512 * unat n) b (512 * unat n)"
    and "\<not> in_region b (512 * unat n) x"
  shows "mem (ramdisk_read pos b n s) x = mem s x"
  using copy_words_load(2) [of "128 * unat n" "ramdisk_addr pos s" b x] assms
  by (simp add: ramdisk_read_def sector_words)

text \<open>The table is in the cache and no buffer overlaps it.\<close>

lemma cached_after_read:
  assumes "512 * unat n < 2 ^ 32" and "apart (ramdisk_addr pos s) (512 * unat n) b (512 * unat n)"
    and "apart (cache_slot (fs_at s fat) c) 4 b (512 * unat n)"
  shows "cached_next (ramdisk_read pos b n s) fat c = cached_next s fat c"
  unfolding cached_next_def ramdisk_read_frame
proof (rule load32_cong)
  fix x assume "in_region (cache_slot (fs_at s fat) c) 4 x"
  then have "\<not> in_region b (512 * unat n) x" using assms(3) by (simp add: apart_iff)
  then show "mem (ramdisk_read pos b n s) x = mem s x" by (rule ramdisk_read_outside [OF assms(1,2)])
qed


subsection \<open>Mounting\<close>

text \<open>A FAT32 volume on the RAM disk is never mounted: \<open>read_from_drive\<close> returns 0 for a
  successful read of the RAM disk, which \<open>fat32_register\<close> takes for an error. It returns 0 and
  leaves the file system's structure as it was.\<close>

theorem fat32_register_refuses_ramdisk:
  assumes "d_type (drive_at s (drives s drive)) = DRIVE_VIRT"
  shows "\<exists>s'. fat32_register d fs drive buffer lba s = Some (0, s') \<and> fs_at s' = fs_at s"
proof -
  obtain fsinfo s1 where al: "sys_kmalloc 8 6 s = (fsinfo, s1)" by fastforce
  obtain m1 where s1: "s1 = s\<lparr>mmgr := m1\<rparr>" using sys_kmalloc_frame [OF al] by blast
  show ?thesis
    using assms al
    by (simp add: fat32_register_def s1 read_ramdisk write_to_drive_def drive_type_defs printf_def
        ramdisk_write_def Let_def)
qed

end
