(* ===== verification/Storage.thy ===== *)
theory Storage
  imports Fat
begin

text \<open>
  The rest of \<open>kernel/drivers/storage.c\<close>: finding file systems on a drive, registering drives, the
  RAM disk's drive, and the calls \<open>fopen\<close>, \<open>fread\<close>, \<open>fwrite\<close>; and the identification of disks in
  \<open>kernel/drivers/ata.c\<close>, which registers what it finds.
\<close>

section \<open>The code\<close>

subsection \<open>File systems\<close>

text \<open>Entry \<open>j\<close> of the partition table of the boot record at \<open>mbr\<close>.\<close>

definition part_entry :: "ptr \<Rightarrow> u32 \<Rightarrow> ptr" where
  "part_entry mbr j = mbr + 446 + 16 * j"

definition part_type :: "mem \<Rightarrow> ptr \<Rightarrow> u32 \<Rightarrow> u8" where
  "part_type m mbr j = m (part_entry mbr j + 4)"

definition part_start_lba :: "mem \<Rightarrow> ptr \<Rightarrow> u32 \<Rightarrow> u32" where
  "part_start_lba m mbr j = load32 m (part_entry mbr j + 8)"

definition part_size :: "mem \<Rightarrow> ptr \<Rightarrow> u32 \<Rightarrow> u32" where
  "part_size m mbr j = load32 m (part_entry mbr j + 12)"

text \<open>The clusters of the volume whose boot sector is at \<open>b\<close>. The number of root directory sectors is
  compared with 0, so it is 1 for a directory without entries and 0 for any other.\<close>

definition fat_clusters :: "mem \<Rightarrow> ptr \<Rightarrow> u32" where
  "fat_clusters m b =
     (let fat_size = (if bpb_sectors_per_fat m b = 0 then ebpb_sectors_per_fat m b
                      else ucast (bpb_sectors_per_fat m b));
          bps = ucast (bpb_bytes_per_sector m b);
          root_dir_sectors = (if (ucast (bpb_root_dir_entries m b) * 32 + (bps - 1)) div bps = (0 :: u32)
                              then 1 else 0);
          sectors = (if bpb_sectors_in_vol m b = 0 then bpb_large_sector_count m b
                     else ucast (bpb_sectors_in_vol m b));
          data_sectors = sectors
            - (ucast (bpb_reserved m b) + ucast (bpb_fat_c m b) * fat_size + root_dir_sectors)
      in data_sectors div ucast (bpb_sectors_per_cluster m b))"

definition fat_type :: "u32 \<Rightarrow> u8" where
  "fat_type n = (if n \<le> 0xfff then FS_FAT12 else if n \<le> 0xffff then FS_FAT16 else FS_FAT32)"

definition detect_fs ::
    "device \<Rightarrow> ptr \<Rightarrow> int \<Rightarrow> u32 \<Rightarrow> ptr \<Rightarrow> u8 \<Rightarrow> 'a storage_scheme \<Rightarrow> 'a storage_scheme option" where
  "detect_fs d part_start drive start_sector mbr part s =
     (let id = (case first_slot (filesystems s) 0 26 of Some i \<Rightarrow> i | None \<Rightarrow> 0)
      in if load16 (mem s) (part_start + 1080) = 0xef53 then Some s
         else if bpb_bytes_per_sector (mem s) part_start = 0 \<or> bpb_sectors_per_cluster (mem s) part_start = 0
         then Some s
         else do {
           let ty = fat_type (fat_clusters (mem s) part_start);
           let (fs, s1) = sys_kmalloc 1 6 s;
           let s2 = set_fs fs (\<lambda>f. f\<lparr>fs_size_low := part_size (mem s1) mbr (ucast part), partition := part,
                      start_low := start_sector, mountID := word_of_int id, fs_type := ty\<rparr>) s1;
           (fs', s3) \<leftarrow> (if ty = FS_FAT32 then fat32_register d fs drive part_start start_sector s2
                          else Some (fs, s2));
           s4 \<leftarrow> (if fs' \<noteq> fs then sys_kfree fs s3 else Some s3);
           Some (s4\<lparr>filesystems := (filesystems s4)(id := fs')\<rparr>) })"

subsection \<open>Drives\<close>

text \<open>The loop over the partition table: \<open>k\<close> entries are left.\<close>

fun register_parts ::
    "device \<Rightarrow> ptr \<Rightarrow> int \<Rightarrow> ptr \<Rightarrow> u32 \<Rightarrow> nat \<Rightarrow> 'a storage_scheme \<Rightarrow> 'a storage_scheme option" where
  "register_parts d dr i mbr j 0 s = Some s"
| "register_parts d dr i mbr j (Suc k) s = do {
     let m = mem s;
     let s1 = printf (line ''%s%c%d: LBA Address: %x, Size: %x, Type: %x, %s'')
       [PEntry ''disk_types_ids'' (ucast (d_type (drive_at s dr))), PInt (97 + word_of_int i), PInt j,
        PInt (part_start_lba m mbr j), PInt (part_size m mbr j), PInt (ucast (part_type m mbr j)),
        PStr (if m (part_entry mbr j) AND 0x80 \<noteq> 0 then ''BOOTABLE'' else ''NOT BOOTABLE'')] s;
     s' \<leftarrow> (if part_type m mbr j = 0 \<or> part_type m mbr j = 0x83 \<or> part_type m mbr j = 0x7f then Some s1
       else do {
         let (part_start, s2) = sys_kmalloc 1 7 s1;
         (_, s3) \<leftarrow> read_from_drive d part_start 8 (part_start_lba m mbr j) i s2;
         s4 \<leftarrow> detect_fs d part_start i (part_start_lba (mem s3) mbr j) mbr (ucast j) s3;
         sys_kfree part_start s4 });
     register_parts d dr i mbr (j + 1) k s' }"

definition register_drive ::
    "device \<Rightarrow> ptr \<Rightarrow> 'a storage_scheme \<Rightarrow> (u32 \<times> 'a storage_scheme) option" where
  "register_drive d dr s =
     (let s1 = printf ''[     ] Registering Drive '' [] s
      in case first_slot (drives s1) 0 26 of
           None \<Rightarrow> Some (- 1, printf (CHR 0x0D # line ''[ FAIL ]'') [] s1)
         | Some i \<Rightarrow> do {
             let s2 = set_drive dr (d_number_update (\<lambda>_. word_of_int i)) (s1\<lparr>drives := (drives s1)(i := dr)\<rparr>);
             let s3 = printf (''Number: %x Type: %s, Size: %x'' @ CHR 0x0D # line ''[ DONE ]'')
               [PInt (word_of_int i), PEntry ''disk_types_ids'' (ucast (d_type (drive_at s2 dr))),
                PInt (d_size_low (drive_at s2 dr))] s2;
             let (page, s4) = sys_kmalloc 1 7 s3;
             (mbr, s5) \<leftarrow> read_from_drive d page 1 0 i s4;
             s6 \<leftarrow> register_parts d dr i mbr 0 4 s5;
             Some (0, s6) })"

definition ramdisk_init :: "device \<Rightarrow> u32 \<Rightarrow> 'a storage_scheme \<Rightarrow> (u32 \<times> 'a storage_scheme) option" where
  "ramdisk_init d size_sectors s =
     (let (rd, s0) = sys_kmalloc (sint size_sectors) 7 s; s1 = s0\<lparr>ramdisk := rd\<rparr>
      in if rd = 0 then Some (- 1, printf ''[lOSt]: Failed to allocate memory for RAMDISK'' [] s1)
         else
           let (drive, s2) = sys_kmalloc 1 6 s1
           in if drive = 0
              then Some (- 1, printf (line ''[lOSt]: Failed to initialize RAMDISK data structure'') [] s2)
              else do {
                (_, s3) \<leftarrow> register_drive d drive (set_drive drive (\<lambda>dr. dr\<lparr>bytes_per_sector := 512,
                  contains_pt := False, d_size_high := 0, d_size_low := 512 * 4096, d_type := DRIVE_VIRT\<rparr>) s2);
                Some (0, s3) })"

subsection \<open>Files\<close>

text \<open>\<open>name[0] - 'A'\<close> may be negative or beyond the table, as in the code.\<close>

definition fopen ::
    "device \<Rightarrow> ptr \<Rightarrow> dirent \<Rightarrow> ptr \<Rightarrow> u32 \<Rightarrow> 'a storage_scheme \<Rightarrow> (ptr \<times> 'a storage_scheme) option" where
  "fopen d slash dirent0 name mode s =
     (if name = 0 then Some (0, s)
      else
        let fs = filesystems s (sint (mem s name) - 65);
            ty = fs_type (fs_at s fs)
        in if ty = FS_FAT16 \<or> ty = FS_FAT32 then fat32_open_file d slash dirent0 (name + 2) fs (ucast mode) s
           else Some (0, s))"

definition fwrite ::
    "device \<Rightarrow> ptr \<Rightarrow> ptr \<Rightarrow> u32 \<Rightarrow> 'a storage_scheme \<Rightarrow> (u32 \<times> 'a storage_scheme) option" where
  "fwrite d fp buffer sz s =
     (if fp = 0 then Some (0, s)
      else if f_fs_type (file_at s fp) = FS_FAT32
      then fat32_write d (file_at s fp) sz buffer (filesystems s (uint (f_filesystem_id (file_at s fp)))) s
      else Some (0, s))"

definition fread :: "device \<Rightarrow> ptr \<Rightarrow> ptr \<Rightarrow> u32 \<Rightarrow> 'a storage_scheme \<Rightarrow> 'a storage_scheme option" where
  "fread d fp buffer sz s =
     (if fp = 0 then Some s
      else if f_fs_type (file_at s fp) = FS_FAT32 then do {
        (_, ff, s1) \<leftarrow> fat32_read d (Some (file_at s fp)) sz buffer
          (filesystems s (uint (f_filesystem_id (file_at s fp)))) s;
        Some (set_file fp (\<lambda>_. the ff) s1) }
      else Some s)"

definition init_fs :: "u8 \<Rightarrow> u32 \<Rightarrow> u32 \<Rightarrow> u32 \<Rightarrow> 'a storage_scheme \<Rightarrow> u8" where
  "init_fs garbage drive ty part s =
     (if ty = ucast FS_FAT32 then fat32_create_fs garbage (get_drive (sint drive) s) part else - 1)"

subsection \<open>Identifying disks\<close>

definition identify_command :: "u16 \<Rightarrow> u8 \<Rightarrow> 'a io_scheme \<Rightarrow> 'a io_scheme" where
  "identify_command p head s =
     outb (p + 7) 0xEC (outb (p + 5) 0 (outb (p + 4) 0 (outb (p + 3) 0 (outb (p + 2) 0 (outb (p + 6) head s)))))"

text \<open>What the identification words at \<open>b\<close> say of the drive.\<close>

definition identified :: "mem \<Rightarrow> ptr \<Rightarrow> ata_drive32 \<Rightarrow> ata_drive32" where
  "identified m b dr =
     (let a = (\<lambda>i. load16 m (b + 2 * i));
          pair = (\<lambda>i. ucast (a i) OR push_bit 16 (ucast (a (i + 1)))) :: u32 \<Rightarrow> u32;
          dr1 = dr\<lparr>removable := False, bytes_per_sector := 512\<rparr>
      in if a 83 AND 0x400 \<noteq> 0
         then dr1\<lparr>d_size_high := pair 102, d_size_low := pair 100, d_type := DRIVE_PATA28\<rparr>
         else dr1\<lparr>d_size_low := pair 60, d_type := DRIVE_PATA28\<rparr>)"

fun clear_halves :: "ptr \<Rightarrow> nat \<Rightarrow> mem \<Rightarrow> mem" where
  "clear_halves a 0 m = m"
| "clear_halves a (Suc k) m = clear_halves (a + 2) k (store16 a 0 m)"

definition identify_slave ::
    "device \<Rightarrow> u16 \<Rightarrow> ata_drive32 \<Rightarrow> 'a storage_scheme \<Rightarrow> (u32 \<times> 'a storage_scheme) option" where
  "identify_slave d base master s = do {
     let (sl, s1) = sys_kmalloc 1 7 s;
     let s2 = s1\<lparr>mem := clearmem sl 44 (mem s1)\<rparr>;
     let s3 = set_drive sl (\<lambda>dr. dr\<lparr>base_port := base_port master, command_port := command_port master,
                slave := True\<rparr>) s2;
     let (buffer, s4) = sys_kmalloc 1 7 s3;
     let s5 = read_data d base buffer 256 (s4\<lparr>mem := clear_halves buffer 256 (mem s4)\<rparr>);
     (_, s6) \<leftarrow> register_drive d sl (set_drive sl (identified (mem s5) buffer) s5);
     Some (0, s6) }"

definition ata_identify :: "device \<Rightarrow> ptr \<Rightarrow> 'a storage_scheme \<Rightarrow> (u32 \<times> 'a storage_scheme) option" where
  "ata_identify d drive s =
     (let base = base_port (drive_at s drive);
          sl = (if slave (drive_at s drive) then 1 else 0);
          (st, s1) = inb d (base + 7) (identify_command base (0xA0 OR sl) s)
      in if st = 0 then Some (DE_INVALID_DRIVE, s1)
         else do {
           (res, s2) \<leftarrow> poll_drive_i d base s1;
           if res \<noteq> 0 then Some (res, s2)
           else do {
             let (buffer, s3) = sys_kmalloc 1 7 s2;
             let s4 = read_data d base buffer 256 s3;
             (_, s5) \<leftarrow> register_drive d drive (set_drive drive (identified (mem s4) buffer) s4);
             s6 \<leftarrow> sys_kfree buffer s5;
             let sl' = (if slave (drive_at s6 drive) then 1 else 0);
             let (st', s7) = inb d (base + 7) (identify_command base (0xB0 OR sl') s6);
             if st' = 0 then Some (0, s7) else identify_slave d base (drive_at s7 drive) s7 } })"

definition ata_identify_all :: "device \<Rightarrow> 'a storage_scheme \<Rightarrow> (u32 \<times> 'a storage_scheme) option" where
  "ata_identify_all d s = do {
     let (master, s1) = sys_kmalloc 1 7 s;
     let s2 = s1\<lparr>mem := clearmem master 44 (mem s1)\<rparr>;
     (res, s3) \<leftarrow> ata_identify d master
       (set_drive master (\<lambda>dr. dr\<lparr>base_port := 0x1f0, command_port := 0x3f6\<rparr>) s2);
     Some (if res \<noteq> 0 then res else E_NO_ERR, s3) }"

section \<open>Properties\<close>

subsection \<open>Drives and file systems\<close>

lemma sys_kfree_frame: "sys_kfree a s = Some s' \<Longrightarrow> \<exists>m. s' = s\<lparr>mmgr := m\<rparr>"
  by (auto simp: sys_kfree_def split: Option.bind_splits)

text \<open>Nothing in the search for file systems touches the drives.\<close>

definition same_drives :: "'a storage_scheme \<Rightarrow> 'a storage_scheme \<Rightarrow> bool" where
  "same_drives s s' \<longleftrightarrow> drives s' = drives s \<and> drive_at s' = drive_at s"

lemma same_drives_refl [simp]: "same_drives s s"
  by (simp add: same_drives_def)

lemma same_drives_trans: "same_drives s s1 \<Longrightarrow> same_drives s1 s2 \<Longrightarrow> same_drives s s2"
  by (simp add: same_drives_def)

lemma same_drives_steps:
  "sys_kmalloc n p s = (a, s') \<Longrightarrow> same_drives s s'"
  "sys_kfree a s = Some s' \<Longrightarrow> same_drives s s'"
  "read_from_drive d b k start drive s = Some (r, s') \<Longrightarrow> same_drives s s'"
  "write_to_drive d b k start drive s = Some (w, s') \<Longrightarrow> same_drives s s'"
  using sys_kmalloc_frame [of n p s a s'] sys_kfree_frame [of a s s']
    others_storage [OF others_drive(1)] others_storage [OF others_drive(2)]
  by (auto simp: same_drives_def)

lemma same_drives_updates [simp]:
  "same_drives s (printf f as s)" "same_drives s (set_fs a g s)" "same_drives s (s\<lparr>mem := m\<rparr>)"
  "same_drives s (s\<lparr>filesystems := t\<rparr>)"
  by (simp_all add: same_drives_def printf_def set_fs_def)

lemma same_drives_register:
  assumes "fat32_register d fs drive buffer lba s = Some (r, s')"
  shows "same_drives s s'"
proof -
  obtain fsinfo s1 where 1: "sys_kmalloc 8 6 s = (fsinfo, s1)" by fastforce
  let ?p = "(printf (line ''Bad Start... Rewriting!'') [] s1)\<lparr>mem := store32 (buffer + 28) lba (mem s1)\<rparr>"
  obtain s2 where 2: "(if bpb_lba_beginning (mem s1) buffer = 0 \<and> lba \<noteq> 0
      then map_option snd (write_to_drive d buffer 1 lba drive ?p) else Some s1) = Some s2"
    using assms 1 by (auto simp: fat32_register_def split: Option.bind_splits)
  have "same_drives s1 ?p" by (simp add: same_drives_def printf_def)
  then have "same_drives s1 s2"
    using 2 by (auto split: if_splits dest: same_drives_steps(4) intro: same_drives_trans)
  moreover obtain q s3 where 3: "read_from_drive d fsinfo 7
      (ucast (ebpb_sector_FSInfo (mem s2) buffer) + bpb_lba_beginning (mem s2) buffer) drive s2 = Some (q, s3)"
    using assms 1 2 by (auto simp: fat32_register_def split: Option.bind_splits)
  moreover have "same_drives s3 s'"
    using assms 1 2 3 by (auto simp: fat32_register_def split: if_splits)
  ultimately show ?thesis
    using same_drives_steps(1) [OF 1] same_drives_steps(3) [OF 3] by (blast intro: same_drives_trans)
qed

lemma same_drives_detect:
  assumes "detect_fs d b drive start mbr part s = Some s'"
  shows "same_drives s s'"
  using assms
  by (auto simp: detect_fs_def Let_def split: if_splits Option.bind_splits prod.splits
      dest!: same_drives_register same_drives_steps(1,2)) (auto simp: same_drives_def set_fs_def)

lemma same_drives_parts:
  "register_parts d dr i mbr j k s = Some s' \<Longrightarrow> same_drives s s'"
proof (induction k arbitrary: j s)
  case (Suc k)
  then show ?case
    by (auto simp: Let_def split: if_splits Option.bind_splits prod.splits
        dest!: Suc.IH same_drives_detect same_drives_steps(1-3)) (auto simp: same_drives_def printf_def)
qed simp

text \<open>A drive is entered in the first free of the 26 slots and gets its number; with all
  slots taken the result is -1 and no drive changes.\<close>

theorem register_drive_first_free:
  assumes "register_drive d dr s = Some (r, s')"
  shows "if \<forall>i. 0 \<le> i \<and> i < 26 \<longrightarrow> get_drive i s \<noteq> 0
    then r = - 1 \<and> drives s' = drives s \<and> drive_at s' = drive_at s
    else r = 0 \<and> (\<exists>i. 0 \<le> i \<and> i < 26 \<and> get_drive i s = 0 \<and> (\<forall>j. 0 \<le> j \<and> j < i \<longrightarrow> get_drive j s \<noteq> 0)
      \<and> drives s' = (drives s)(i := dr)
      \<and> drive_at s' = (drive_at s)(dr := (drive_at s dr)\<lparr>d_number := word_of_int i\<rparr>))"
proof (cases "first_slot (drives s) 0 26")
  case None
  then have "\<forall>i. 0 \<le> i \<and> i < 26 \<longrightarrow> drives s i \<noteq> 0" by (simp add: first_slot_None)
  with None assms show ?thesis by (auto simp: register_drive_def get_drive_def printf_def)
next
  case (Some i)
  let ?s1 = "printf ''[     ] Registering Drive '' [] s"
  let ?s2 = "set_drive dr (d_number_update (\<lambda>_. word_of_int i)) (?s1\<lparr>drives := (drives ?s1)(i := dr)\<rparr>)"
  have i: "0 \<le> i" "i < 26" "drives s i = 0" "\<forall>x. 0 \<le> x \<and> x < i \<longrightarrow> drives s x \<noteq> 0"
    using Some by (simp_all add: first_slot_Some)
  have slot: "first_slot (drives ?s1) 0 26 = Some i" using Some by (simp add: printf_def)
  have "same_drives ?s2 s' \<and> r = 0"
    using assms slot
    by (auto simp: register_drive_def Let_def split: Option.bind_splits prod.splits
        dest!: same_drives_parts same_drives_steps(1,3)) (auto simp: same_drives_def printf_def)
  then show ?thesis
    using i by (auto simp: get_drive_def same_drives_def set_drive_def printf_def intro!: exI [of _ i])
qed

text \<open>With all 26 file system slots taken, a newly found file system replaces the one in slot
  0: no slot is found, but the index starts as 0.\<close>

theorem detect_fs_replaces_slot_0:
  assumes "\<And>i. 0 \<le> i \<Longrightarrow> i < 26 \<Longrightarrow> get_fs i s \<noteq> 0"
    and "load16 (mem s) (b + 1080) \<noteq> 0xef53" and "bpb_bytes_per_sector (mem s) b \<noteq> 0"
    and "bpb_sectors_per_cluster (mem s) b \<noteq> 0" and "fat_clusters (mem s) b \<le> 0xffff"
    and "sys_kmalloc 1 6 s = (fs, s1)"
  shows "\<exists>s'. detect_fs d b drive start mbr part s = Some s' \<and> get_fs 0 s' = fs
    \<and> (\<forall>i. i \<noteq> 0 \<longrightarrow> get_fs i s' = get_fs i s)"
proof -
  have none: "first_slot (filesystems s) 0 26 = None"
    using assms(1) by (simp add: first_slot_None get_fs_def)
  obtain m where s1: "s1 = s\<lparr>mmgr := m\<rparr>" using sys_kmalloc_frame [OF assms(6)] by blast
  have "fat_type (fat_clusters (mem s) b) \<noteq> FS_FAT32"
    using assms(5) by (simp add: fat_type_def fs_type_defs not_le)
  with none assms(2-4,6) show ?thesis
    by (simp add: detect_fs_def Let_def s1 set_fs_def get_fs_def)
qed

subsection \<open>Opening\<close>

lemma fopen_nothing:
  assumes name: "cstr_at (mem s) (name + 2) cs" "length cs < 4096" "c \<in> set cs" "c \<noteq> 47"
    and slash: "cstr_at (mem s) slash [47]"
    and al: "sys_kmalloc 1 6 s = (str, s1)" "str \<noteq> 0"
    and apart: "apart (name + 2) (length cs) str (length cs)" "apart slash 2 str (length cs)"
    and ret: "fopen d slash dirent0 name mode s = Some (r, s')"
  shows "r = 0"
  using ret fat32_open_file_nothing [OF name slash al apart]
  by (auto simp: fopen_def Let_def split: if_splits)


end
