(* ===== verification/Scheduler.thy ===== *)
theory Scheduler
  imports Storage
begin

text \<open>
  \<open>kernel/proc/scheduler.c\<close> with the structures of \<open>scheduler.h\<close>, \<open>proc.h\<close> and the register frame
  of \<open>cpu/idt.h\<close>, \<open>push_args\<close> of \<open>scheduler.s\<close>, and the timer interrupt that calls the scheduler.

  Memory has two views that do not overlap: the process list entries and the process structures
  are typed heaps over their addresses (\<open>plist\<close>, \<open>procs\<close>), every other byte (stacks, program
  images, the frames the interrupt entry pushes) is in \<open>mem\<close>. A null pointer is an address like
  any other, as on the machine, which runs without paging: \<open>plist s 0\<close> is what an entry read
  through it holds. The array \<open>proc_list\<close> is indexed by 32-bit numbers; index 65536, which
  \<open>get_proc\<close> lets through, is the word after the array.
\<close>

subsection \<open>Register frames\<close>

text \<open>
  \<open>irq_registers_t\<close> is a union: the kernel view has no \<open>useresp\<close>, its \<open>ss\<close> is the word the user
  view calls \<open>useresp\<close>. All other fields coincide.
\<close>

record irq_registers =
  r_gs :: u32
  r_fs :: u32
  r_es :: u32
  r_ds :: u32
  r_edi :: u32
  r_esi :: u32
  r_ebp :: u32
  r_esp :: u32
  r_ebx :: u32
  r_edx :: u32
  r_ecx :: u32
  r_eax :: u32
  r_int_no :: u32
  r_err_code :: u32
  r_eip :: u32
  r_cs :: u32
  r_eflags :: u32
  r_useresp :: u32
  r_ss :: u32

definition kernel_ss_update :: "u32 \<Rightarrow> irq_registers \<Rightarrow> irq_registers" where
  "kernel_ss_update v r = r\<lparr>r_useresp := v\<rparr>"

definition frame_size :: u32 where "frame_size = 76"

definition regs_words :: "irq_registers \<Rightarrow> u32 list" where
  "regs_words r = [r_gs r, r_fs r, r_es r, r_ds r, r_edi r, r_esi r, r_ebp r, r_esp r, r_ebx r,
     r_edx r, r_ecx r, r_eax r, r_int_no r, r_err_code r, r_eip r, r_cs r, r_eflags r,
     r_useresp r, r_ss r]"

definition words_regs :: "u32 list \<Rightarrow> irq_registers" where
  "words_regs w = \<lparr>r_gs = w ! 0, r_fs = w ! 1, r_es = w ! 2, r_ds = w ! 3, r_edi = w ! 4,
     r_esi = w ! 5, r_ebp = w ! 6, r_esp = w ! 7, r_ebx = w ! 8, r_edx = w ! 9, r_ecx = w ! 10,
     r_eax = w ! 11, r_int_no = w ! 12, r_err_code = w ! 13, r_eip = w ! 14, r_cs = w ! 15,
     r_eflags = w ! 16, r_useresp = w ! 17, r_ss = w ! 18\<rparr>"

definition load_regs :: "mem \<Rightarrow> ptr \<Rightarrow> irq_registers" where
  "load_regs m a = words_regs (load_words m a 19)"

definition store_regs :: "ptr \<Rightarrow> irq_registers \<Rightarrow> mem \<Rightarrow> mem" where
  "store_regs a r m = store_words a (regs_words r) m"

lemma words_regs_words [simp]: "words_regs (regs_words r) = r"
  by (simp add: words_regs_def regs_words_def)

lemma length_regs_words [simp]: "length (regs_words r) = 19"
  by (simp add: regs_words_def)

lemma load_regs_store_regs [simp]: "load_regs (store_regs a r m) a = r"
  using load_words_store_words [of "regs_words r" a m] by (simp add: load_regs_def store_regs_def)

lemma store_regs_outside: "\<not> in_region a 76 x \<Longrightarrow> store_regs a r m x = m x"
  using store_words_outside [of a "regs_words r" x m] by (simp add: store_regs_def)

lemma load_regs_cong: "(\<And>x. in_region a 76 x \<Longrightarrow> m' x = m x) \<Longrightarrow> load_regs m' a = load_regs m a"
  using load_words_cong [of a 19 m' m] by (simp add: load_regs_def)

subsection \<open>State\<close>

record process32 =
  memory_base :: u32
  memory_limit :: u32
  stack_base :: u32
  stack_limit :: u32
  regs :: irq_registers
  allocated_pages :: u32
  lock :: u8
  priority :: u8
  abi :: u8
  stdin :: ptr
  stdout :: ptr

record proc_list_t =
  process :: ptr
  pl_pid :: u16
  ppid :: u16
  uid :: u16
  ring0 :: bool
  path_to_exec :: ptr

record sched = storage +
  cpid :: u16
  lapid :: u16
  active_procs :: u32
  proc_list_base :: ptr
  proc_list :: "u32 \<Rightarrow> ptr"
  enable_scheduler :: u8
  plist :: "ptr \<Rightarrow> proc_list_t"
  procs :: "ptr \<Rightarrow> process32"

definition set_entry :: "ptr \<Rightarrow> (proc_list_t \<Rightarrow> proc_list_t) \<Rightarrow> 'a sched_scheme \<Rightarrow> 'a sched_scheme" where
  "set_entry a f s = s\<lparr>plist := (plist s)(a := f (plist s a))\<rparr>"

definition set_proc :: "ptr \<Rightarrow> (process32 \<Rightarrow> process32) \<Rightarrow> 'a sched_scheme \<Rightarrow> 'a sched_scheme" where
  "set_proc a f s = s\<lparr>procs := (procs s)(a := f (procs s a))\<rparr>"

subsection \<open>The process list\<close>

definition get_pid :: "'a sched_scheme \<Rightarrow> u32" where
  "get_pid s = ucast (cpid s)"

text \<open>\<open>pid < 0\<close> is never true of an unsigned number.\<close>

definition get_proc :: "u32 \<Rightarrow> 'a sched_scheme \<Rightarrow> ptr" where
  "get_proc p s = (if p > 65536 then 0 else proc_list s p)"

text \<open>The loops that step a 16-bit index until a condition holds.\<close>

partial_function (option) first_from :: "(u16 \<Rightarrow> bool) \<Rightarrow> u16 \<Rightarrow> u16 option" where
  "first_from P i = (if P i then Some i else first_from P (i + 1))"

definition register_process ::
    "ptr \<Rightarrow> ptr \<Rightarrow> 'a sched_scheme \<Rightarrow> (u32 \<times> 'a sched_scheme) option" where
  "register_process parent proc s =
     (let (new, s1) = sys_kmalloc 1 6 s
      in if new = 0 then Some (- 1, s1)
         else do {
           let s2 = set_entry new (process_update (\<lambda>_. proc)) s1;
           p \<leftarrow> first_from (\<lambda>i. proc_list s2 (ucast i) = 0) (lapid s2);
           let s3 = set_entry new (pl_pid_update (\<lambda>_. p)) (s2\<lparr>lapid := p\<rparr>);
           let s4 = set_entry new (ppid_update (\<lambda>_. if parent = 0 then 0 else pl_pid (plist s3 parent))) s3;
           let s5 = s4\<lparr>proc_list := (proc_list s4)(ucast p := new)\<rparr>;
           Some (ucast (pl_pid (plist s5 new)), s5) })"

definition init_scheduler :: "'a sched_scheme \<Rightarrow> 'a sched_scheme option" where
  "init_scheduler s =
     (let (a, s1) = sys_kmalloc (4 * 65536 div 4096) 6 s; s2 = s1\<lparr>proc_list_base := a\<rparr>
      in if a = 0 then None
         else Some (s2\<lparr>proc_list := (\<lambda>i. if i < 65536 then 0 else proc_list s2 i)(0 := - 1),
                       enable_scheduler := 1\<rparr>))"

subsection \<open>Leaving\<close>

definition exit_proc :: "u32 \<Rightarrow> u32 \<Rightarrow> 'a sched_scheme \<Rightarrow> 'a sched_scheme option" where
  "exit_proc exit_code p s = do {
     m \<leftarrow> kfree_pid p (allocated_pages (procs s (process (plist s (get_proc p s))))) (mmgr s);
     let s1 = s\<lparr>mmgr := m\<rparr>;
     s2 \<leftarrow> sys_kfree (process (plist s1 (get_proc p s1))) s1;
     s3 \<leftarrow> sys_kfree (get_proc p s2) s2;
     Some (s3\<lparr>proc_list := (proc_list s3)(p := 0), active_procs := active_procs s3 - 1\<rparr>) }"

text \<open>\<open>exit_v\<close> never returns to its caller; its value is the state in which it loops, to be left
  only by the next timer interrupt.\<close>

definition exit_v :: "'a sched_scheme \<Rightarrow> 'a sched_scheme option" where
  "exit_v s = do {
     let p = get_pid s;
     m \<leftarrow> kfree_pid p (allocated_pages (procs s (process (plist s (get_proc p s))))) (mmgr s);
     let s1 = s\<lparr>mmgr := m\<rparr>;
     s2 \<leftarrow> sys_kfree (process (plist s1 (get_proc p s1))) s1;
     s3 \<leftarrow> sys_kfree (get_proc p s2) s2;
     Some (s3\<lparr>proc_list := (proc_list s3)(p := 0), active_procs := active_procs s3 - 1\<rparr>) }"

subsection \<open>Starting kernel processes\<close>

text \<open>\<open>scheduler.s\<close>: push \<open>argc\<close> words, the first argument first, then a 0.\<close>

fun push_args_loop :: "ptr \<Rightarrow> nat \<Rightarrow> u32 \<Rightarrow> mem \<Rightarrow> u32 \<times> mem" where
  "push_args_loop argv 0 sp m = (sp, m)"
| "push_args_loop argv (Suc n) sp m = push_args_loop (argv + 4) n (sp - 4) (store32 (sp - 4) (load32 m argv) m)"

definition push_args :: "ptr \<Rightarrow> u32 \<Rightarrow> u32 \<Rightarrow> mem \<Rightarrow> u32 \<times> mem" where
  "push_args argv argc sp m =
     (let (sp1, m1) = push_args_loop argv (unat argc) sp m in (sp1 - 4, store32 (sp1 - 4) 0 m1))"

text \<open>The registers \<open>kfork\<close> sets; \<open>eflags\<close> is what \<open>get_eflags\<close> reads from the processor.\<close>

definition kfork_regs :: "ptr \<Rightarrow> u32 \<Rightarrow> u32 \<Rightarrow> irq_registers \<Rightarrow> irq_registers" where
  "kfork_regs fn sp eflags r =
     (kernel_ss_update 0x10 (r\<lparr>r_eip := fn, r_esp := sp, r_ebp := sp, r_cs := 0x8, r_ds := 0x10\<rparr>))
       \<lparr>r_es := 0x10, r_gs := 0x10, r_eflags := eflags\<rparr>"

definition kfork ::
    "u32 \<Rightarrow> ptr \<Rightarrow> ptr \<Rightarrow> u32 \<Rightarrow> 'a sched_scheme \<Rightarrow> (u32 \<times> 'a sched_scheme) option" where
  "kfork eflags fn args count s = do {
     let (proc, s1) = sys_kmalloc 1 6 s;
     (ret, s2) \<leftarrow> register_process 0 proc s1;
     let p = (ucast ret :: u16);
     let proc_l = get_proc (ucast p) s2;
     let s3 = set_entry proc_l (\<lambda>e. e\<lparr>process := proc, ring0 := True\<rparr>) s2;
     let s4 = set_proc proc (\<lambda>q. q\<lparr>abi := 0, allocated_pages := - 1, lock := 0, priority := 4\<rparr>) s3;
     let (stk, s5) = sys_kumalloc 1 6 (ucast p) s4;
     let s6 = set_proc proc (\<lambda>q. q\<lparr>stack_base := stk, stack_limit := stk + 4096,
                regs := kfork_regs fn (stk + 4096) eflags (regs q)\<rparr>) s5;
     let (sp, m) = push_args args count (r_esp (regs (procs s6 proc))) (mem s6);
     let s7 = set_proc proc (\<lambda>q. q\<lparr>regs := (regs q)\<lparr>r_esp := sp - 4\<rparr>\<rparr>) (s6\<lparr>mem := m\<rparr>);
     Some (ucast p, s7\<lparr>active_procs := active_procs s7 + 1\<rparr>) }"

subsection \<open>Forking and replacing a process\<close>

text \<open>
  The registers of the child: the stack pointer and the base pointer computed for it are
  overwritten by the two assignments of the parent's registers, the second of which undoes the
  computed \<open>eip\<close> as well.
\<close>

definition fork_regs :: "irq_registers \<Rightarrow> u32 \<Rightarrow> process32 \<Rightarrow> process32 \<Rightarrow> irq_registers" where
  "fork_regs child nstack_limit parent n =
     (let r1 = child\<lparr>r_useresp := (r_useresp child - stack_limit parent) + nstack_limit\<rparr>;
          r2 = r1\<lparr>r_ebp := (r_ebp r1 - stack_limit parent) + nstack_limit\<rparr>;
          r3 = regs parent;
          r4 = r3\<lparr>r_eip := memory_base n + (r_eip (regs parent) - memory_base parent)\<rparr>;
          r5 = regs parent
      in r5\<lparr>r_eax := 0\<rparr>)"

definition fork :: "ptr \<Rightarrow> 'a sched_scheme \<Rightarrow> (u32 \<times> 'a sched_scheme) option" where
  "fork proc s = do {
     let (nproc, s1) = sys_kmalloc 1 6 s;
     (ret, s2) \<leftarrow> register_process proc nproc s1;
     if proc = 0 then Some (0, printf (line ''[Kernel Error]: Cannot Fork; Empty process'') [] s2)
     else
       let pp = process (plist s2 proc);
           par = procs s2 pp;
           start = memory_base par;
           sz = memory_limit par - memory_base par;
           (buffer, s3) = sys_kumalloc (sint (memory_limit par - memory_base par div 4096)) 7 ret s2
       in if buffer = 0
          then Some (0, printf (line ''[Kernel Error]: Cannot Fork; Error Allocating Memory!'') [] s3)
          else do {
            let s4 = s3\<lparr>mem := kmemcpy (memory_base (procs s3 pp)) buffer 1 (mem s3)\<rparr>;
            let stack_size_cpy = stack_limit (procs s4 pp) - r_useresp (regs (procs s4 pp));
            let (stk, s5) = sys_kumalloc 1 6 ret s4;
            let s6 = set_proc nproc (\<lambda>q. q\<lparr>stack_base := stk, stack_limit := 4096\<rparr>) s5;
            let s7 = s6\<lparr>mem := kmemcpy (stack_base (procs s6 pp)) (stack_base (procs s6 nproc))
                                    stack_size_cpy (mem s6)\<rparr>;
            let s8 = set_proc nproc (\<lambda>q. q\<lparr>priority := priority (procs s7 pp),
                       regs := fork_regs (regs q) 4096 (procs s7 pp) q\<rparr>) s7;
            let s9 = set_proc nproc (\<lambda>q. q\<lparr>memory_base := buffer, memory_limit := buffer + sz\<rparr>) s8;
            let (inp, s10) = sys_kmalloc 1 6 s9;
            let (out, s11) = sys_kmalloc 1 6 s10;
            let s12 = set_proc nproc (\<lambda>q. q\<lparr>stdin := inp, stdout := out,
                        priority := priority (procs s11 pp), lock := 0\<rparr>) s11;
            if ret = - 1 then do { s13 \<leftarrow> sys_kfree nproc s12; Some (0, s13) }
            else Some (ret, s12\<lparr>active_procs := active_procs s12 + 1\<rparr>) } }"

text \<open>The argument count: the loop goes on while there is an argument \<^emph>\<open>or\<close> \<open>argc < 65536\<close>.\<close>

partial_function (option) exec_argc :: "mem \<Rightarrow> ptr \<Rightarrow> u32 \<Rightarrow> u32 option" where
  "exec_argc m argv argc =
     (if load32 m (argv + 4 * argc) \<noteq> 0 \<or> argc < 65536 then exec_argc m argv (argc + 1) else Some argc)"

text \<open>
  \<open>exec\<close> works on a copy \<open>proc\<close> of the process structure, a local variable. \<open>exit_v_fp\<close> is the
  address of \<open>exit_v\<close>.
\<close>

definition exec ::
    "ptr \<Rightarrow> ptr \<Rightarrow> u32 \<Rightarrow> u16 \<Rightarrow> ptr \<Rightarrow> 'a sched_scheme \<Rightarrow> (u32 \<times> 'a sched_scheme) option" where
  "exec exit_v_fp buffer buffer_size p argv s = do {
     let ent = get_proc (ucast p) s;
     let proc = procs s (process (plist s ent));
     (proc1, s1) \<leftarrow>
       (if memory_limit proc - memory_base proc > buffer_size then do {
          s' \<leftarrow> sys_kfree (memory_base proc) s;
          let (base, s'') = sys_kumalloc (sint buffer sdiv 4096) 7 (ucast p) s';
          Some (proc\<lparr>memory_base := base, memory_limit := base + buffer_size\<rparr>, s'') }
        else Some (proc, s));
     if memory_base proc1 = 0 then Some (- 1, s1)
     else do {
       let proc2 = proc1\<lparr>regs := (regs proc1)\<lparr>r_eip := memory_base proc1, r_esp := stack_limit proc1,
                       r_ebp := stack_limit proc1, r_useresp := r_useresp (regs proc1) - 16\<rparr>\<rparr>;
       let stack = stack_limit proc2;
       let s2 = s1\<lparr>mem := store32 (stack - 4) argv (mem s1)\<rparr>;
       argc \<leftarrow> exec_argc (mem s2) argv 0;
       let s3 = s2\<lparr>mem := store32 stack exit_v_fp (store32 (stack - 8) argc (mem s2))\<rparr>;
       Some (0, s3\<lparr>mem := kmemcpy buffer (memory_base proc2) buffer_size (mem s3)\<rparr>) } }"

subsection \<open>Scheduling\<close>

text \<open>
  \<open>schedule\<close> gets the address of the frame the interrupt pushed and gives the address of the frame
  to return through. The second half of the loop condition repeats the first one, so the \<open>lock\<close>
  of a process is not looked at. When the index wraps to 0 the function calls itself, ignores the
  result and goes on. The messages name two values but the first passes one.
\<close>

partial_function (option) schedule :: "ptr \<Rightarrow> 'a sched_scheme \<Rightarrow> (ptr \<times> 'a sched_scheme) option" where
  "schedule oldregs s =
     (if active_procs s = 0 \<or> enable_scheduler s = 0 then Some (oldregs, s)
      else
        let s1 = (if cpid s \<noteq> 0
                  then set_proc (process (plist s (proc_list s (ucast (cpid s)))))
                         (regs_update (\<lambda>_. load_regs (mem s) oldregs)) s
                  else s)
        in do {
          p \<leftarrow> first_from (\<lambda>i. proc_list s1 (ucast i) \<noteq> 0) (cpid s1 + 1);
          let s2 = s1\<lparr>cpid := p\<rparr>;
          s3 \<leftarrow> (if cpid s2 = 0 then do { (_, s') \<leftarrow> schedule oldregs s2; Some s' } else Some s2);
          let ent = plist s3 (proc_list s3 (ucast (cpid s3)));
          let r = regs (procs s3 (process ent));
          if ring0 ent then
            let frame = r_esp r - frame_size;
                s4 = s3\<lparr>mem := store_regs frame r (mem s3)\<rparr>
            in Some (frame, printf (line ''esp: %x, pid: %d'') [PInt (ucast (cpid s4))] s4)
          else
            let s4 = s3\<lparr>mem := store_regs oldregs r (mem s3)\<rparr>
            in Some (oldregs, printf (line ''esp: %x, pid: %d'')
                 [PInt (r_useresp (load_regs (mem s4) oldregs)), PInt (ucast (cpid s4))] s4) })"

definition irq0_timer_handler :: "ptr \<Rightarrow> 'a sched_scheme \<Rightarrow> (ptr \<times> 'a sched_scheme) option" where
  "irq0_timer_handler registers s = schedule registers (timer_tick s)"

subsection \<open>Index loops\<close>

lemma of_nat_nonzero_u16: "0 < n \<Longrightarrow> n < 2 ^ 16 \<Longrightarrow> (of_nat n :: u16) \<noteq> 0"
  by (auto simp: word_of_nat_eq_0_iff dest: nat_dvd_not_less)

lemma first_from_hit:
  "P (i + of_nat k) \<Longrightarrow> \<forall>j < k. \<not> P (i + of_nat j) \<Longrightarrow> first_from P i = Some (i + of_nat k)"
proof (induction k arbitrary: i)
  case 0
  then show ?case by (subst first_from.simps) simp
next
  case (Suc k)
  have "\<not> P i" using Suc.prems(2) by (auto dest: spec [of _ 0])
  moreover have "first_from P (i + 1) = Some (i + 1 + of_nat k)"
  proof (rule Suc.IH)
    show "P (i + 1 + of_nat k)" using Suc.prems(1) by (simp add: ac_simps)
    show "\<forall>j < k. \<not> P (i + 1 + of_nat j)"
    proof (intro allI impI)
      fix j assume "j < k"
      with Suc.prems(2) have "\<not> P (i + of_nat (Suc j))" by blast
      then show "\<not> P (i + 1 + of_nat j)" by (simp add: ac_simps)
    qed
  qed
  ultimately show ?case by (subst first_from.simps) (simp add: ac_simps)
qed

text \<open>The search goes around the whole index range, so it ends when the condition holds anywhere.\<close>

lemma first_from_ends:
  assumes "P q"
  obtains k where "k \<le> unat (q - i)" "first_from P i = Some (i + of_nat k)" "P (i + of_nat k)"
    "\<And>j. j < k \<Longrightarrow> \<not> P (i + of_nat j)"
proof -
  let ?Q = "\<lambda>k. P (i + of_nat k)"
  let ?k = "LEAST k. ?Q k"
  have q: "?Q (unat (q - i))" using assms by simp
  have k: "?Q ?k" by (rule LeastI [of ?Q, OF q])
  have no: "\<not> ?Q j" if "j < ?k" for j using that by (rule not_less_Least)
  show thesis
  proof (rule that)
    show "?k \<le> unat (q - i)" by (rule Least_le [of ?Q, OF q])
    show "first_from P i = Some (i + of_nat ?k)" using k no by (intro first_from_hit) auto
  qed (use k no in auto)
qed

subsection \<open>One scheduling step\<close>

abbreviation entry_ptr :: "'a sched_scheme \<Rightarrow> u16 \<Rightarrow> ptr" where
  "entry_ptr s p \<equiv> proc_list s (ucast p)"

abbreviation proc_ptr :: "'a sched_scheme \<Rightarrow> u16 \<Rightarrow> ptr" where
  "proc_ptr s p \<equiv> process (plist s (entry_ptr s p))"

text \<open>\<open>saved fp s\<close>: the state after the registers of the current process are put away.
  \<open>resumes s s' fp\<close>: \<open>s'\<close> differs from \<open>s\<close> by the choice of a current process, whose registers
  are in the frame at \<open>fp\<close>, and by what was printed.\<close>

definition saved :: "ptr \<Rightarrow> 'a sched_scheme \<Rightarrow> 'a sched_scheme" where
  "saved fp s = (if cpid s \<noteq> 0
     then set_proc (proc_ptr s (cpid s)) (regs_update (\<lambda>_. load_regs (mem s) fp)) s else s)"

definition resumes :: "ptr \<Rightarrow> 'a sched_scheme \<Rightarrow> 'a sched_scheme \<Rightarrow> ptr \<Rightarrow> bool" where
  "resumes oldregs s s' fp \<longleftrightarrow>
     s' = s\<lparr>cpid := cpid s', mem := mem s', trace := trace s'\<rparr>
     \<and> outputs (trace s') = outputs (trace s)
     \<and> load_regs (mem s') fp = regs (procs s (proc_ptr s (cpid s')))
     \<and> fp = (if ring0 (plist s (entry_ptr s (cpid s')))
             then r_esp (regs (procs s (proc_ptr s (cpid s')))) - frame_size else oldregs)
     \<and> (\<forall>x. \<not> in_region fp 76 x \<longrightarrow> mem s' x = mem s x)"

lemma saved_frame [simp]:
  "cpid (saved fp s) = cpid s" "plist (saved fp s) = plist s" "proc_list (saved fp s) = proc_list s"
  "active_procs (saved fp s) = active_procs s" "enable_scheduler (saved fp s) = enable_scheduler s"
  "mem (saved fp s) = mem s" "mmgr (saved fp s) = mmgr s" "lapid (saved fp s) = lapid s"
  "trace (saved fp s) = trace s"
  by (simp_all add: saved_def set_proc_def)

lemma resumes_frame:
  assumes "resumes oldregs s s' fp"
  shows "plist s' = plist s" "proc_list s' = proc_list s" "procs s' = procs s" "mmgr s' = mmgr s"
    "active_procs s' = active_procs s" "enable_scheduler s' = enable_scheduler s" "lapid s' = lapid s"
    "load_regs (mem s') fp = regs (procs s' (proc_ptr s' (cpid s')))"
    "outputs (trace s') = outputs (trace s)"
proof -
  show "outputs (trace s') = outputs (trace s)" using assms unfolding resumes_def by blast
  obtain c m tr where s': "s' = s\<lparr>cpid := c, mem := m, trace := tr\<rparr>"
    using assms unfolding resumes_def by blast
  show "plist s' = plist s" "proc_list s' = proc_list s" "procs s' = procs s" "mmgr s' = mmgr s"
    "active_procs s' = active_procs s" "enable_scheduler s' = enable_scheduler s" "lapid s' = lapid s"
    unfolding s' by simp_all
  moreover have "load_regs (mem s') fp = regs (procs s (proc_ptr s (cpid s')))"
    using assms unfolding resumes_def by blast
  ultimately show "load_regs (mem s') fp = regs (procs s' (proc_ptr s' (cpid s')))" by simp
qed


lemma resumes_ring0:
  assumes r: "resumes oldregs s s' fp" and "ring0 (plist s' (entry_ptr s' (cpid s')))"
  shows "fp = r_esp (load_regs (mem s') fp) - frame_size"
proof -
  have "load_regs (mem s') fp = regs (procs s (proc_ptr s (cpid s')))"
    "fp = (if ring0 (plist s (entry_ptr s (cpid s'))) then r_esp (regs (procs s (proc_ptr s (cpid s')))) - frame_size
      else oldregs)"
    using r unfolding resumes_def by blast+
  then show ?thesis using assms(2) resumes_frame(1,2) [OF r] by simp
qed
definition resume_current :: "ptr \<Rightarrow> 'a sched_scheme \<Rightarrow> ptr \<times> 'a sched_scheme" where
  "resume_current oldregs s3 =
     (let ent = plist s3 (proc_list s3 (ucast (cpid s3)));
          r = regs (procs s3 (process ent))
      in if ring0 ent then
           let frame = r_esp r - frame_size;
               s4 = s3\<lparr>mem := store_regs frame r (mem s3)\<rparr>
           in (frame, printf (line ''esp: %x, pid: %d'') [PInt (ucast (cpid s4))] s4)
         else
           let s4 = s3\<lparr>mem := store_regs oldregs r (mem s3)\<rparr>
           in (oldregs, printf (line ''esp: %x, pid: %d'')
                [PInt (r_useresp (load_regs (mem s4) oldregs)), PInt (ucast (cpid s4))] s4))"

lemma schedule_unfold:
  "schedule oldregs s =
     (if active_procs s = 0 \<or> enable_scheduler s = 0 then Some (oldregs, s)
      else do {
        p \<leftarrow> first_from (\<lambda>i. entry_ptr s i \<noteq> 0) (cpid s + 1);
        s3 \<leftarrow> (if p = 0 then map_option snd (schedule oldregs ((saved oldregs s)\<lparr>cpid := p\<rparr>))
              else Some ((saved oldregs s)\<lparr>cpid := p\<rparr>));
        Some (resume_current oldregs s3) })"
proof -
  have s1: "(if cpid s \<noteq> 0 then set_proc (process (plist s (entry_ptr s (cpid s))))
      (regs_update (\<lambda>_. load_regs (mem s) oldregs)) s else s) = saved oldregs s"
    by (simp add: saved_def)
  show ?thesis
    by (subst schedule.simps, unfold s1)
      (auto simp: resume_current_def Let_def map_option_case split_def
        intro!: Option.bind_cong split: option.splits)
qed

lemma resume_current_resumes:
  "resume_current oldregs s = (fp, s') \<Longrightarrow> resumes oldregs s s' fp \<and> cpid s' = cpid s"
  by (auto simp: resume_current_def resumes_def Let_def printf_def store_regs_outside split: if_splits)

lemma resumes_cpid [simp]: "resumes oldregs (s\<lparr>cpid := c\<rparr>) s' fp = resumes oldregs s s' fp"
  by (simp add: resumes_def)

lemma resumes_again:
  assumes "resumes oldregs s t fp" and "resumes oldregs t u gp" and "cpid u = cpid t"
  shows "resumes oldregs s u gp"
proof -
  note fr = resumes_frame [OF assms(1)]
  have "gp = fp" using assms fr by (simp add: resumes_def)
  then have out: "mem u x = mem s x" if "\<not> in_region gp 76 x" for x
    using assms(1,2) that unfolding resumes_def by metis
  obtain m tr where t: "t = s\<lparr>cpid := cpid t, mem := m, trace := tr\<rparr>"
    using assms(1) unfolding resumes_def by blast
  have "u = t\<lparr>cpid := cpid u, mem := mem u, trace := trace u\<rparr>"
    using assms(2) unfolding resumes_def by blast
  also have "\<dots> = s\<lparr>cpid := cpid u, mem := mem u, trace := trace u\<rparr>" by (subst t) simp
  finally have u: "u = s\<lparr>cpid := cpid u, mem := mem u, trace := trace u\<rparr>" .
  have "load_regs (mem u) gp = regs (procs t (proc_ptr t (cpid u)))"
    "gp = (if ring0 (plist t (entry_ptr t (cpid u)))
      then r_esp (regs (procs t (proc_ptr t (cpid u)))) - frame_size else oldregs)"
    using assms(2) unfolding resumes_def by blast+
  then have "load_regs (mem u) gp = regs (procs s (proc_ptr s (cpid u)))"
    "gp = (if ring0 (plist s (entry_ptr s (cpid u)))
      then r_esp (regs (procs s (proc_ptr s (cpid u)))) - frame_size else oldregs)"
    by (simp_all only: fr(1-3))
  moreover have "outputs (trace u) = outputs (trace s)"
    using resumes_frame(9) [OF assms(1)] resumes_frame(9) [OF assms(2)] by simp
  ultimately show ?thesis using u out unfolding resumes_def by blast
qed

text \<open>\<open>next_in_turn s k\<close>: the process \<open>k\<close> places after the current one is the first, in the cyclic
  order of the pids and not counting pid 0, that exists.\<close>

definition next_in_turn :: "'a sched_scheme \<Rightarrow> nat \<Rightarrow> bool" where
  "next_in_turn s k \<longleftrightarrow> 0 < k \<and> cpid s + of_nat k \<noteq> 0 \<and> entry_ptr s (cpid s + of_nat k) \<noteq> 0
     \<and> (\<forall>j. 0 < j \<and> j < k \<longrightarrow> cpid s + of_nat j = 0 \<or> entry_ptr s (cpid s + of_nat j) = 0)"

lemma schedule_from_idle:
  assumes on: "active_procs s \<noteq> 0" "enable_scheduler s \<noteq> 0"
    and q: "q \<noteq> 0" "entry_ptr s q \<noteq> 0" and idle: "cpid s = 0"
  obtains fp s' k where "schedule oldregs s = Some (fp, s')" "resumes oldregs s s' fp"
    "cpid s' = of_nat k" "next_in_turn s k"
proof -
  obtain l where l: "l \<le> unat (q - 1)" "first_from (\<lambda>i. entry_ptr s i \<noteq> 0) 1 = Some (1 + of_nat l)"
    "entry_ptr s (1 + of_nat l) \<noteq> 0" "\<And>j. j < l \<Longrightarrow> entry_ptr s (1 + of_nat j) = 0"
    by (rule first_from_ends [of "\<lambda>i. entry_ptr s i \<noteq> 0" q 1]) (use q that in auto)
  have "unat (q - 1) + 1 < 2 ^ 16"
    using q(1) unat_lt_u16 [of q] by (simp add: unat_minus_one)
  then have nz: "(1 :: u16) + of_nat l \<noteq> 0"
    using of_nat_nonzero_u16 [of "Suc l"] l(1) by simp
  have res: "schedule oldregs s = Some (resume_current oldregs (s\<lparr>cpid := 1 + of_nat l\<rparr>))"
    by (subst schedule_unfold) (simp add: on idle l(2) nz saved_def)
  obtain fp s' where fs: "resume_current oldregs (s\<lparr>cpid := 1 + of_nat l\<rparr>) = (fp, s')" by fastforce
  have turn: "next_in_turn s (Suc l)"
    unfolding next_in_turn_def
  proof (intro conjI allI impI)
    fix j assume "0 < j \<and> j < Suc l"
    then obtain i where "j = Suc i" "i < l" by (cases j) auto
    then show "cpid s + of_nat j = 0 \<or> entry_ptr s (cpid s + of_nat j) = 0" using l(4) idle by simp
  qed (use l(3) nz idle in auto)
  show thesis
    using resume_current_resumes [OF fs] turn res fs by (intro that [of fp s' "Suc l"]) auto
qed

text \<open>A turn that starts over at pid 1, after \<open>Suc l\<close> pids without a process.\<close>

lemma next_in_turn_wraps:
  assumes z: "cpid s + of_nat (Suc l) = 0" and "next_in_turn t k" "cpid t = 0" "\<And>x. entry_ptr t x = entry_ptr s x"
    and before: "\<And>j. 0 < j \<Longrightarrow> j < Suc l \<Longrightarrow> entry_ptr s (cpid s + of_nat j) = 0"
  shows "cpid s + of_nat (Suc l + k) = of_nat k" and "next_in_turn s (Suc l + k)"
proof -
  have shift: "cpid s + of_nat (Suc l + i) = of_nat i" for i
    unfolding of_nat_add add.assoc [symmetric] z by simp
  then show "cpid s + of_nat (Suc l + k) = of_nat k" .
  have skip: "cpid s + of_nat j = 0 \<or> entry_ptr s (cpid s + of_nat j) = 0" if j: "0 < j" "j < Suc l + k" for j
  proof (cases "j \<le> Suc l")
    case True
    then show ?thesis using before [of j] j z by (cases "j = Suc l") auto
  next
    case False
    then obtain i where i: "j = Suc l + i" "0 < i" "i < k"
      using j by (intro that [of "j - Suc l"]) auto
    then have "of_nat i = (0 :: u16) \<or> entry_ptr s (of_nat i) = 0"
      using assms(2-4) by (auto simp: next_in_turn_def)
    then show ?thesis unfolding i(1) shift .
  qed
  have "of_nat k \<noteq> (0 :: u16)" "entry_ptr s (of_nat k) \<noteq> 0" "0 < k"
    using assms(2-4) by (auto simp: next_in_turn_def)
  then show "next_in_turn s (Suc l + k)" unfolding next_in_turn_def shift using skip by blast
qed

text \<open>Every scheduling step: it returns, and it resumes the next process in turn, after the
  registers of the current one are put away.\<close>

lemma schedule_step:
  assumes on: "active_procs s \<noteq> 0" "enable_scheduler s \<noteq> 0"
    and q: "q \<noteq> 0" "entry_ptr s q \<noteq> 0"
  obtains fp s' k where "schedule oldregs s = Some (fp, s')" "resumes oldregs (saved oldregs s) s' fp"
    "cpid s' = cpid s + of_nat k" "next_in_turn s k"
proof -
  let ?P = "\<lambda>i. entry_ptr s i \<noteq> 0"
  obtain l where l: "first_from ?P (cpid s + 1) = Some (cpid s + 1 + of_nat l)"
    "?P (cpid s + 1 + of_nat l)" "\<And>j. j < l \<Longrightarrow> \<not> ?P (cpid s + 1 + of_nat j)"
    by (rule first_from_ends [of ?P q "cpid s + 1"]) (use q that in auto)
  let ?p = "cpid s + 1 + of_nat l"
  have before: "entry_ptr s (cpid s + of_nat j) = 0" if "0 < j" "j < Suc l" for j
    using l(3) [of "j - 1"] that by (cases j) (auto simp: ac_simps)
  show thesis
  proof (cases "?p = 0")
    case False
    obtain fp s' where fs: "resume_current oldregs ((saved oldregs s)\<lparr>cpid := ?p\<rparr>) = (fp, s')" by fastforce
    have res: "schedule oldregs s = Some (fp, s')"
      by (subst schedule_unfold) (simp add: on l(1) fs, simp add: False)
    have "next_in_turn s (Suc l)"
      using before l(2) False unfolding next_in_turn_def by (auto simp: ac_simps)
    with resume_current_resumes [OF fs] res show thesis
      by (intro that [of fp s' "Suc l"]) (auto simp: ac_simps)
  next
    case True
    let ?s2 = "(saved oldregs s)\<lparr>cpid := 0\<rparr>"
    obtain fp s3 k where inner: "schedule oldregs ?s2 = Some (fp, s3)" "resumes oldregs ?s2 s3 fp"
      "cpid s3 = of_nat k" "next_in_turn ?s2 k"
      by (rule schedule_from_idle [of ?s2 q oldregs]) (use on q that in auto)
    obtain gp s' where fs: "resume_current oldregs s3 = (gp, s')" by fastforce
    have res: "schedule oldregs s = Some (gp, s')"
      by (subst schedule_unfold) (simp add: on l(1) True inner(1) fs)
    have r: "resumes oldregs (saved oldregs s) s' gp" "cpid s' = of_nat k"
      using resumes_again [of oldregs "saved oldregs s" s3 fp s' gp] inner(2,3)
        resume_current_resumes [OF fs] by auto
    have "cpid s + of_nat (Suc l) = 0" using True by (simp add: ac_simps)
    note w = next_in_turn_wraps [OF this inner(4) _ _ before]
    show thesis by (rule that [OF res r(1)]) (use w r(2) in simp_all)
  qed
qed

text \<open>The next process in turn comes no later than any other process there is.\<close>

lemma next_in_turn_le:
  assumes "next_in_turn s k" and "q \<noteq> 0" "entry_ptr s q \<noteq> 0" and "q \<noteq> cpid s"
  shows "k \<le> unat (q - cpid s)"
proof (rule ccontr)
  let ?d = "unat (q - cpid s)"
  assume "\<not> k \<le> ?d"
  moreover have "0 < ?d" using assms(4) by (simp add: unat_gt_0)
  ultimately have "cpid s + of_nat ?d = 0 \<or> entry_ptr s (cpid s + of_nat ?d) = 0"
    using assms(1) unfolding next_in_turn_def by (meson not_le)
  then show False using assms(2,3) by simp
qed

subsection \<open>Sequences of timer interrupts\<close>

text \<open>
  \<open>run_ticks\<close> is what timer interrupts do one after the other: between two of them the processes
  run, which may leave any memory \<open>m\<close> and push their frame at any address. It logs the process
  each interrupt resumes and the frame it resumes it from.
\<close>

fun run_ticks :: "(ptr \<times> mem) list \<Rightarrow> 'a sched_scheme \<Rightarrow> ((u16 \<times> ptr) list \<times> 'a sched_scheme) option" where
  "run_ticks [] s = Some ([], s)"
| "run_ticks ((fp, m) # es) s = do {
     (gp, s1) \<leftarrow> irq0_timer_handler fp (s\<lparr>mem := m\<rparr>);
     (log, s2) \<leftarrow> run_ticks es s1;
     Some ((cpid s1, gp) # log, s2) }"

definition existing :: "'a sched_scheme \<Rightarrow> u16 \<Rightarrow> bool" where
  "existing s p \<longleftrightarrow> p \<noteq> 0 \<and> entry_ptr s p \<noteq> 0"

definition scheduling :: "'a sched_scheme \<Rightarrow> bool" where
  "scheduling s \<longleftrightarrow> active_procs s \<noteq> 0 \<and> enable_scheduler s \<noteq> 0"

lemma timer_tick_sched [simp]:
  "cpid (timer_tick s) = cpid s" "plist (timer_tick s) = plist s" "proc_list (timer_tick s) = proc_list s"
  "procs (timer_tick s) = procs s" "mem (timer_tick s) = mem s" "mmgr (timer_tick s) = mmgr s"
  "active_procs (timer_tick s) = active_procs s" "enable_scheduler (timer_tick s) = enable_scheduler s"
  "lapid (timer_tick s) = lapid s" "trace (timer_tick s) = trace s"
  for s :: "'a sched_scheme"
  by (simp_all add: timer_tick_def Let_def)

lemma saved_procs:
  "procs (saved fp s) =
     (if cpid s \<noteq> 0
      then (procs s)(proc_ptr s (cpid s) := procs s (proc_ptr s (cpid s))\<lparr>regs := load_regs (mem s) fp\<rparr>)
      else procs s)"
  by (simp add: saved_def set_proc_def)

text \<open>One interrupt, with the memory the running process left.\<close>

lemma tick_step:
  assumes "scheduling s" and "existing s q"
  obtains gp s' k where "irq0_timer_handler fp (s\<lparr>mem := m\<rparr>) = Some (gp, s')"
    "cpid s' = cpid s + of_nat k" "next_in_turn s k"
    "plist s' = plist s" "proc_list s' = proc_list s" "scheduling s'"
    "procs s' = (if cpid s \<noteq> 0
      then (procs s)(proc_ptr s (cpid s) := procs s (proc_ptr s (cpid s))\<lparr>regs := load_regs m fp\<rparr>)
      else procs s)"
    "load_regs (mem s') gp = regs (procs s' (proc_ptr s' (cpid s')))"
    "outputs (trace s') = outputs (trace s)" "mmgr s' = mmgr s" "active_procs s' = active_procs s"
proof -
  let ?s = "timer_tick (s\<lparr>mem := m\<rparr>)"
  obtain gp s' k where r: "schedule fp ?s = Some (gp, s')" "resumes fp (saved fp ?s) s' gp"
    "cpid s' = cpid ?s + of_nat k" "next_in_turn ?s k"
    by (rule schedule_step [of ?s q fp]) (use assms in \<open>auto simp: scheduling_def existing_def intro: that\<close>)
  note fr = resumes_frame [OF r(2)]
  show thesis
  proof (rule that)
    show "irq0_timer_handler fp (s\<lparr>mem := m\<rparr>) = Some (gp, s')" using r(1) by (simp add: irq0_timer_handler_def)
    show "next_in_turn s k" using r(4) by (simp add: next_in_turn_def)
    show "scheduling s'" using fr assms(1) by (simp add: scheduling_def)
    show "load_regs (mem s') gp = regs (procs s' (proc_ptr s' (cpid s')))" by (rule fr(8))
    show "outputs (trace s') = outputs (trace s)" using fr(9) by simp
  qed (use r(3) fr in \<open>simp_all add: saved_procs\<close>)
qed

lemma existing_tick:
  "proc_list s' = proc_list s \<Longrightarrow> existing s' q = existing s q"
  by (simp add: existing_def)

text \<open>\<open>turns_until s q\<close>: how many processes come after the current one, up to and including \<open>q\<close>.\<close>

definition turns_until :: "'a sched_scheme \<Rightarrow> u16 \<Rightarrow> nat" where
  "turns_until s q = card {j. 0 < j \<and> j \<le> unat (q - cpid s) \<and> existing s (cpid s + of_nat j)}"

lemma turns_until_self: "existing s q \<Longrightarrow> turns_until s q = 0 \<longleftrightarrow> q = cpid s"
proof
  assume q: "existing s q" and z: "turns_until s q = 0"
  show "q = cpid s"
  proof (rule ccontr)
    assume "q \<noteq> cpid s"
    then have "unat (q - cpid s) \<in> {j. 0 < j \<and> j \<le> unat (q - cpid s) \<and> existing s (cpid s + of_nat j)}"
      using q by (simp add: unat_gt_0)
    moreover have "finite {j. 0 < j \<and> j \<le> unat (q - cpid s) \<and> existing s (cpid s + of_nat j)}"
      by (rule finite_subset [of _ "{..unat (q - cpid s)}"]) auto
    ultimately show False using z by (auto simp: turns_until_def)
  qed
qed (auto simp: turns_until_def)

lemma unat_minus_of_nat_u16:
  assumes "k \<le> unat (w :: u16)"
  shows "unat (w - of_nat k) = unat w - k"
proof -
  have "w - of_nat k = (of_nat (unat w - k) :: u16)" using assms by (simp add: of_nat_diff)
  then have "unat (w - of_nat k) = (unat w - k) mod 2 ^ 16" by (simp add: unat_of_nat)
  also have "\<dots> = unat w - k" using unat_lt_u16 [of w] by simp
  finally show ?thesis .
qed

lemma turns_until_step:
  assumes q: "existing s q" "q \<noteq> cpid s" and k: "next_in_turn s k"
    and s': "cpid s' = cpid s + of_nat k" "proc_list s' = proc_list s"
  shows "turns_until s q = Suc (turns_until s' q)"
proof -
  let ?d = "unat (q - cpid s)"
  let ?A = "\<lambda>i. {j. i < j \<and> j \<le> ?d \<and> existing s (cpid s + of_nat j)}"
  have le: "k \<le> ?d" using next_in_turn_le [OF k] q by (auto simp: existing_def)
  have "q - cpid s' = (q - cpid s) - of_nat k" by (simp add: s')
  then have d': "unat (q - cpid s') = ?d - k" by (simp only: unat_minus_of_nat_u16 [OF le])
  have none: "\<not> existing s (cpid s + of_nat j)" if "0 < j" "j < k" for j
    using k that by (auto simp: next_in_turn_def existing_def)
  have "existing s (cpid s + of_nat k)" "0 < k" using k by (auto simp: next_in_turn_def existing_def)
  then have "?A 0 = insert k (?A k)" using le none by (auto intro: ccontr)
  moreover have "?A k = (\<lambda>j. j + k) ` {j. 0 < j \<and> j \<le> ?d - k \<and> existing s' (cpid s' + of_nat j)}"
    (is "_ = _ ` ?B")
  proof (intro equalityI subsetI)
    fix j assume "j \<in> ?A k"
    then have "j - k \<in> ?B" "j = (j - k) + k"
      using existing_tick [OF s'(2)] by (auto simp: s' of_nat_diff)
    then show "j \<in> (\<lambda>j. j + k) ` ?B" by blast
  next
    fix j assume "j \<in> (\<lambda>j. j + k) ` ?B"
    then obtain i where i: "j = i + k" "0 < i" "i \<le> ?d - k" "existing s' (cpid s' + of_nat i)" by blast
    have "cpid s' + of_nat i = cpid s + of_nat j" by (simp add: s'(1) i(1))
    then have "existing s (cpid s + of_nat j)" using i(4) existing_tick [OF s'(2)] by simp
    then show "j \<in> ?A k" using i(1-3) le by simp
  qed
  ultimately have "card (?A 0) = card (insert k ((\<lambda>j. j + k) ` ?B))" by simp
  also have "\<dots> = Suc (card ((\<lambda>j. j + k) ` ?B))"
  proof (rule card_insert_disjoint)
    show "finite ((\<lambda>j. j + k) ` ?B)"
      by (rule finite_imageI, rule finite_subset [of _ "{..?d}"]) auto
  qed auto
  finally show ?thesis by (simp add: turns_until_def d' card_image)
qed

lemma run_ticks_first_turn:
  assumes "scheduling s" and "existing s q" and "length es = turns_until s q"
  shows "\<exists>log s'. run_ticks es s = Some (log, s') \<and> cpid s' = q
    \<and> (es \<noteq> [] \<longrightarrow> fst (last log) = q \<and> q \<notin> fst ` set (butlast log)) \<and> length log = length es"
  using assms
proof (induction es arbitrary: s)
  case Nil
  then show ?case using turns_until_self [of s q] by simp
next
  case (Cons e es)
  obtain fp m where e: "e = (fp, m)" by fastforce
  have ne: "q \<noteq> cpid s" using Cons.prems turns_until_self [of s q] by auto
  obtain gp s' k where t: "irq0_timer_handler fp (s\<lparr>mem := m\<rparr>) = Some (gp, s')"
    "cpid s' = cpid s + of_nat k" "next_in_turn s k" "proc_list s' = proc_list s" "scheduling s'"
    by (rule tick_step [OF Cons.prems(1,2), of fp m]) (rule that; assumption)
  have step: "turns_until s q = Suc (turns_until s' q)"
    by (rule turns_until_step [OF Cons.prems(2) ne t(3,2,4)])
  have q: "existing s' q" using Cons.prems(2) existing_tick [OF t(4)] by simp
  have "length es = turns_until s' q" using Cons.prems(3) step by simp
  then obtain log u where u: "run_ticks es s' = Some (log, u)" "cpid u = q" "length log = length es"
    "es \<noteq> [] \<longrightarrow> fst (last log) = q \<and> q \<notin> fst ` set (butlast log)"
    using Cons.IH [OF t(5) q] by blast
  have "es \<noteq> [] \<Longrightarrow> cpid s' \<noteq> q"
    using turns_until_self [OF q] \<open>length es = turns_until s' q\<close> by auto
  moreover have "es = [] \<Longrightarrow> u = s'" using u(1) by simp
  ultimately show ?case
    using t(1) u by (cases "es = []") (auto simp: e)
qed

text \<open>Claim C4: the scheduler is fair, and exactly so: whatever the processes do to memory between
  two timer interrupts, each process that exists is resumed after as many interrupts as there are
  processes from the current one (not counted) up to it, in the cyclic order of the pids.\<close>

theorem schedule_fair:
  assumes "scheduling s" and "existing s q" and "length es = turns_until s q"
  shows "\<exists>log s'. run_ticks es s = Some (log, s') \<and> cpid s' = q"
  using run_ticks_first_turn [OF assms] by blast

subsection \<open>Context switches\<close>

text \<open>The invariant of the process list: every existing process has an entry and a structure of its
  own, each a live page, and the entry holds its pid; the slot of pid 0 is taken.\<close>

definition sched_inv :: "'a sched_scheme \<Rightarrow> bool" where
  "sched_inv s \<longleftrightarrow> mm_inv (mmgr s) \<and> entry_ptr s 0 \<noteq> 0
     \<and> (\<forall>p. existing s p \<longrightarrow> entry_ptr s p \<in> heads (mmgr s) \<and> proc_ptr s p \<in> heads (mmgr s)
          \<and> pl_pid (plist s (entry_ptr s p)) = p)
     \<and> (\<forall>p q. existing s p \<longrightarrow> existing s q \<longrightarrow> entry_ptr s p \<noteq> proc_ptr s q
          \<and> (p \<noteq> q \<longrightarrow> entry_ptr s p \<noteq> entry_ptr s q \<and> proc_ptr s p \<noteq> proc_ptr s q))"

definition own_procs :: "'a sched_scheme \<Rightarrow> bool" where
  "own_procs s \<longleftrightarrow> (\<forall>p q. existing s p \<longrightarrow> existing s q \<longrightarrow> p \<noteq> q \<longrightarrow> proc_ptr s p \<noteq> proc_ptr s q)"

lemma sched_inv_own_procs: "sched_inv s \<Longrightarrow> own_procs s"
  by (simp add: sched_inv_def own_procs_def)

text \<open>What a run of interrupts relies on: there is no current process yet, or it is one that exists.\<close>

definition running :: "'a sched_scheme \<Rightarrow> u16 \<Rightarrow> bool" where
  "running s p \<longleftrightarrow>
     scheduling s \<and> own_procs s \<and> (cpid s = 0 \<or> existing s (cpid s)) \<and> existing s p"

lemma tick_running:
  assumes r: "running s p"
  obtains gp s' where "irq0_timer_handler fp (s\<lparr>mem := m\<rparr>) = Some (gp, s')" "running s' p"
    "regs (procs s' (proc_ptr s' p)) =
      (if cpid s = p then load_regs m fp else regs (procs s (proc_ptr s p)))"
    "load_regs (mem s') gp = regs (procs s' (proc_ptr s' (cpid s')))"
proof -
  obtain gp s' k where t: "irq0_timer_handler fp (s\<lparr>mem := m\<rparr>) = Some (gp, s')"
    "cpid s' = cpid s + of_nat k" "next_in_turn s k"
    "plist s' = plist s" "proc_list s' = proc_list s" "scheduling s'"
    "procs s' = (if cpid s \<noteq> 0
      then (procs s)(proc_ptr s (cpid s) := procs s (proc_ptr s (cpid s))\<lparr>regs := load_regs m fp\<rparr>)
      else procs s)"
    "load_regs (mem s') gp = regs (procs s' (proc_ptr s' (cpid s')))"
    by (rule tick_step [of s p fp m]) (use r in \<open>auto simp: running_def intro: that\<close>)
  have "existing s' (cpid s')"
    using t(2,3,5) by (simp add: existing_def next_in_turn_def)
  then have "running s' p"
    using r t(4-6) by (simp add: running_def own_procs_def existing_def)
  moreover have "regs (procs s' (proc_ptr s' p)) =
      (if cpid s = p then load_regs m fp else regs (procs s (proc_ptr s p)))"
    using r t(4,5,7) by (auto simp: running_def own_procs_def existing_def)
  ultimately show thesis using t(1,8) by (intro that)
qed

lemma run_ticks_keeps_context:
  assumes "running s1 p" and "regs (procs s1 (proc_ptr s1 p)) = r"
    and "load_regs (mem s1) gp1 = regs (procs s1 (proc_ptr s1 (cpid s1)))"
    and "run_ticks es s1 = Some (log, s')"
    and "p \<notin> fst ` set (butlast ((cpid s1, gp1) # log))" and "last ((cpid s1, gp1) # log) = (p, gp)"
  shows "load_regs (mem s') gp = r"
  using assms
proof (induction es arbitrary: s1 gp1 log)
  case Nil
  then show ?case by auto
next
  case (Cons e es)
  obtain fp m where e: "e = (fp, m)" by fastforce
  obtain gp2 s2 where t: "irq0_timer_handler fp (s1\<lparr>mem := m\<rparr>) = Some (gp2, s2)" "running s2 p"
    "regs (procs s2 (proc_ptr s2 p)) =
      (if cpid s1 = p then load_regs m fp else regs (procs s1 (proc_ptr s1 p)))"
    "load_regs (mem s2) gp2 = regs (procs s2 (proc_ptr s2 (cpid s2)))"
    by (rule tick_running [OF Cons.prems(1)])
  obtain log2 where run: "run_ticks es s2 = Some (log2, s')" "log = (cpid s2, gp2) # log2"
    using Cons.prems(4) t(1) by (auto simp: e split: Option.bind_splits)
  have "cpid s1 \<noteq> p" using Cons.prems(5) run(2) by auto
  then show ?case
    using Cons.prems run t by (intro Cons.IH [of s2 gp2 log2]) auto
qed

lemma interrupted_registers_kept:
  assumes "running s p" and "cpid s = p" and "run_ticks ((fp, m) # es) s = Some (log, s')"
    and "p \<notin> fst ` set (butlast log)" and "last log = (p, gp)"
  shows "load_regs (mem s') gp = load_regs m fp"
proof -
  obtain gp1 s1 where t: "irq0_timer_handler fp (s\<lparr>mem := m\<rparr>) = Some (gp1, s1)" "running s1 p"
    "regs (procs s1 (proc_ptr s1 p)) =
      (if cpid s = p then load_regs m fp else regs (procs s (proc_ptr s p)))"
    "load_regs (mem s1) gp1 = regs (procs s1 (proc_ptr s1 (cpid s1)))"
    by (rule tick_running [OF assms(1)])
  obtain log1 where run: "run_ticks es s1 = Some (log1, s')" "log = (cpid s1, gp1) # log1"
    using assms(3) t(1) by (auto split: Option.bind_splits)
  show ?thesis
    using run_ticks_keeps_context [OF t(2,3,4) run(1)] assms(2,4,5) run(2) by auto
qed

text \<open>Claim C2: a process that is interrupted gets its registers back. If \<open>p\<close> is running when the
  timer interrupt pushes the frame at \<open>fp\<close> in memory \<open>m\<close>, then whatever the other processes do to
  memory meanwhile, the next interrupt that resumes \<open>p\<close> does so from a frame with the same registers.\<close>

theorem preempted_process_keeps_registers:
  assumes "scheduling s" and "sched_inv s" and "existing s p" and "cpid s = p"
    and "run_ticks ((fp, m) # es) s = Some (log, s')"
    and "p \<notin> fst ` set (butlast log)" and "last log = (p, gp)"
  shows "load_regs (mem s') gp = load_regs m fp"
proof -
  have "running s p" using assms(1-4) sched_inv_own_procs by (simp add: running_def)
  then show ?thesis by (rule interrupted_registers_kept [OF _ assms(4-7)])
qed

subsection \<open>New processes\<close>

definition unused_page :: "'a sched_scheme \<Rightarrow> ptr \<Rightarrow> bool" where
  "unused_page s a \<longleftrightarrow> (\<forall>p. existing s p \<longrightarrow> entry_ptr s p \<noteq> a \<and> proc_ptr s p \<noteq> a)"

lemma sched_invD:
  assumes "sched_inv s"
  shows "mm_inv (mmgr s)" "entry_ptr s 0 \<noteq> 0"
    "existing s p \<Longrightarrow> entry_ptr s p \<in> heads (mmgr s)" "existing s p \<Longrightarrow> proc_ptr s p \<in> heads (mmgr s)"
    "existing s p \<Longrightarrow> pl_pid (plist s (entry_ptr s p)) = p"
    "existing s p \<Longrightarrow> existing s q \<Longrightarrow> entry_ptr s p \<noteq> proc_ptr s q"
    "existing s p \<Longrightarrow> existing s q \<Longrightarrow> p \<noteq> q \<Longrightarrow> entry_ptr s p \<noteq> entry_ptr s q"
    "existing s p \<Longrightarrow> existing s q \<Longrightarrow> p \<noteq> q \<Longrightarrow> proc_ptr s p \<noteq> proc_ptr s q"
  using assms unfolding sched_inv_def by blast+

text \<open>An allocation of one page keeps the invariant and gives a page no process has.\<close>

lemma sys_kumalloc_inv:
  assumes inv: "sched_inv s" and al: "sys_kumalloc 1 perms p s = (a, s')"
  shows "sched_inv s'" "a \<noteq> 0 \<Longrightarrow> unused_page s a" "a \<noteq> 0 \<Longrightarrow> a \<in> heads (mmgr s')"
    "a \<noteq> 0 \<Longrightarrow> a \<notin> heads (mmgr s)" "heads (mmgr s) \<subseteq> heads (mmgr s')" "a = 0 \<Longrightarrow> s' = s"
proof -
  note d = sched_invD [OF inv]
  have s': "s' = s\<lparr>mmgr := mmgr s'\<rparr>" and k: "kumalloc 1 perms p (mmgr s) = (a, mmgr s')"
    using sys_kumalloc_frame [OF al] by auto
  have keep: "heads (mmgr s) \<subseteq> heads (mmgr s')" by (rule pages.alloc_keeps_live [OF d(1) k])
  then show "heads (mmgr s) \<subseteq> heads (mmgr s')" .
  have mm: "mm_inv (mmgr s')" by (rule pages.alloc_inv [OF d(1) k])
  have same: "proc_list s' = proc_list s" "plist s' = plist s"
    by (subst s', simp)+
  then have ex: "existing s' q = existing s q" for q by (simp add: existing_def)
  show "sched_inv s'"
    using inv mm keep unfolding sched_inv_def ex same by blast
  show "a \<in> heads (mmgr s')" "a \<notin> heads (mmgr s)" if "a \<noteq> 0"
    using pages.alloc_new [OF d(1) k that] by auto
  then show "unused_page s a" if "a \<noteq> 0"
    using that d(3,4) by (auto simp: unused_page_def)
  show "s' = s" if "a = 0"
  proof -
    have "mmgr s' = mmgr s" using pages.alloc_null [OF d(1)] k that by blast
    then show "s' = s" by (subst s') simp
  qed
qed

text \<open>What registration does to the state once it has a page \<open>new\<close> and a pid \<open>p\<close>.\<close>

definition registered :: "ptr \<Rightarrow> ptr \<Rightarrow> ptr \<Rightarrow> u16 \<Rightarrow> 'a sched_scheme \<Rightarrow> 'a sched_scheme" where
  "registered parent proc new p s =
     (let e = (plist s new)\<lparr>process := proc, pl_pid := p\<rparr>
      in s\<lparr>lapid := p, proc_list := (proc_list s)(ucast p := new),
           plist := (plist s)(new := e\<lparr>ppid := if parent = 0 then 0
             else if parent = new then p else pl_pid (plist s parent)\<rparr>)\<rparr>)"

lemma register_process_eq:
  assumes al: "sys_kmalloc 1 6 s = (new, s1)" "new \<noteq> 0" and free: "entry_ptr s q = 0"
  obtains p where "entry_ptr s p = 0"
    "register_process parent proc s = Some (ucast p, registered parent proc new p s1)"
proof -
  obtain m where "s1 = s\<lparr>mmgr := m\<rparr>"
    using sys_kumalloc_frame [OF al(1) [unfolded sys_kmalloc_eq]] by blast
  then have pl: "proc_list s1 = proc_list s" by simp
  obtain k where k: "first_from (\<lambda>i. entry_ptr s i = 0) (lapid s1) = Some (lapid s1 + of_nat k)"
    "entry_ptr s (lapid s1 + of_nat k) = 0"
    by (rule first_from_ends [of "\<lambda>i. entry_ptr s i = 0" q "lapid s1"]) (use free that in auto)
  have "register_process parent proc s =
      Some (ucast (lapid s1 + of_nat k), registered parent proc new (lapid s1 + of_nat k) s1)"
    using al(2) k(1) pl
    by (simp add: register_process_def al(1) set_entry_def registered_def Let_def)
  with k(2) show thesis by (rule that)
qed

lemma registered_inv:
  assumes inv: "sched_inv s" and p: "entry_ptr s p = 0"
    and new: "new \<in> heads (mmgr s)" "unused_page s new"
    and proc: "proc \<in> heads (mmgr s)" "unused_page s proc" "proc \<noteq> new"
  shows "sched_inv (registered parent proc new p s)"
    "existing (registered parent proc new p s) q \<longleftrightarrow> existing s q \<or> q = p"
    "q \<noteq> p \<Longrightarrow> entry_ptr (registered parent proc new p s) q = entry_ptr s q"
    "existing s q \<Longrightarrow> plist (registered parent proc new p s) (entry_ptr s q) = plist s (entry_ptr s q)"
    "proc_ptr (registered parent proc new p s) p = proc"
    "entry_ptr (registered parent proc new p s) p = new"
proof -
  let ?s = "registered parent proc new p s"
  note d = sched_invD [OF inv]
  have p0: "p \<noteq> 0" using p d(2) by metis
  have new0: "new \<noteq> 0" using new(1) null_not_head [OF d(1)] by auto
  show e: "entry_ptr ?s q = entry_ptr s q" if "q \<noteq> p" for q
    using that by (simp add: registered_def Let_def ucast_u16_u32_inj)
  show ep: "entry_ptr ?s p = new" by (simp add: registered_def Let_def)
  show pp: "proc_ptr ?s p = proc" unfolding ep by (simp add: registered_def Let_def)
  have pid: "pl_pid (plist ?s new) = p" by (simp add: registered_def Let_def)
  show ex: "existing ?s q \<longleftrightarrow> existing s q \<or> q = p" for q
    using e [of q] ep new0 p0 p by (cases "q = p") (auto simp: existing_def)
  have notp: "q \<noteq> p" if "existing s q" for q using that p by (auto simp: existing_def)
  have old: "plist ?s (entry_ptr s q) = plist s (entry_ptr s q)" if "existing s q" for q
    using new(2) that by (auto simp: unused_page_def registered_def Let_def)
  show "existing s q \<Longrightarrow> plist ?s (entry_ptr s q) = plist s (entry_ptr s q)" by (rule old)
  have oldpp: "proc_ptr ?s q = proc_ptr s q" "entry_ptr ?s q = entry_ptr s q" if "existing s q" for q
    using that old [OF that] e [OF notp [OF that]] by simp_all
  have mm: "mmgr ?s = mmgr s" by (simp add: registered_def Let_def)
  show "sched_inv ?s"
    unfolding sched_inv_def mm
  proof (intro conjI allI impI)
    show "mm_inv (mmgr s)" by (rule d(1))
    show "entry_ptr ?s 0 \<noteq> 0" using e [of 0] p0 d(2) by metis
    fix q assume q: "existing ?s q"
    show "entry_ptr ?s q \<in> heads (mmgr s)" "proc_ptr ?s q \<in> heads (mmgr s)"
      "pl_pid (plist ?s (entry_ptr ?s q)) = q"
      using q d(3,4,5) [of q] oldpp old ep pp pid new(1) proc(1) unfolding ex by auto
    fix r assume r: "existing ?s r"
    show "entry_ptr ?s q \<noteq> proc_ptr ?s r"
      using q r d(6) [of q r] oldpp ep pp new(2) proc(2,3) unfolding ex unused_page_def by metis
    show "entry_ptr ?s q \<noteq> entry_ptr ?s r" "proc_ptr ?s q \<noteq> proc_ptr ?s r" if "q \<noteq> r"
      using that q r d(7,8) [of q r] oldpp ep pp new(2) proc(2) unfolding ex unused_page_def by metis+
  qed
qed

lemma get_proc_u16 [simp]: "get_proc (ucast (p :: u16)) s = entry_ptr s p"
proof -
  have "\<not> (65536 :: u32) < ucast p"
    using unat_lt_u16 [of p] by (simp add: word_less_nat_alt unat_ucast_u16_u32)
  then show ?thesis by (simp add: get_proc_def)
qed

lemma sched_inv_cong:
  assumes "mmgr s' = mmgr s" "proc_list s' = proc_list s"
    and "\<And>p. existing s p \<Longrightarrow> process (plist s' (entry_ptr s p)) = proc_ptr s p
      \<and> pl_pid (plist s' (entry_ptr s p)) = pl_pid (plist s (entry_ptr s p))"
  shows "sched_inv s' = sched_inv s"
  using assms by (simp add: sched_inv_def existing_def)

lemma push_args_loop_sp: "fst (push_args_loop argv n sp m) = sp - 4 * of_nat n"
proof (induction n arbitrary: argv sp m)
  case (Suc n)
  have "fst (push_args_loop argv (Suc n) sp m) = sp - 4 - 4 * of_nat n" by (simp add: Suc.IH)
  then show ?case by (simp add: algebra_simps)
qed simp

lemma push_args_sp: "fst (push_args argv argc sp m) = sp - 4 * argc - 4"
  using push_args_loop_sp [of argv "unat argc" sp m] by (simp add: push_args_def split_def Let_def)

text \<open>The structure \<open>kfork\<close> leaves for the new process.\<close>

definition forked :: "u32 \<Rightarrow> ptr \<Rightarrow> u32 \<Rightarrow> process32 \<Rightarrow> bool" where
  "forked eflags fn count q \<longleftrightarrow>
     abi q = 0 \<and> lock q = 0 \<and> priority q = 4 \<and> allocated_pages q = - 1
     \<and> stack_limit q = stack_base q + 4096
     \<and> r_eip (regs q) = fn \<and> r_eflags (regs q) = eflags \<and> r_cs (regs q) = 8 \<and> r_ds (regs q) = 0x10
     \<and> r_ebp (regs q) = stack_limit q \<and> r_esp (regs q) = stack_limit q - 4 * count - 8"

text \<open>Two pages for a process and its entry, and the registration between them, as \<open>kfork\<close> and \<open>fork\<close>
  begin.\<close>

lemma register_new_process:
  assumes inv: "sched_inv s" and free: "entry_ptr s q = 0"
    and al: "sys_kmalloc 1 6 s = (proc, s1)" "proc \<noteq> 0" "sys_kmalloc 1 6 s1 = (new, s2)" "new \<noteq> 0"
    and R: "R = (\<lambda>p. registered parent proc new p s2)"
  obtains p m where "entry_ptr s p = 0" "register_process parent proc s1 = Some (ucast p, R p)"
    "s2 = s\<lparr>mmgr := m\<rparr>" "sched_inv (R p)" "\<And>x. existing (R p) x \<longleftrightarrow> existing s x \<or> x = p"
    "entry_ptr (R p) p = new" "proc_ptr (R p) p = proc"
    "\<And>x. existing s x \<Longrightarrow> entry_ptr (R p) x = entry_ptr s x \<and> plist (R p) (entry_ptr s x) = plist s (entry_ptr s x)
      \<and> entry_ptr s x \<noteq> new \<and> proc_ptr s x \<noteq> proc"
proof -
  note al' = al(1) [unfolded sys_kmalloc_eq] al(3) [unfolded sys_kmalloc_eq]
  note a1 = sys_kumalloc_inv [OF inv al'(1)]
  note a2 = sys_kumalloc_inv [OF a1(1) al'(2)]
  obtain m1 m2 where s: "s1 = s\<lparr>mmgr := m1\<rparr>" "s2 = s1\<lparr>mmgr := m2\<rparr>"
    using sys_kumalloc_frame [OF al'(1)] sys_kumalloc_frame [OF al'(2)] by blast
  have ex: "existing s2 x = existing s x" for x by (simp add: s existing_def)
  obtain p where p: "entry_ptr s p = 0" "register_process parent proc s1 = Some (ucast p, R p)"
    by (rule register_process_eq [OF al(3,4), where q = q and parent = parent and proc = proc])
      (use free that in \<open>auto simp: s R\<close>)
  have unused: "unused_page s2 proc" "unused_page s2 new" and ne: "proc \<noteq> new"
    using a1(2,3) a2(2,4) al(2,4) by (auto simp: unused_page_def s existing_def)
  have proc: "proc \<in> heads (mmgr s2)" using a1(3) a2(5) al(2) by auto
  have "entry_ptr s2 p = 0" using p(1) by (simp add: s)
  note r = registered_inv [OF a2(1) this a2(3) [OF al(4)] unused(2) proc unused(1) ne, where parent = parent]
  have old: "entry_ptr (R p) x = entry_ptr s x \<and> plist (R p) (entry_ptr s x) = plist s (entry_ptr s x)
      \<and> entry_ptr s x \<noteq> new \<and> proc_ptr s x \<noteq> proc" if x: "existing s x" for x
  proof -
    have "existing s2 x" using x ex by blast
    moreover have "x \<noteq> p" using x p(1) by (auto simp: existing_def)
    ultimately show ?thesis using r(3,4) [of x] unused unfolding R by (auto simp: unused_page_def s)
  qed
  show thesis by (rule that [of p m2]) (use p r old ex s R in simp_all)
qed

lemma kfork_spec:
  assumes inv: "sched_inv s" and free: "entry_ptr s q = 0"
    and al: "sys_kmalloc 1 6 s = (proc, s1)" "proc \<noteq> 0" "sys_kmalloc 1 6 s1 = (new, s2)" "new \<noteq> 0"
  obtains p s' where "kfork eflags fn args count s = Some (ucast p, s')" "\<not> existing s p" "sched_inv s'"
    "\<And>q. existing s' q \<longleftrightarrow> existing s q \<or> q = p" "ring0 (plist s' (entry_ptr s' p))"
    "forked eflags fn count (procs s' (proc_ptr s' p))"
    "\<And>q. existing s q \<Longrightarrow> entry_ptr s' q = entry_ptr s q
      \<and> plist s' (entry_ptr s q) = plist s (entry_ptr s q)
      \<and> procs s' (proc_ptr s q) = procs s (proc_ptr s q)"
    "active_procs s' = active_procs s + 1" "cpid s' = cpid s" "enable_scheduler s' = enable_scheduler s"
    "mmgr s' = snd (kumalloc 1 6 (ucast p) (mmgr s2))" "entry_ptr s' p = new" "proc_ptr s' p = proc"
proof -
  obtain p m where p: "entry_ptr s p = 0" "register_process 0 proc s1 = Some (ucast p, registered 0 proc new p s2)"
    and s2: "s2 = s\<lparr>mmgr := m\<rparr>" and r: "sched_inv (registered 0 proc new p s2)"
    "\<And>x. existing (registered 0 proc new p s2) x \<longleftrightarrow> existing s x \<or> x = p"
    "entry_ptr (registered 0 proc new p s2) p = new" "proc_ptr (registered 0 proc new p s2) p = proc"
    "\<And>x. existing s x \<Longrightarrow> entry_ptr (registered 0 proc new p s2) x = entry_ptr s x
      \<and> plist (registered 0 proc new p s2) (entry_ptr s x) = plist s (entry_ptr s x)
      \<and> entry_ptr s x \<noteq> new \<and> proc_ptr s x \<noteq> proc"
    by (rule register_new_process [OF inv free al refl, where parent = 0]) (rule that; assumption)
  let ?s2 = "registered 0 proc new p s2"
  let ?s4 = "set_proc proc (\<lambda>q. q\<lparr>abi := 0, allocated_pages := - 1, lock := 0, priority := 4\<rparr>)
    (set_entry new (\<lambda>e. e\<lparr>process := proc, ring0 := True\<rparr>) ?s2)"
  have inv4: "sched_inv ?s4"
    using r(1,3,4)
    by (subst sched_inv_cong [of ?s4 ?s2]) (auto simp: set_proc_def set_entry_def)
  obtain stk s5 where s5: "sys_kumalloc 1 6 (ucast p) ?s4 = (stk, s5)" by fastforce
  note a5 = sys_kumalloc_inv [OF inv4 s5]
  obtain m5 where m5: "s5 = ?s4\<lparr>mmgr := m5\<rparr>" using sys_kumalloc_frame [OF s5] by blast
  let ?regs = "kfork_regs fn (stk + 4096) eflags (regs (procs ?s4 proc))"
  obtain sp m where push: "push_args args count (stk + 4096) (mem s5) = (sp, m)" by fastforce
  have sp: "sp = stk + 4096 - 4 * count - 4" using push_args_sp [of args count "stk + 4096" "mem s5"] push by simp
  let ?q = "(procs ?s4 proc)\<lparr>stack_base := stk, stack_limit := stk + 4096,
      regs := ?regs\<lparr>r_esp := sp - 4\<rparr>\<rparr>"
  let ?s' = "s5\<lparr>mem := m, procs := (procs s5)(proc := ?q), active_procs := active_procs s5 + 1\<rparr>"
  have pc: "procs s5 proc = procs ?s4 proc" by (simp add: m5)
  have "get_proc (ucast p) ?s2 = new" using r(3) by simp
  then have res: "kfork eflags fn args count s = Some (ucast p, ?s')"
    using al(1) p(2) s5 push pc
    by (simp add: kfork_def set_proc_def kfork_regs_def kernel_ss_update_def Let_def)
  have pl5: "proc_list s5 = proc_list ?s2" "plist s5 = plist ?s4"
    by (simp_all add: m5 set_proc_def set_entry_def)
  have old: "entry_ptr s5 x = entry_ptr s x \<and> plist s5 (entry_ptr s x) = plist s (entry_ptr s x)
      \<and> procs s5 (proc_ptr s x) = procs s (proc_ptr s x) \<and> proc_ptr s x \<noteq> proc" if "existing s x" for x
    using r(5) [OF that] by (simp add: m5 set_proc_def set_entry_def s2 registered_def Let_def)
  show thesis
  proof (rule that [OF res])
    show "\<not> existing s p" using p(1) by (simp add: existing_def)
    show "sched_inv ?s'" by (subst sched_inv_cong [of ?s' s5]) (simp_all add: a5(1))
    show "existing ?s' x \<longleftrightarrow> existing s x \<or> x = p" for x
      using r(2) [of x] pl5(1) by (simp add: existing_def)
    show "ring0 (plist ?s' (entry_ptr ?s' p))"
      using r(3) pl5 by (simp add: set_proc_def set_entry_def)
    show "entry_ptr ?s' p = new" using r(3) pl5 by simp
    show pp: "proc_ptr ?s' p = proc" using r(3) pl5 by (simp add: set_proc_def set_entry_def)
    show "forked eflags fn count (procs ?s' (proc_ptr ?s' p))"
      using sp unfolding pp by (simp add: forked_def kfork_regs_def kernel_ss_update_def set_proc_def algebra_simps)
  next
    fix x assume "existing s x"
    from old [OF this] show "entry_ptr ?s' x = entry_ptr s x
      \<and> plist ?s' (entry_ptr s x) = plist s (entry_ptr s x)
      \<and> procs ?s' (proc_ptr s x) = procs s (proc_ptr s x)" by simp
  next
    show "mmgr ?s' = snd (kumalloc 1 6 (ucast p) (mmgr s2))"
      using s5 by (auto simp: sys_kumalloc_pair set_proc_def set_entry_def registered_def Let_def)
  qed (simp_all add: m5 set_proc_def set_entry_def registered_def s2 Let_def)
qed

text \<open>Claim C9: \<open>kfork\<close> with two free pages and a free pid makes one new process, keeping the process
  list's invariant and every other process: its pid was free, it is a kernel process at its start
  address with its own stack, and the process count grows by one.\<close>

theorem kfork_creates_process:
  assumes "sched_inv s" and "entry_ptr s q = 0" and "sys_kmalloc 1 6 s = (proc, s1)" and "proc \<noteq> 0"
    and "sys_kmalloc 1 6 s1 = (new, s2)" and "new \<noteq> 0"
  shows "\<exists>p s'. kfork eflags fn args count s = Some (ucast p, s') \<and> \<not> existing s p \<and> sched_inv s'
    \<and> (\<forall>q. existing s' q \<longleftrightarrow> existing s q \<or> q = p) \<and> ring0 (plist s' (entry_ptr s' p))
    \<and> forked eflags fn count (procs s' (proc_ptr s' p))
    \<and> (\<forall>q. existing s q \<longrightarrow> entry_ptr s' q = entry_ptr s q
      \<and> plist s' (entry_ptr s q) = plist s (entry_ptr s q)
      \<and> procs s' (proc_ptr s q) = procs s (proc_ptr s q))
    \<and> active_procs s' = active_procs s + 1"
  by (rule kfork_spec [OF assms, of eflags fn args count]) blast

text \<open>A process made by \<open>kfork\<close> starts where it should: whatever the other processes do, the
  first timer interrupt that resumes it does so from a frame with its start address, code segment
  and flags.\<close>

theorem kfork_starts_at_function:
  assumes "sched_inv s" and "entry_ptr s q = 0" and "sys_kmalloc 1 6 s = (proc, s1)" and "proc \<noteq> 0"
    and "sys_kmalloc 1 6 s1 = (new, s2)" and "new \<noteq> 0"
    and "kfork eflags fn args count s = Some (ret, s')" and "scheduling s'"
    and "cpid s = 0 \<or> existing s (cpid s)"
    and "run_ticks (e # es) s' = Some (log, u)" and "ucast (ret) \<notin> fst ` set (butlast log)"
    and "last log = (ucast ret, gp)"
  shows "r_eip (load_regs (mem u) gp) = fn \<and> r_cs (load_regs (mem u) gp) = 8
    \<and> r_eflags (load_regs (mem u) gp) = eflags"
proof -
  obtain p v where k: "kfork eflags fn args count s = Some (ucast p, v)" "\<not> existing s p" "sched_inv v"
    "\<And>q. existing v q \<longleftrightarrow> existing s q \<or> q = p" "forked eflags fn count (procs v (proc_ptr v p))"
    "cpid v = cpid s"
    by (rule kfork_spec [OF assms(1-6), of eflags fn args count]) (rule that; assumption)
  have ret: "(ucast ret :: u16) = p" "s' = v"
    using k(1) assms(7) by auto
  have p: "running s' p"
    using assms(8,9) k(3,4,6) sched_inv_own_procs by (auto simp: running_def ret)
  have "p \<noteq> 0" using k(4) [of p] unfolding existing_def by blast
  then have "cpid s' \<noteq> p" using k(2,6) assms(9) unfolding ret(2) by metis
  obtain fp m where e: "e = (fp, m)" by fastforce
  obtain gp1 w where t: "irq0_timer_handler fp (s'\<lparr>mem := m\<rparr>) = Some (gp1, w)" "running w p"
    "regs (procs w (proc_ptr w p)) =
      (if cpid s' = p then load_regs m fp else regs (procs s' (proc_ptr s' p)))"
    "load_regs (mem w) gp1 = regs (procs w (proc_ptr w (cpid w)))"
    by (rule tick_running [OF p])
  obtain log1 where run: "run_ticks es w = Some (log1, u)" "log = (cpid w, gp1) # log1"
    using assms(10) t(1) by (auto simp: e split: Option.bind_splits)
  have "load_regs (mem u) gp = regs (procs s' (proc_ptr s' p))"
    using run_ticks_keeps_context [OF t(2,3,4) run(1), of gp] assms(11,12) run(2) ret \<open>cpid s' \<noteq> p\<close> by auto
  then show ?thesis using k(5) by (simp add: forked_def ret)
qed

subsection \<open>Arguments\<close>

lemma load_words_append:
  "load_words m a (n + k) = load_words m a n @ load_words m (a + 4 * of_nat n) k"
  by (induction n arbitrary: a) (auto simp: algebra_simps)

lemma push_args_loop_layout:
  assumes "push_args_loop argv n sp m = (sp', m')" and "4 * n \<le> 2 ^ 32"
    and "apart argv (4 * n) (sp - 4 * of_nat n) (4 * n)"
  shows "load_words m' sp' n = rev (load_words m argv n)
    \<and> (\<forall>x. \<not> in_region (sp - 4 * of_nat n) (4 * n) x \<longrightarrow> m' x = m x)"
  using assms
proof (induction n arbitrary: argv sp m)
  case (Suc n)
  let ?m = "store32 (sp - 4) (load32 m argv) m" and ?b = "sp - 4 * of_nat (Suc n)"
  have b: "sp - 4 - 4 * of_nat n = ?b" "?b + of_nat (4 * n) = sp - 4" by (simp_all add: algebra_simps)
  have rest: "push_args_loop (argv + 4) n (sp - 4) ?m = (sp', m')" using Suc.prems(1) by simp
  have sp': "sp' = ?b" using push_args_loop_sp [of argv "Suc n" sp m] Suc.prems(1) by simp
  have ap: "apart (argv + 4) (4 * n) ?b (4 * n)"
    using apart_sub_left [of argv "4 * Suc n" ?b "4 * Suc n" 4 "4 * n"] Suc.prems(2,3)
    by (auto intro: apart_mono)
  have IH: "load_words m' sp' n = rev (load_words ?m (argv + 4) n)"
    "\<And>x. \<not> in_region ?b (4 * n) x \<Longrightarrow> m' x = ?m x"
    using Suc.IH [OF rest] Suc.prems(2) ap unfolding b(1) by auto
  have top: "apart ?b (4 * n) (sp - 4) 4"
    using apart_adjacent [of "4 * n" 4 ?b] Suc.prems(2) unfolding b(2) by simp
  have "load32 m' (sp - 4) = load32 ?m (sp - 4)"
    by (rule load32_cong, rule IH(2)) (use top in \<open>auto simp: apart_iff\<close>)
  moreover have "load_words ?m (argv + 4) n = load_words m (argv + 4) n"
  proof (rule load_words_cong)
    fix x assume "in_region (argv + 4) (4 * n) x"
    then have "in_region argv (4 * Suc n) x"
      using in_subregion [of argv 4 "4 * n" x "4 * Suc n"] Suc.prems(2) by simp
    then have "\<not> in_region ?b (4 * Suc n) x" using Suc.prems(3) by (rule apartD [rotated])
    then have "\<not> in_region (sp - 4) 4 x"
      using in_subregion [of ?b "4 * n" 4 x "4 * Suc n"] Suc.prems(2) unfolding b(2) by auto
    then show "?m x = m x" by (rule store32_outside)
  qed (use Suc.prems(2) in simp)
  moreover have "load_words m' sp' (n + 1) = load_words m' sp' n @ [load32 m' (sp - 4)]"
  proof -
    have "sp' + 4 * of_nat n = sp - 4" by (simp add: sp' algebra_simps)
    then show ?thesis by (simp only: load_words_append) simp
  qed
  ultimately have "load_words m' sp' (n + 1) = rev (load_words m argv (Suc n))"
    unfolding IH(1) by simp
  moreover have "m' x = m x" if "\<not> in_region ?b (4 * Suc n) x" for x
  proof -
    have "\<not> in_region ?b (4 * n) x" using that in_region_mono [of ?b "4 * n" x "4 * Suc n"] by auto
    moreover have "\<not> in_region (sp - 4) 4 x"
      using that in_subregion [of ?b "4 * n" 4 x "4 * Suc n"] Suc.prems(2) unfolding b(2) by auto
    ultimately show ?thesis using IH(2) by (simp add: store32_outside)
  qed
  ultimately show ?case by simp
qed simp

text \<open>What \<open>push_args\<close> leaves on the stack of a new kernel process: from the returned stack
  pointer up a 0, then the arguments from the last to the first. A C function would need them the
  other way around.\<close>

theorem push_args_layout:
  assumes "push_args argv argc sp m = (sp', m')" and "4 * unat argc + 4 \<le> 2 ^ 32"
    and "apart argv (4 * unat argc) (sp - 4 * argc) (4 * unat argc)"
  shows "sp' = sp - 4 * argc - 4
    \<and> load_words m' sp' (Suc (unat argc)) = 0 # rev (load_words m argv (unat argc))"
proof -
  obtain sp1 m1 where l: "push_args_loop argv (unat argc) sp m = (sp1, m1)" by fastforce
  have sp1: "sp1 = sp - 4 * argc" using push_args_loop_sp [of argv "unat argc" sp m] l by simp
  have m': "sp' = sp1 - 4" "m' = store32 (sp1 - 4) 0 m1"
    using assms(1) l by (auto simp: push_args_def)
  have "load_words m' sp1 (unat argc) = load_words m1 sp1 (unat argc)"
  proof (rule load_words_cong)
    fix x assume "in_region sp1 (4 * unat argc) x"
    moreover have "apart (sp1 - 4) 4 sp1 (4 * unat argc)"
      using apart_adjacent [of 4 "4 * unat argc" "sp1 - 4"] assms(2) by simp
    ultimately show "m' x = m1 x" unfolding m' by (intro store32_outside) (auto simp: apart_iff)
  qed (use assms(2) in simp)
  moreover have "load_words m1 sp1 (unat argc) = rev (load_words m argv (unat argc))"
    using push_args_loop_layout [OF l] assms(2,3) by simp
  ultimately show ?thesis by (simp add: m' sp1)
qed

subsection \<open>What exec and exit leave behind\<close>

text \<open>\<open>exec\<close> does not replace the process. Whatever it returns, the process list and every
  process structure, with the registers the process is resumed from, are as before: the new entry
  point, stack pointer and memory bounds are set in a local copy that is dropped.\<close>

theorem exec_leaves_process_unchanged:
  assumes "exec exit_v_fp buffer buffer_size p argv s = Some (r, s')"
  shows "procs s' = procs s \<and> plist s' = plist s \<and> proc_list s' = proc_list s
    \<and> cpid s' = cpid s \<and> active_procs s' = active_procs s"
  using assms
  by (auto simp: exec_def Let_def sys_kumalloc_def sys_kfree_def split: Option.bind_splits if_splits prod.splits)

lemma exit_v_eq: "exit_v s = exit_proc c (get_pid s) s"
  by (simp add: exit_v_def exit_proc_def Let_def)

lemma exit_proc_frame:
  assumes "exit_proc c p s = Some s'"
  shows "proc_list s' = (proc_list s)(p := 0)" "plist s' = plist s" "procs s' = procs s"
    "cpid s' = cpid s" "active_procs s' = active_procs s - 1" "enable_scheduler s' = enable_scheduler s"
  using assms
  by (auto simp: exit_proc_def sys_kfree_def Let_def split: Option.bind_splits)

text \<open>Claim C40: after \<open>exit_v\<close> the dead process is still the current one, and the next timer interrupt
  saves its registers through the null pointer its exit left in the process list: the structure
  written is the one the word at address 0 points to.\<close>

theorem exit_then_tick_writes_through_null:
  assumes "exit_v s = Some s1" and "cpid s \<noteq> 0" and "scheduling s1" and "existing s1 q"
  shows "\<exists>gp s2. irq0_timer_handler fp (s1\<lparr>mem := m\<rparr>) = Some (gp, s2)
    \<and> procs s2 = (procs s1)(process (plist s1 0) := procs s1 (process (plist s1 0))\<lparr>regs := load_regs m fp\<rparr>)"
proof -
  have "exit_proc 0 (get_pid s) s = Some s1" using assms(1) by (simp add: exit_v_eq [of s 0])
  note e = exit_proc_frame [OF this]
  have null: "entry_ptr s1 (cpid s1) = 0" using e by (simp add: get_pid_def)
  obtain gp s2 where "irq0_timer_handler fp (s1\<lparr>mem := m\<rparr>) = Some (gp, s2)"
    "procs s2 = (if cpid s1 \<noteq> 0
      then (procs s1)(proc_ptr s1 (cpid s1) := procs s1 (proc_ptr s1 (cpid s1))\<lparr>regs := load_regs m fp\<rparr>)
      else procs s1)"
    by (rule tick_step [OF assms(3,4), of fp m]) (rule that; assumption)
  then show ?thesis using null assms(2) e(4) by auto
qed

text \<open>The pages of the process list and of the process structures belong to the kernel, pid 0.\<close>

definition kernel_owned :: "'a sched_scheme \<Rightarrow> bool" where
  "kernel_owned s \<longleftrightarrow> (\<forall>q. existing s q \<longrightarrow>
     pid (page_table (mmgr s) (uint (entry_ptr s q div 4096))) = 0
     \<and> pid (page_table (mmgr s) (uint (proc_ptr s q div 4096))) = 0)"

lemma exit_proc_removes:
  assumes inv: "sched_inv s" and p: "existing s p" and kern: "kernel_owned s"
    and own: "owners_used (mmgr s) (ucast p)" and al: "allocated_pages (procs s (proc_ptr s p)) = - 1"
  shows "\<exists>s'. exit_proc c (ucast p) s = Some s' \<and> sched_inv s'
    \<and> (\<forall>q. existing s' q \<longleftrightarrow> existing s q \<and> q \<noteq> p) \<and> active_procs s' = active_procs s - 1
    \<and> heads (mmgr s') = {a \<in> heads (mmgr s). \<not> owned (mmgr s) (ucast p) (uint (a div 4096))}
        - {proc_ptr s p, entry_ptr s p}"
proof -
  note d = sched_invD [OF inv]
  have p0: "p \<noteq> 0" using p by (simp add: existing_def)
  have "ucast p \<noteq> (ucast (0 :: u16) :: u32)" using p0 ucast_u16_u32_inj by blast
  then have p0': "(ucast p :: u32) \<noteq> 0" by simp
  let ?m = "(mmgr s)\<lparr>page_table := \<lambda>x. if owned (mmgr s) (ucast p) x then zero_entry
    else page_table (mmgr s) x\<rparr>"
  have "table_len (mmgr s) \<le> uint (- 1 :: u32)"
    using d(1) by (simp add: mm_inv_def uint_word_ariths)
  then have m: "kfree_pid (ucast p) (- 1) (mmgr s) = Some ?m"
    by (rule kfree_pid_owned [OF d(1) own p0'])
  note mi = kfree_pid_inv [OF d(1), of "ucast p"]
  have notown: "\<not> owned (mmgr s) (ucast p) (uint (entry_ptr s q div 4096))"
    "\<not> owned (mmgr s) (ucast p) (uint (proc_ptr s q div 4096))" if "existing s q" for q
    using kern that p0' by (auto simp: kernel_owned_def owned_def)
  have h: "proc_ptr s p \<in> heads ?m" "entry_ptr s p \<in> heads ?m"
    using d(3,4) [OF p] notown [OF p] by (auto simp: mi(2))
  obtain m1 where m1: "kfree (proc_ptr s p) ?m = Some m1" "heads m1 = heads ?m - {proc_ptr s p}" "mm_inv m1"
    using pages.free_live [OF mi(1) h(1)] by blast
  have "entry_ptr s p \<in> heads m1" using h(2) m1(2) d(6) [OF p p] by simp
  then obtain m2 where m2: "kfree (entry_ptr s p) m1 = Some m2" "heads m2 = heads m1 - {entry_ptr s p}" "mm_inv m2"
    using pages.free_live [OF m1(3)] by blast
  let ?s' = "s\<lparr>mmgr := m2, proc_list := (proc_list s)(ucast p := 0), active_procs := active_procs s - 1\<rparr>"
  have res: "exit_proc c (ucast p) s = Some ?s'"
    using al m m1(1) m2(1) by (simp add: exit_proc_def sys_kfree_def Let_def)
  have ex: "existing ?s' q \<longleftrightarrow> existing s q \<and> q \<noteq> p" for q by (auto simp: existing_def)
  have keep: "entry_ptr s q \<in> heads m2" "proc_ptr s q \<in> heads m2" if "existing s q" "q \<noteq> p" for q
    using d(3,4) [OF that(1)] notown [OF that(1)] d(6) [OF that(1) p] d(6) [OF p that(1)]
      d(7,8) [OF that(1) p that(2)] by (auto simp: m1(2) m2(2) mi(2))
  have "sched_inv ?s'"
    unfolding sched_inv_def ex
  proof (intro conjI allI impI; (elim conjE)?)
    show "entry_ptr ?s' 0 \<noteq> 0" using d(2) p0' by simp
  qed (use keep d m2(3) in auto)
  then show ?thesis using res ex m1(2) m2(2) mi(2) by auto
qed


lemma fork_regs_eq: "fork_regs c l par n = (regs par)\<lparr>r_eax := 0\<rparr>"
  by (simp add: fork_regs_def Let_def)

text \<open>The state after the new process is registered decides the rest of \<open>fork\<close>.\<close>

lemma fork_rest:
  assumes "sys_kmalloc 1 6 s = (nproc, s1)" and "register_process proc nproc s1 = Some (c, s2)"
    and "proc \<noteq> 0" and "c \<noteq> - 1" and "fork proc s = Some (ret, s')" and "ret \<noteq> 0"
    and "process (plist s2 proc) \<noteq> nproc"
  shows "ret = c \<and> proc_list s' = proc_list s2 \<and> plist s' = plist s2 \<and> cpid s' = cpid s2
    \<and> regs (procs s' nproc) = (regs (procs s2 (process (plist s2 proc))))\<lparr>r_eax := 0\<rparr>
    \<and> stack_limit (procs s' nproc) = 4096"
  using assms
  by (auto simp: fork_def Let_def sys_kumalloc_pair sys_kmalloc_eq set_proc_def fork_regs_eq printf_def
      split: if_splits)

lemma fork_unregistered:
  assumes "sys_kmalloc 1 6 s = (nproc, s1)" and "register_process proc nproc s1 = Some (- 1, s2)"
    and "proc \<noteq> 0" and "fork proc s = Some (ret, s')"
  shows "ret = 0"
  using assms
  by (auto simp: fork_def Let_def sys_kumalloc_pair sys_kmalloc_eq split: if_splits Option.bind_splits)

text \<open>The child of \<open>fork\<close> runs on its parent's stack: its registers are the parent's, stack
  pointer and base pointer included, but for the 0 in \<open>eax\<close>; and the stack limit recorded for it is
  the size of a stack, not the end of the one allocated for it.\<close>

theorem fork_child_keeps_parent_stack:
  assumes inv: "sched_inv s" and p: "existing s p" and free: "entry_ptr s q = 0"
    and fork: "fork (entry_ptr s p) s = Some (ret, s')" "ret \<noteq> 0"
  shows "\<exists>c. ret = ucast c \<and> \<not> existing s c \<and> existing s' c
    \<and> regs (procs s' (proc_ptr s' c)) = (regs (procs s (proc_ptr s p)))\<lparr>r_eax := 0\<rparr>
    \<and> stack_limit (procs s' (proc_ptr s' c)) = 4096"
proof -
  let ?e = "entry_ptr s p"
  obtain nproc s1 new s2 where al: "sys_kmalloc 1 6 s = (nproc, s1)" "sys_kmalloc 1 6 s1 = (new, s2)"
    by (meson surj_pair)
  have parent: "?e \<noteq> 0" using p by (simp add: existing_def)
  have new: "new \<noteq> 0"
  proof
    assume "new = 0"
    then have "register_process ?e nproc s1 = Some (- 1, s2)" by (simp add: register_process_def al(2))
    from fork_unregistered [OF al(1) this parent fork(1)] show False using fork(2) by contradiction
  qed
  have nproc: "nproc \<noteq> 0"
    using new al sys_kumalloc_inv(6) [OF inv al(1) [unfolded sys_kmalloc_eq]] by auto
  obtain c R where c: "entry_ptr s c = 0" "register_process ?e nproc s1 = Some (ucast c, R)"
    and r: "entry_ptr R c = new" "proc_ptr R c = nproc" "procs R = procs s"
      "plist R ?e = plist s ?e" "proc_ptr s p \<noteq> nproc"
    by (rule register_new_process [OF inv free al(1) nproc al(2) new refl, where parent = ?e])
      (rule that, assumption, assumption, use p in \<open>simp_all add: registered_def Let_def\<close>)
  have "(ucast c :: u32) \<noteq> - 1" "c \<noteq> 0" using c(1) sched_invD(2) [OF inv] by auto
  moreover from this(1) have "ret = ucast c \<and> proc_list s' = proc_list R \<and> plist s' = plist R \<and> cpid s' = cpid R
      \<and> regs (procs s' nproc) = (regs (procs s (proc_ptr s p)))\<lparr>r_eax := 0\<rparr> \<and> stack_limit (procs s' nproc) = 4096"
    using fork_rest [OF al(1) c(2) parent _ fork] r(3-5) by simp
  ultimately show ?thesis using r(1,2) new c(1) by (intro exI [of _ c]) (simp add: existing_def)
qed

text \<open>After a successful start the process list satisfies its invariant if the allocator
  does, no process exists, and the slots of all pids but 0 are free.\<close>

theorem init_scheduler_empty:
  assumes "init_scheduler s = Some s'" and "mm_inv (mmgr s')"
  shows "sched_inv s' \<and> (\<forall>p. \<not> existing s' p) \<and> enable_scheduler s' = 1 \<and> entry_ptr s' 1 = 0"
proof -
  have lt: "(ucast (p :: u16) :: u32) < 65536" for p
    using unat_lt_u16 [of p] by (simp add: word_less_nat_alt unat_ucast_u16_u32)
  have entry: "entry_ptr s' p = (if p = 0 then - 1 else 0)" for p
    using assms(1) lt [of p] by (auto simp: init_scheduler_def Let_def split: prod.splits if_splits)
  moreover have "enable_scheduler s' = 1"
    using assms(1) by (auto simp: init_scheduler_def Let_def split: prod.splits if_splits)
  moreover have "proc_list s' 0 = - 1" "proc_list s' 1 = 0" using entry [of 0] entry [of 1] by simp_all
  ultimately show ?thesis using assms(2) by (auto simp: sched_inv_def existing_def)
qed

end
