(* ===== verification/StringsExamples.thy ===== *)
theory StringsExamples
  imports Strings
begin

text \<open>The properties of the string functions at a concrete memory: the text \<open>a b\<close> at 0x1000, the
  delimiter string at 0x3000, the digits of \<open>ltostr\<close> at 0x5000.\<close>

definition demo_mem :: mem where
  "demo_mem = (\<lambda>_. 0)(0x1000 := 97, 0x1001 := 32, 0x1002 := 98, 0x3000 := 32)"

lemma demo_strings [simp]: "cstr_at demo_mem 0x1000 [97, 32, 98]" "cstr_at demo_mem 0x3000 [32]"
  by (simp_all add: cstr_at_def demo_mem_def)

theorem kstrtok_step_witness:
  "\<exists>static_str' m'. kstrtok 0x1000 0x3000 0 demo_mem = Some (0x1000, static_str', m')
    \<and> cstr_at m' 0x1000 [97] \<and> cstr_at m' static_str' [98]"
  using kstrtok_step [OF _ _ demo_strings refl refl, of "0x1000" 0] by auto

theorem kstrcat_append_witness:
  "\<exists>m'. kstrcat 0x1000 0x1000 0x3000 demo_mem = Some m' \<and> cstr_at m' 0x1000 [97, 32, 98, 32]
    \<and> m' 0x3000 = 32"
proof -
  have "\<exists>m'. kstrcat 0x1000 0x1000 0x3000 demo_mem = Some m' \<and> cstr_at m' 0x1000 ([97, 32, 98] @ [32])
    \<and> (\<forall>x. \<not> in_region (0x1000 + of_nat (length [97, 32, 98 :: u8])) (length [32 :: u8]) x \<longrightarrow> m' x = demo_mem x)"
    by (rule kstrcat_append [OF demo_strings]) (simp_all add: apart_def, simp add: demo_mem_def)
  then show ?thesis by (auto simp: in_region_def demo_mem_def)
qed

definition demo_statics :: statics where
  "demo_statics = \<lparr>ltostr_arr = 0x5000, ltostr_buffer = 0x6000\<rparr>"

definition digits_mem :: mem where
  "digits_mem = (\<lambda>x. if unat (x - 0x5000) < 36 then ltostr_digits ! unat (x - 0x5000) else 0)"

lemma bytes_at_digits:
  "k + length bs = 36 \<Longrightarrow> bs = drop k ltostr_digits \<Longrightarrow> bytes_at digits_mem (0x5000 + of_nat k) bs"
proof (induction bs arbitrary: k)
  case (Cons b bs)
  have k: "k < 36" using Cons.prems(1) by simp
  then have u: "unat (of_nat k :: u32) = k" by (simp add: unat_of_nat)
  have "drop k ltostr_digits = ltostr_digits ! k # drop (Suc k) ltostr_digits"
    using k by (intro Cons_nth_drop_Suc [symmetric]) (simp add: length_ltostr_digits)
  then have b: "b = ltostr_digits ! k" "bs = drop (Suc k) ltostr_digits" using Cons.prems(2) by simp_all
  have "bytes_at digits_mem (0x5000 + of_nat (Suc k)) bs"
    using Cons.IH [of "Suc k"] Cons.prems(1) b(2) by simp
  then show ?case using k u b(1) by (simp add: digits_mem_def add.assoc add.commute [of _ 1])
qed simp

lemma digits_statics_ok: "statics_ok demo_statics digits_mem"
  using bytes_at_digits [of 0 ltostr_digits] by (simp add: statics_ok_def demo_statics_def apart_def length_ltostr_digits)

theorem kstrtol_ltostr_witness:
  "\<exists>r m'. ltostr demo_statics 4294967295 10 8 digits_mem = Some (r, m') \<and> kstrtol m' r = Some 4294967295"
  using kstrtol_ltostr [OF digits_statics_ok, of 8 4294967295] by auto

end
