(* ===== verification/SerialExamples.thy ===== *)
theory SerialExamples
  imports Serial StringsExamples MmanagerExamples
begin

text \<open>The properties of the serial console at concrete states: one port at 0x3f8 that works, and the
  format \<open>%d\<close> with a line feed at 0x500.\<close>

definition no_listeners :: com_desc where
  "no_listeners = \<lparr>listeners = \<lambda>_. 0, listener_data_buffer = \<lambda>_ _. 0, listner_data_index = \<lambda>_. 0,
     listner_keys = \<lambda>_. 0, virtual = False\<rparr>"

definition console :: serial where
  "console = \<lparr>trace = [], seconds = 0, ticks = 0, wait_secs_start = 0, wait_ticks_start = 0, seed = 0,
     mem = digits_mem(0x500 := 37, 0x501 := 100, 0x502 := 10), mmgr = empty_table, com = \<lambda>_. 0x3F8,
     com_descs = \<lambda>_. no_listeners, buffer_index = 0, padding = 1, auto_send_return = 1\<rparr>"

lemma console_sel [simp]:
  "mem console = digits_mem(0x500 := 37, 0x501 := 100, 0x502 := 10)" "com console = (\<lambda>_. 0x3F8)"
  "com_descs console = (\<lambda>_. no_listeners)" "padding console = 1" "auto_send_return console = 1"
  "trace console = []"
  by (simp_all add: console_def)

lemma quiet_console: "quiet console"
  by (simp add: quiet_def no_listeners_def)

lemma console_strings:
  "statics_ok demo_statics (mem console)" "string_at demo_statics (mem console) 0x500 [37, 100, 10]"
proof -
  have "bytes_at (mem console) 0x5000 ltostr_digits"
    using digits_statics_ok by (subst bytes_at_cong [where m = digits_mem])
      (auto simp: statics_ok_def demo_statics_def in_region_def)
  then show "statics_ok demo_statics (mem console)"
    using digits_statics_ok by (simp add: statics_ok_def demo_statics_def)
  have "digits_mem 0x503 = 0" by (simp add: digits_mem_def)
  then show "string_at demo_statics (mem console) 0x500 [37, 100, 10]"
    by (simp add: string_at_def cstr_at_Cons demo_statics_def apart_def)
qed

lemma rendered_example: "rendered 1 [37, 100, 10] [FNum 42] = Some [52, 50, 10]"
proof -
  have "ltostr_out 10 42 1 = [4, 2]" by (simp add: ltostr_out.simps)
  then show ?thesis by (simp add: digits_def digit_char_def)
qed

theorem kprintf_renders_witness:
  "\<exists>s'. kprintf (\<lambda>_ c s. (c, s)) demo_statics 0x500 [42] console = Some s'
    \<and> outputs (trace s') = map (Outb 0x3F8) [52, 50, 10, 13]"
  using kprintf_renders [OF quiet_console _ console_strings, of "[FNum 42]" "[42]" "[52, 50, 10]" "\<lambda>_ c s. (c, s)"]
    rendered_example by (auto simp: sent_def)

theorem kprintf_reads_past_end_witness:
  "kprintf (\<lambda>_ c s. (c, s)) demo_statics 0x500 [] (console\<lparr>mem := (\<lambda>_. 0)(0x500 := 37)\<rparr>) =
   kprintf (\<lambda>_ c s. (c, s)) demo_statics 0x502 [] (console\<lparr>mem := (\<lambda>_. 0)(0x500 := 37)\<rparr>)"
  using kprintf_reads_past_end [of "console\<lparr>mem := (\<lambda>_. 0)(0x500 := 37)\<rparr>" "0x500" "\<lambda>_ c s. (c, s)" demo_statics "[]"]
  by simp

text \<open>No port answers.\<close>

definition dead_ports :: device where
  "dead_ports = \<lparr>dev_inb = \<lambda>_ _. 0xFF, dev_inw = \<lambda>_ _. 0, dev_seconds = \<lambda>_. 0\<rparr>"

theorem serial_init_flags_witness:
  "\<exists>f s'. serial_init dead_ports console = (f, s') \<and> bit f 2 = virtual (com_descs s' 2)"
proof -
  obtain f s' where i: "serial_init dead_ports console = (f, s')" by fastforce
  from serial_init_flags [OF i, of 2] i show ?thesis by simp
qed

theorem serial_listener_roundtrip_witness:
  "\<exists>key s1. register_serial_listener 0x9000 2 1 console = Some (key, s1) \<and> listeners (com_descs s1 0) 0 = 0x9000
    \<and> listeners (com_descs (deregister_serial_listener 0 1 key s1) 0) = (\<lambda>_. 0)"
proof -
  obtain key s1 where r: "register_serial_listener 0x9000 2 1 console = Some (key, s1)" "key \<noteq> 0"
    by (auto simp: register_serial_listener_def gen_driver_key_def prng_def seed_ksecr_def console_def
        no_listeners_def set_com_def Let_def shl_def)
  from serial_listener_roundtrip [OF r(1), of 0 0 1] r show ?thesis
    by (auto simp: no_listeners_def)
qed

theorem register_serial_listener_evicts_witness:
  "\<exists>key s1. register_serial_listener 0x9000 2 1 (set_com 0 (listeners_update (\<lambda>_ _. 0x8000)) console) = Some (key, s1)
    \<and> listeners (com_descs s1 0) 0 = 0x9000"
proof -
  let ?s = "set_com 0 (listeners_update (\<lambda>_ _. 0x8000)) console"
  obtain key s1 where r: "register_serial_listener 0x9000 2 1 ?s = Some (key, s1)"
    by (auto simp: register_serial_listener_def gen_driver_key_def prng_def seed_ksecr_def console_def
        no_listeners_def set_com_def Let_def shl_def)
  from register_serial_listener_evicts [OF r] r show ?thesis by (auto simp: set_com_def)
qed

end
