(* ===== verification/SchedulerExamples.thy ===== *)
theory SchedulerExamples
  imports Scheduler SerialExamples
begin

text \<open>The properties of the scheduler at concrete states: a kernel with no process, and one with the
  two kernel processes 1 and 2.\<close>

subsection \<open>No process\<close>

definition no_regs :: irq_registers where
  "no_regs = words_regs (replicate 19 0)"

definition blank_proc :: process32 where
  "blank_proc = \<lparr>memory_base = 0x100000, memory_limit = 0x101, stack_base = 0, stack_limit = 0,
     regs = no_regs, allocated_pages = - 1, lock = 0, priority = 4, abi = 0, stdin = 0, stdout = 0\<rparr>"

definition blank_entry :: proc_list_t where
  "blank_entry = \<lparr>process = 0, pl_pid = 0, ppid = 0, uid = 0, ring0 = False, path_to_exec = 0\<rparr>"

definition no_process :: sched where
  "no_process = \<lparr>trace = [], seconds = 0, ticks = 0, wait_secs_start = 0, wait_ticks_start = 0, seed = 0,
     mem = \<lambda>_. 0, mmgr = empty_table, com = \<lambda>_. 0x3F8, com_descs = \<lambda>_. no_listeners, buffer_index = 0,
     padding = 1, auto_send_return = 1, g_listener = 0, ps2_listener = 0x9000, last_char = 0,
     ps_2_interrupt_fired = 0, last_key = 0, shift_down = 0, caps_lock = 0, kb_calls = [], drives = \<lambda>_. 0, filesystems = \<lambda>_. 0, ramdisk = 0,
     drive_at = \<lambda>_. undefined, fs_at = \<lambda>_. undefined, file_at = \<lambda>_. undefined, tok_rest = 0, cpid = 0, lapid = 0, active_procs = 0, proc_list_base = 0x80000,
     proc_list = (\<lambda>_. 0)(0 := - 1), enable_scheduler = 1, plist = \<lambda>_. blank_entry,
     procs = \<lambda>_. blank_proc\<rparr>"

lemma no_process_sel [simp]:
  "mmgr no_process = empty_table" "cpid no_process = 0" "active_procs no_process = 0"
  "enable_scheduler no_process = 1" "proc_list no_process = (\<lambda>_. 0)(0 := - 1)" "mem no_process = (\<lambda>_. 0)"
  "procs no_process = (\<lambda>_. blank_proc)" "plist no_process = (\<lambda>_. blank_entry)"
  by (simp_all add: no_process_def)

lemma no_process_inv: "sched_inv no_process" "\<not> existing no_process p"
  by (simp_all add: sched_inv_def existing_def)

lemma no_process_pages:
  obtains s1 s2 where "sys_kmalloc 1 6 no_process = (0x100000, s1)" "sys_kmalloc 1 6 s1 = (0x101000, s2)"
proof -
  let ?m = "empty_table\<lparr>page_table := (\<lambda>_. zero_entry)(256 := block_entry 6 0 1 0)\<rparr>"
  obtain m where m: "kumalloc 1 6 0 ?m = (0x101000, m)" using kumalloc_second_page by blast
  show thesis
    by (rule that [of "no_process\<lparr>mmgr := ?m\<rparr>" "no_process\<lparr>mmgr := m\<rparr>"])
      (simp_all add: sys_kmalloc_def kmalloc_eq_kumalloc kumalloc_empty_table m)
qed

theorem kfork_creates_process_witness:
  "\<exists>p s'. kfork 0x202 0x9000 0 0 no_process = Some (ucast p, s') \<and> sched_inv s'
    \<and> (\<forall>q. existing s' q \<longleftrightarrow> q = p) \<and> ring0 (plist s' (entry_ptr s' p))
    \<and> forked 0x202 0x9000 0 (procs s' (proc_ptr s' p)) \<and> active_procs s' = 1"
proof -
  obtain s1 s2 where al: "sys_kmalloc 1 6 no_process = (0x100000, s1)"
    "sys_kmalloc 1 6 s1 = (0x101000, s2)" by (rule no_process_pages)
  have "entry_ptr no_process 1 = 0" by simp
  from kfork_creates_process [OF no_process_inv(1) this al(1) _ al(2), of "0x202" "0x9000" 0 0]
  show ?thesis by (auto simp: no_process_inv)
qed

theorem kfork_starts_at_function_witness:
  "\<exists>ret s' log u gp. kfork 0x202 0x9000 0 0 no_process = Some (ret, s')
    \<and> run_ticks [(0x7000, \<lambda>_. 0)] s' = Some (log, u) \<and> last log = (ucast ret, gp)
    \<and> r_eip (load_regs (mem u) gp) = 0x9000 \<and> r_cs (load_regs (mem u) gp) = 8
    \<and> r_eflags (load_regs (mem u) gp) = 0x202"
proof -
  obtain s1 s2 where al: "sys_kmalloc 1 6 no_process = (0x100000, s1)"
    "sys_kmalloc 1 6 s1 = (0x101000, s2)" by (rule no_process_pages)
  have free: "entry_ptr no_process 1 = 0" by simp
  obtain p s' where k: "kfork 0x202 0x9000 0 0 no_process = Some (ucast p, s')"
    "\<And>q. existing s' q \<longleftrightarrow> existing no_process q \<or> q = p" "active_procs s' = active_procs no_process + 1"
    "enable_scheduler s' = enable_scheduler no_process"
    by (rule kfork_spec [OF no_process_inv(1) free al(1) _ al(2), of "0x202" "0x9000" 0 0]) (simp, simp, rule that)
  have on: "scheduling s'" using k(3,4) by (simp add: scheduling_def)
  have p: "existing s' p" using k(2) by simp
  obtain gp u k where t: "irq0_timer_handler 0x7000 (s'\<lparr>mem := \<lambda>_. 0\<rparr>) = Some (gp, u)"
    "cpid u = cpid s' + of_nat k" "next_in_turn s' k"
    by (rule tick_step [OF on p])
  have "existing s' (cpid u)" using t(2,3) by (simp add: next_in_turn_def existing_def)
  then have c: "cpid u = p" using k(2) no_process_inv(2) by blast
  have run: "run_ticks [(0x7000, \<lambda>_. 0)] s' = Some ([(p, gp)], u)" using t(1) c by simp
  from kfork_starts_at_function [OF no_process_inv(1) free al(1) _ al(2) _ k(1) on _ run, of gp]
  show ?thesis using k(1) run by fastforce
qed

subsection \<open>Two processes\<close>

definition two_pages :: "int \<Rightarrow> page_entry" where
  "two_pages = (\<lambda>_. zero_entry)(256 := block_entry 6 0 1 0, 257 := block_entry 6 0 1 0,
     258 := block_entry 6 1 1 0, 259 := block_entry 6 0 1 0, 260 := block_entry 6 0 1 0,
     261 := block_entry 6 2 1 0)"

definition two_processes :: "u16 \<Rightarrow> sched" where
  "two_processes c = no_process\<lparr>cpid := c, active_procs := 2, mmgr := empty_table\<lparr>page_table := two_pages\<rparr>,
     proc_list := (\<lambda>_. 0)(0 := - 1, 1 := 0x100000, 2 := 0x103000),
     plist := (\<lambda>_. blank_entry)
       (0x100000 := blank_entry\<lparr>process := 0x101000, pl_pid := 1\<rparr>,
        0x103000 := blank_entry\<lparr>process := 0x104000, pl_pid := 2\<rparr>)\<rparr>"

lemma entry_ptr_two:
  "entry_ptr (two_processes c) p = (if p = 0 then - 1 else if p = 1 then 0x100000
     else if p = 2 then 0x103000 else 0)"
  using ucast_u16_u32_inj [of p 1] ucast_u16_u32_inj [of p 2]
  by (auto simp: two_processes_def simp del: ucast_u16_u32_inj)

lemma existing_two: "existing (two_processes c) p \<longleftrightarrow> p = 1 \<or> p = 2"
  by (auto simp: existing_def entry_ptr_two)

lemma two_processes_sel [simp]:
  "cpid (two_processes c) = c" "active_procs (two_processes c) = 2" "scheduling (two_processes c)"
  "mmgr (two_processes c) = empty_table\<lparr>page_table := two_pages\<rparr>" "mem (two_processes c) = (\<lambda>_. 0)"
  by (simp_all add: two_processes_def scheduling_def)

lemma two_processes_ptrs [simp]:
  "process (plist (two_processes c) 0x100000) = 0x101000" "process (plist (two_processes c) 0x103000) = 0x104000"
  "proc_list (two_processes c) 0 = - 1" "proc_list (two_processes c) 1 = 0x100000"
  "proc_list (two_processes c) 2 = 0x103000"
  "pl_pid (plist (two_processes c) 0x100000) = 1" "pl_pid (plist (two_processes c) 0x103000) = 2"
  "procs (two_processes c) = (\<lambda>_. blank_proc)"
  by (simp_all add: two_processes_def)

lemma two_pages_heads:
  "{0x100000, 0x101000, 0x103000, 0x104000} \<subseteq> heads (empty_table\<lparr>page_table := two_pages\<rparr>)"
proof -
  have "page_addr i \<in> heads (empty_table\<lparr>page_table := two_pages\<rparr>)" if "i \<in> {256, 257, 259, 260}" for i
    using that by (subst heads_iff) (auto simp: two_pages_def)
  from this [of 256] this [of 257] this [of 259] this [of 260] show ?thesis by (simp add: page_addr_def)
qed

lemma two_processes_inv: "sched_inv (two_processes c)"
proof -
  have "mm_inv (empty_table\<lparr>page_table := two_pages\<rparr>)"
    by (simp add: mm_inv_def linked_ok_def two_pages_def)
  then show ?thesis
    using two_pages_heads unfolding sched_inv_def existing_two
    by (auto simp: entry_ptr_two)
qed

theorem schedule_fair_witness:
  "\<exists>log s'. run_ticks [(0x7000, \<lambda>_. 0), (0x7000, \<lambda>_. 1)] (two_processes 0) = Some (log, s') \<and> cpid s' = 2"
proof (rule schedule_fair)
  have "{j :: nat. 0 < j \<and> j \<le> 2 \<and> (of_nat j = (1 :: u16) \<or> of_nat j = (2 :: u16))} = {1, 2}"
    by (auto simp: le_Suc_eq numeral_2_eq_2)
  then show "length [(0x7000, \<lambda>_. 0), (0x7000, \<lambda>_. 1)] = turns_until (two_processes 0) 2"
    by (simp add: turns_until_def existing_two)
qed (simp_all add: existing_two)

lemma next_in_turn_two:
  assumes "existing s 1" "existing s 2" "\<And>q. existing s q \<Longrightarrow> q = 1 \<or> q = 2" "next_in_turn s k"
  shows "cpid s = 1 \<Longrightarrow> cpid s + of_nat k = 2" "cpid s = 2 \<Longrightarrow> cpid s + of_nat k = 1"
proof -
  have k: "0 < k" "existing s (cpid s + of_nat k)"
    "\<And>j. 0 < j \<Longrightarrow> j < k \<Longrightarrow> \<not> existing s (cpid s + of_nat j)"
    using assms(4) by (auto simp: next_in_turn_def existing_def)
  { assume c: "cpid s = 1"
    have "k \<le> 1"
    proof (rule ccontr)
      assume "\<not> k \<le> 1"
      then have "\<not> existing s 2" using k(3) [of 1] c by simp
      then show False using assms(2) by contradiction
    qed
    then show "cpid s + of_nat k = 2" using k(1) c by (cases k) simp_all }
  { assume c: "cpid s = 2"
    have "k \<le> 65535"
    proof (rule ccontr)
      assume "\<not> k \<le> 65535"
      have w: "(2 :: u16) + of_nat 65535 = 1" by (subst word_uint_eq_iff) simp
      have "\<not> existing s 1" by (rule k(3) [of 65535, unfolded c w]) (use \<open>\<not> k \<le> 65535\<close> in simp_all)
      then show False using assms(1) by contradiction
    qed
    then have "cpid s + of_nat k \<noteq> 2"
      using of_nat_nonzero_u16 [of k] k(1) c by simp
    then show "cpid s + of_nat k = 1" using assms(3) [OF k(2)] by blast }
qed

theorem preempted_process_keeps_registers_witness:
  "\<exists>log s' gp. run_ticks [(0x7000, \<lambda>_. 5), (0x8000, \<lambda>_. 1)] (two_processes 1) = Some (log, s')
    \<and> last log = (1, gp) \<and> load_regs (mem s') gp = load_regs (\<lambda>_. 5) 0x7000"
proof -
  let ?s = "two_processes 1"
  have ex: "existing ?s 1" "existing ?s 2" "\<And>q. existing ?s q \<Longrightarrow> q = 1 \<or> q = 2" by (simp_all add: existing_two)
  obtain gp1 u k where t: "irq0_timer_handler 0x7000 (?s\<lparr>mem := \<lambda>_. 5\<rparr>) = Some (gp1, u)"
    "cpid u = cpid ?s + of_nat k" "next_in_turn ?s k" "proc_list u = proc_list ?s" "scheduling u"
    by (rule tick_step [OF two_processes_sel(3) ex(1)])
  have c: "cpid u = 2" using next_in_turn_two(1) [OF ex t(3)] t(2) by simp
  have ex': "existing u 1" "existing u 2" "\<And>q. existing u q \<Longrightarrow> q = 1 \<or> q = 2"
    using ex t(4) by (simp_all add: existing_def)
  obtain gp v k' where t': "irq0_timer_handler 0x8000 (u\<lparr>mem := \<lambda>_. 1\<rparr>) = Some (gp, v)"
    "cpid v = cpid u + of_nat k'" "next_in_turn u k'"
    by (rule tick_step [OF t(5) ex'(1)])
  have c': "cpid v = 1" using next_in_turn_two(2) [OF ex' t'(3) c] t'(2) by simp
  have run: "run_ticks [(0x7000, \<lambda>_. 5), (0x8000, \<lambda>_. 1)] ?s = Some ([(2, gp1), (1, gp)], v)"
    using t(1) t'(1) c c' by simp
  from preempted_process_keeps_registers [OF two_processes_sel(3) two_processes_inv ex(1) _ run, of gp] run
  show ?thesis by auto
qed

lemma two_pages_pid:
  "pid (two_pages x) = (if x = 258 then 1 else if x = 261 then 2 else 0)"
  by (simp add: two_pages_def entry_of_def)

lemma two_pages_used: "used (two_pages x) \<longleftrightarrow> 256 \<le> x \<and> x \<le> 261"
  by (auto simp: two_pages_def)

lemma two_processes_kernel_owned: "kernel_owned (two_processes c)"
  by (auto simp: kernel_owned_def existing_two two_pages_pid)

lemma two_processes_owners: "owners_used (mmgr (two_processes c)) 1"
  by (auto simp: owners_used_def two_pages_pid two_pages_used)


lemma exit_v_two:
  "\<exists>s1. exit_v (two_processes 1) = Some s1 \<and> scheduling s1 \<and> existing s1 2"
proof -
  obtain s1 where s1: "exit_proc 0 (ucast (1 :: u16)) (two_processes 1) = Some s1"
    "\<forall>q. existing s1 q \<longleftrightarrow> existing (two_processes 1) q \<and> q \<noteq> 1"
    using exit_proc_removes [OF two_processes_inv _ two_processes_kernel_owned, of 1 1 0]
      two_processes_owners [of 1]
    by (auto simp: existing_two blank_proc_def)
  have "scheduling s1"
    using exit_proc_frame [OF s1(1)] two_processes_sel(3) [of 1] by (simp add: scheduling_def)
  with s1 show ?thesis by (simp add: exit_v_eq [of _ 0] existing_two get_pid_def)
qed

theorem exit_then_tick_writes_through_null_witness:
  "\<exists>s1 gp s2. exit_v (two_processes 1) = Some s1
    \<and> irq0_timer_handler 0x7000 (s1\<lparr>mem := \<lambda>_. 5\<rparr>) = Some (gp, s2)
    \<and> procs s2 = (procs s1)(process (plist s1 0) :=
        procs s1 (process (plist s1 0))\<lparr>regs := load_regs (\<lambda>_. 5) 0x7000\<rparr>)"
proof -
  obtain s1 where s1: "exit_v (two_processes 1) = Some s1" "scheduling s1" "existing s1 2"
    using exit_v_two by blast
  from exit_then_tick_writes_through_null [OF s1(1) _ s1(2,3)] s1(1) show ?thesis by auto
qed

lemma exec_argc_zeros:
  assumes "\<And>a. load32 m a = 0" and "n \<le> 65536"
  shows "exec_argc m argv (of_nat n) = Some 65536"
  using assms(2)
proof (induction rule: inc_induct)
  case base
  show ?case by (subst exec_argc.simps) (simp add: assms(1))
next
  case (step n)
  then have "(of_nat n :: u32) < 65536" by (simp add: word_less_nat_alt unat_of_nat)
  with step.IH show ?case by (subst exec_argc.simps) (simp add: add.commute)
qed

theorem exec_leaves_process_unchanged_witness:
  "\<exists>r s'. exec 0xA000 0x20000 (- 1) 1 0 (two_processes 1) = Some (r, s')
    \<and> procs s' = procs (two_processes 1) \<and> plist s' = plist (two_processes 1)"
proof -
  have zero: "load32 (store32 a 0 (\<lambda>_. 0)) b = 0" for a b
    by (simp add: load32_def store32_def load16_def)
  have "exec_argc (store32 a 0 (\<lambda>_. 0)) 0 0 = Some 65536" for a
    using exec_argc_zeros [of "store32 a 0 (\<lambda>_. 0)" 0 0] zero by simp
  then have "\<exists>r s'. exec 0xA000 0x20000 (- 1) 1 0 (two_processes 1) = Some (r, s')"
    by (simp add: exec_def Let_def blank_proc_def)
  then show ?thesis using exec_leaves_process_unchanged by blast
qed

theorem push_args_layout_witness:
  "\<exists>sp' m'. push_args 0x1000 2 0x8000 (store_words 0x1000 [7, 8] (\<lambda>_. 0)) = (sp', m')
    \<and> sp' = 0x8000 - 4 * 2 - 4 \<and> load_words m' sp' 3 = [0, 8, 7]"
proof -
  let ?m = "store_words 0x1000 [7, 8] (\<lambda>_. 0) :: mem"
  obtain sp' m' where p: "push_args 0x1000 2 0x8000 ?m = (sp', m')" by fastforce
  have two: "unat (2 :: u32) = length [7, 8 :: u32]" by simp
  have "load_words ?m 0x1000 (unat (2 :: u32)) = [7, 8]"
    unfolding two by (rule load_words_store_words) simp
  moreover have "sp' = 0x8000 - 4 * 2 - 4
      \<and> load_words m' sp' (Suc (unat (2 :: u32))) = 0 # rev (load_words ?m 0x1000 (unat (2 :: u32)))"
    by (rule push_args_layout [OF p]) (simp_all add: apart_def)
  ultimately have r: "sp' = 0x7FF4" "load_words m' sp' 3 = [0, 8, 7]" by (simp, fastforce simp: numeral_3_eq_3)
  show ?thesis using p r by (intro exI [of _ sp'] exI [of _ m']) simp
qed

lemma process_list_pages:
  obtains m where "kumalloc 64 6 0 empty_table = (0x100000, m)" "mm_inv m" "\<And>p. p \<noteq> 0 \<Longrightarrow> owners_used m p"
    "192 \<le> free_count m"
proof -
  obtain m where m: "kumalloc 64 6 0 empty_table = (0x100000, m)" "mm_inv m" "table_len m = 512"
    "\<And>x. pid (page_table m x) = 0" "\<And>x. 320 \<le> x \<Longrightarrow> page_table m x = zero_entry"
    by (rule kumalloc_empty_block [of 64 6 0]) (use that in auto)
  have "owners_used m p" if "p \<noteq> 0" for p using m(4) that by (simp add: owners_used_def)
  moreover have "card {320 ..< 512 :: int} \<le> free_count m"
    unfolding free_count_def
  proof (rule card_mono)
    show "finite {i. 256 \<le> i \<and> i < table_len m \<and> free_entry (page_table m i)}"
      by (rule finite_subset [of _ "{256 ..< 512}"]) (auto simp: m(3))
    show "{320 ..< 512} \<subseteq> {i. 256 \<le> i \<and> i < table_len m \<and> free_entry (page_table m i)}"
      using m(3,5) by auto
  qed
  ultimately show thesis using m(1,2) by (intro that [of m]) simp_all
qed

lemma init_scheduler_no_process:
  obtains s' where "init_scheduler no_process = Some s'" "mm_inv (mmgr s')"
    "\<And>p. p \<noteq> 0 \<Longrightarrow> owners_used (mmgr s') p" "192 \<le> free_count (mmgr s')"
proof -
  obtain m where m: "kumalloc 64 6 0 empty_table = (0x100000, m)" "mm_inv m" "\<And>p. p \<noteq> 0 \<Longrightarrow> owners_used m p"
    "192 \<le> free_count m" by (rule process_list_pages) (rule that; assumption)
  let ?s = "no_process\<lparr>mmgr := m, proc_list_base := 0x100000,
    proc_list := (\<lambda>i. if i < 65536 then 0 else proc_list (no_process\<lparr>mmgr := m, proc_list_base := 0x100000\<rparr>) i)
      (0 := - 1), enable_scheduler := 1\<rparr>"
  have "init_scheduler no_process = Some ?s"
    using m(1) by (simp add: init_scheduler_def sys_kmalloc_def kmalloc_eq_kumalloc Let_def)
  then show thesis using m(2-4) by (intro that [of ?s]) simp_all
qed

theorem init_scheduler_empty_witness:
  "\<exists>s'. init_scheduler no_process = Some s' \<and> sched_inv s' \<and> (\<forall>p. \<not> existing s' p)"
proof -
  obtain s' where "init_scheduler no_process = Some s'" "mm_inv (mmgr s')" by (rule init_scheduler_no_process)
  with init_scheduler_empty [OF this] show ?thesis by auto
qed

definition first_free :: "mm \<Rightarrow> int \<Rightarrow> bool" where
  "first_free m i \<longleftrightarrow> table_len m = 512 \<and> (\<forall>x. 256 \<le> x \<longrightarrow> free_entry (page_table m x) = (i \<le> x))"

lemma kumalloc_first_free:
  assumes "first_free m i" "256 \<le> i" "i < 512"
  obtains m' where "kumalloc 1 perms p m = (page_addr i, m')" "first_free m' (i + 1)"
proof (rule that)
  show "kumalloc 1 perms p m = (page_addr i, m\<lparr>page_table := (page_table m)(i := block_entry perms p 1 0)\<rparr>)"
    by (rule kumalloc_first(1)) (use assms in \<open>auto simp: first_free_def\<close>)
  show "first_free (m\<lparr>page_table := (page_table m)(i := block_entry perms p 1 0)\<rparr>) (i + 1)"
    using assms by (auto simp: first_free_def free_entry_def)
qed

lemma fork_two:
  "\<exists>ret s'. fork (entry_ptr (two_processes 1) 1) (two_processes 1) = Some (ret, s') \<and> ret \<noteq> 0"
proof -
  let ?s = "two_processes 1" and ?e = "entry_ptr (two_processes 1) 1"
  have "first_free (mmgr ?s) 262" by (auto simp: first_free_def free_entry_def two_pages_def)
  then obtain m1 where m1: "kumalloc 1 6 0 (mmgr ?s) = (page_addr 262, m1)" "first_free m1 263"
    by (rule kumalloc_first_free [where i = 262]) simp_all
  obtain m2 where m2: "kumalloc 1 6 0 m1 = (page_addr 263, m2)" "first_free m2 264"
    by (rule kumalloc_first_free [OF m1(2)]) simp_all
  have al: "sys_kmalloc 1 6 ?s = (0x106000, ?s\<lparr>mmgr := m1\<rparr>)"
    "sys_kmalloc 1 6 (?s\<lparr>mmgr := m1\<rparr>) = (0x107000, ?s\<lparr>mmgr := m2\<rparr>)"
    using m1(1) m2(1) by (simp_all add: sys_kmalloc_def kmalloc_eq_kumalloc page_addr_def)
  have free: "entry_ptr (?s\<lparr>mmgr := m1\<rparr>) 3 = 0" by (simp add: two_processes_def)
  obtain c where c: "entry_ptr (?s\<lparr>mmgr := m1\<rparr>) c = 0" "register_process ?e 0x106000 (?s\<lparr>mmgr := m1\<rparr>) =
      Some (ucast c, registered ?e 0x106000 0x107000 c (?s\<lparr>mmgr := m2\<rparr>))"
    by (rule register_process_eq [OF al(2) _ free]) (simp, rule that)
  obtain m3 where m3: "kumalloc 1 7 (ucast c) m2 = (page_addr 264, m3)"
    by (rule kumalloc_first_free [OF m2(2)]) simp_all
  have "c \<noteq> 0" using c(1) by auto
  moreover have "\<exists>s'. fork ?e ?s = Some (ucast c, s')"
    using al c(2) m3
    by (simp add: fork_def Let_def sys_kumalloc_pair sys_kmalloc_eq registered_def blank_proc_def page_addr_def
        entry_ptr_two)
  ultimately show ?thesis by auto
qed

theorem fork_child_keeps_parent_stack_witness:
  "\<exists>ret s' c. fork (entry_ptr (two_processes 1) 1) (two_processes 1) = Some (ret, s') \<and> ret = ucast c
    \<and> existing s' c \<and> regs (procs s' (proc_ptr s' c)) = no_regs\<lparr>r_eax := 0\<rparr>"
proof -
  obtain ret s' where f: "fork (entry_ptr (two_processes 1) 1) (two_processes 1) = Some (ret, s')" "ret \<noteq> 0"
    using fork_two by blast
  have "existing (two_processes 1) 1" "entry_ptr (two_processes 1) 3 = 0"
    by (simp add: existing_two) (simp add: two_processes_def)
  from fork_child_keeps_parent_stack [OF two_processes_inv this f] f(1) show ?thesis
    by (auto simp: blank_proc_def)
qed

end
