(* ===== verification/Interrupts.thy ===== *)
theory Interrupts
  imports Scheduler
begin

text \<open>
  \<open>kernel/cpu/idt.c\<close>: the interrupt descriptor table, the interrupt controllers, the table of
  handlers, the dispatch of an interrupt and the system calls. The addresses of the assembly stubs
  and of the tables are parameters; a handler is called through \<open>call\<close>, the meaning of a function
  pointer. The file operations of the system calls are those of \<open>Storage\<close>, with their parameters (the
  disk's device, the address of the string \<open>"/"\<close>, the uninitialised directory entry). The report
  of a fault is in \<open>Panic\<close>.
\<close>

subsection \<open>State\<close>

record idt_flags =
  gate_type :: u8
  zero_bit :: bool
  dpl :: u8
  present :: bool

record idt_entry =
  offset_low :: u16
  segment_selector :: u16
  idt_reserved :: u8
  idt_flag :: idt_flags
  offset_high :: u16

record intr = sched +
  idt_entries :: "u8 \<Rightarrow> idt_entry"
  idt_desc_size :: u16
  idt_desc_offset :: u32
  irq_handlers :: "int \<Rightarrow> ptr"
  kernel_mode :: u8
  master_pic_mask :: u8
  slave_pic_mask :: u8

subsection \<open>The tables\<close>

definition idt_set :: "u8 \<Rightarrow> u32 \<Rightarrow> idt_flags \<Rightarrow> 'a intr_scheme \<Rightarrow> 'a intr_scheme" where
  "idt_set num address flags s = s\<lparr>idt_entries := (idt_entries s)(num :=
     \<lparr>offset_low = ucast (address AND 0xffff), segment_selector = 0x8, idt_reserved = 0,
      idt_flag = flags, offset_high = ucast (drop_bit 16 address AND 0xffff)\<rparr>)\<rparr>"

definition irq_install_handler :: "ptr \<Rightarrow> int \<Rightarrow> 'a intr_scheme \<Rightarrow> u32 \<times> 'a intr_scheme" where
  "irq_install_handler handler irq_number s =
     (if irq_handlers s (irq_number + 0x20) \<noteq> 0 then (- 1, s)
      else (0, s\<lparr>irq_handlers := (irq_handlers s)(irq_number + 0x20 := handler)\<rparr>))"

definition int_install_handler :: "ptr \<Rightarrow> int \<Rightarrow> 'a intr_scheme \<Rightarrow> u32 \<times> 'a intr_scheme" where
  "int_install_handler handler int_num s =
     (if irq_handlers s int_num \<noteq> 0 then (- 1, s)
      else (0, s\<lparr>irq_handlers := (irq_handlers s)(int_num := handler)\<rparr>))"

definition irq_remap :: "'a io_scheme \<Rightarrow> 'a io_scheme" where
  "irq_remap s = fold (\<lambda>(port, byte). outb port byte)
     [(0x20, 0x11), (0xa0, 0x11), (0x21, 0x20), (0xa1, 0x28), (0x21, 4), (0xa1, 2),
      (0x21, 1), (0xa1, 1), (0x21, 0), (0xa1, 0)] s"

definition pic_remask :: "'a intr_scheme \<Rightarrow> 'a intr_scheme" where
  "pic_remask s = outb 0xa1 (slave_pic_mask s) (outb 0x21 (master_pic_mask s) s)"

text \<open>The loop that fills \<open>n\<close> gates from \<open>first\<close> on, the stubs being \<open>stride\<close> bytes apart.\<close>

fun idt_fill :: "u8 \<Rightarrow> u32 \<Rightarrow> u32 \<Rightarrow> idt_flags \<Rightarrow> nat \<Rightarrow> 'a intr_scheme \<Rightarrow> 'a intr_scheme" where
  "idt_fill first stub stride flags 0 s = s"
| "idt_fill first stub stride flags (Suc n) s =
     idt_set (first + of_nat n) (stub + of_nat n * stride) flags (idt_fill first stub stride flags n s)"

record stubs =
  isr0 :: u32
  isr1 :: u32
  irq0 :: u32
  irq1 :: u32
  softint :: u32
  idt_base :: u32

text \<open>\<open>sizeof(idt_descriptor)\<close>, a packed \<open>short\<close> and \<open>int\<close>, is 6. The instructions \<open>sti\<close> and \<open>lidt\<close>
  at the end have no effect on this state.\<close>

definition init_idt :: "stubs \<Rightarrow> 'a intr_scheme \<Rightarrow> 'a intr_scheme" where
  "init_idt st s =
     (let isr_flags = \<lparr>gate_type = 0xe, zero_bit = False, dpl = 0, present = True\<rparr>;
          s1 = idt_fill 0 (isr0 st) (isr1 st - isr0 st) isr_flags 32 s;
          s2 = idt_fill 32 (irq0 st) (irq1 st - irq0 st) isr_flags 16 s1;
          s3 = s2\<lparr>idt_desc_offset := idt_base st, idt_desc_size := 6 * 256 - 1\<rparr>;
          s4 = idt_set 0x80 (softint st) isr_flags (irq_remap s3);
          s5 = outb 0xa1 0xff (outb 0x21 0xff s4);
          s6 = s5\<lparr>slave_pic_mask := 0xff, master_pic_mask := 0xff\<rparr>
      in snd (int_install_handler (softint st) 0x80 s6))"

subsection \<open>System calls\<close>

text \<open>A register of the frame at \<open>a\<close>, by its place in \<open>irq_registers_t\<close>.\<close>

definition get_reg :: "nat \<Rightarrow> ptr \<Rightarrow> 'a intr_scheme \<Rightarrow> u32" where
  "get_reg i a s = load32 (mem s) (a + 4 * of_nat i)"

definition set_reg :: "nat \<Rightarrow> u32 \<Rightarrow> ptr \<Rightarrow> 'a intr_scheme \<Rightarrow> 'a intr_scheme" where
  "set_reg i v a s = s\<lparr>mem := store32 (a + 4 * of_nat i) v (mem s)\<rparr>"

definition EBX :: nat where "EBX = 8"
definition EDX :: nat where "EDX = 9"
definition ECX :: nat where "ECX = 10"
definition EAX :: nat where "EAX = 11"
definition INT_NO :: nat where "INT_NO = 12"

text \<open>\<open>sys_fopen\<close>: a relative name is completed in place with the directory of the program.\<close>

definition sys_fopen :: "device \<Rightarrow> ptr \<Rightarrow> dirent \<Rightarrow> ptr \<Rightarrow> 'a intr_scheme \<Rightarrow> 'a intr_scheme option" where
  "sys_fopen d slash dirent0 r s =
     (let name = get_reg EBX r s
      in if mem s (name + 1) = 58 \<and> mem s (name + 2) = 47 then do {
           (f, s1) \<leftarrow> fopen d slash dirent0 name (get_reg ECX r s) s;
           Some (set_reg EAX f r s1) }
         else do {
           m \<leftarrow> kstrcat name (path_to_exec (plist s (get_proc (get_pid s) s))) name (mem s);
           let s1 = s\<lparr>mem := m\<rparr>;
           (f, s2) \<leftarrow> fopen d slash dirent0 name (get_reg ECX r s1) s1;
           Some (set_reg EAX f r s2) })"

definition sys_read :: "device \<Rightarrow> ptr \<Rightarrow> 'a intr_scheme \<Rightarrow> 'a intr_scheme option" where
  "sys_read d r s =
     (if get_reg EBX r s = 0 then do {
        let ent = get_proc (get_pid s) s;
        let pr = process (plist s ent);
        stdinlen \<leftarrow> kstrlen (mem s) (stdin (procs s pr));
        let e = get_reg EDX r s;
        let s1 = set_reg EDX ((if stdinlen < e then stdinlen else 0) + (if stdinlen \<ge> e then e else 0)) r s;
        s2 \<leftarrow> (if get_reg ECX r s1 < 0x80000 then exit_proc (- 1) (get_pid s1) s1 else Some s1);
        let inp = stdin (procs s2 pr);
        let n = get_reg EDX r s2;
        let m1 = kmemcpy inp (r_ecx (regs (procs s2 pr))) n (mem s2);
        let n1 = load32 m1 (r + 4 * of_nat EDX);
        len1 \<leftarrow> kstrlen m1 inp;
        let m2 = kmemcpy (inp + n1) inp (len1 - n1) m1;
        len2 \<leftarrow> kstrlen m2 inp;
        Some (s2\<lparr>mem := m2(inp + len2 := 0)\<rparr>) }
      else fread d (get_reg EBX r s) (get_reg ECX r s) (get_reg EDX r s) s)"

definition sys_write :: "device \<Rightarrow> ptr \<Rightarrow> 'a intr_scheme \<Rightarrow> 'a intr_scheme option" where
  "sys_write d r s =
     (if get_reg EBX r s = 0 then do {
        let out = stdout (procs s (process (plist s (get_proc (get_pid s) s))));
        m \<leftarrow> kstrcat out out (get_reg ECX r s) (mem s);
        Some (s\<lparr>mem := m\<rparr>) }
      else map_option snd (fwrite d (get_reg EBX r s) (get_reg ECX r s) (get_reg EDX r s) s))"

definition native_irq :: "device \<Rightarrow> ptr \<Rightarrow> dirent \<Rightarrow> ptr \<Rightarrow> 'a intr_scheme \<Rightarrow> 'a intr_scheme option" where
  "native_irq d slash dirent0 r s =
     (let n = get_reg EAX r s
      in if n = 0 then exit_proc (get_reg EBX r s) (get_pid s) s
         else if n = 1 then sys_fopen d slash dirent0 r s
         else if n = 2 then sys_read d r s
         else if n = 3 then sys_write d r s
         else if n = 4 then sys_kfree (get_reg EBX r s) s
         else if n = 5 then map_option snd (fork (get_proc (get_pid s) s) s)
         else if n = 6 then Some s
         else if n = 7 then Some (set_reg EAX (get_pid s) r s)
         else if n = 8 then Some (set_reg EAX (get_proc (get_reg EBX r s) s) r s)
         else if n = 9 then
           (let (a, s1) = sys_kumalloc (sint (get_reg EBX r s div 4096 + 1)) 6 (get_pid s) s
            in Some (set_reg EAX a r s1))
         else if n = 10 then sys_kfree (get_reg EBX r s) s
         else Some s)"

definition software_int :: "device \<Rightarrow> ptr \<Rightarrow> dirent \<Rightarrow> ptr \<Rightarrow> 'a intr_scheme \<Rightarrow> 'a intr_scheme option" where
  "software_int d slash dirent0 r s =
     (let p = (ucast (get_pid s) :: u16)
      in if abi (procs s (process (plist s (get_proc (ucast p) s)))) = 0 then native_irq d slash dirent0 r s
         else Some s)"

subsection \<open>Dispatch\<close>

text \<open>The end-of-interrupt commands look at the frame the handler returned, not at the one the
  interrupt pushed. The stub \<open>irq_common_stub\<close> of \<open>idt.s\<close> returns through the frame whose address is
  left in the slot of the argument \<open>regs\<close>, so that address is the first part of the result.\<close>

definition irq_eoi :: "ptr \<Rightarrow> 'a intr_scheme \<Rightarrow> 'a intr_scheme" where
  "irq_eoi r s =
     (let s1 = (if get_reg INT_NO r s \<ge> 0x28 \<and> get_reg INT_NO r s < 0x30 then outb 0xa0 0x20 s else s)
      in if get_reg INT_NO r s1 < 0x30 then outb 0x20 0x20 s1 else s1)"

definition irq_handler ::
    "(ptr \<Rightarrow> ptr \<Rightarrow> 'a intr_scheme \<Rightarrow> (ptr \<times> 'a intr_scheme) option)
      \<Rightarrow> device \<Rightarrow> ptr \<Rightarrow> dirent \<Rightarrow> ptr \<Rightarrow> 'a intr_scheme \<Rightarrow> (ptr \<times> 'a intr_scheme) option" where
  "irq_handler call d slash dirent0 r s =
     (let s0 = s\<lparr>kernel_mode := 1\<rparr>
      in if ring0 (plist s0 (get_proc (get_pid s0) s0)) \<and> (ucast (get_reg INT_NO r s0) :: u8) = 0x80 then do {
           s1 \<leftarrow> software_int d slash dirent0 r s0;
           (r1, s2) \<leftarrow> schedule r s1;
           Some (r1, s2\<lparr>kernel_mode := 0\<rparr>) }
         else do {
           let handler = irq_handlers s0 (uint (ucast (get_reg INT_NO r s0) :: u8));
           (r1, s1) \<leftarrow> (if handler \<noteq> 0 then call handler r s0
                       else Some (r, printf (line ''f0und: Error! No IRQ handler installed for IRQ %d!'')
                              [PInt (get_reg INT_NO r s0)] s0));
           Some (r1, (irq_eoi r1 s1)\<lparr>kernel_mode := 0\<rparr>) })"

subsection \<open>Handlers\<close>

interpretation irqs: one_shot_slot "\<lambda>s. irq_handlers s (n + 0x20)" "\<lambda>h. irq_install_handler h n" for n
  by unfold_locales (auto simp: irq_install_handler_def)

interpretation ints: one_shot_slot "\<lambda>s. irq_handlers s n" "\<lambda>h. int_install_handler h n" for n
  by unfold_locales (auto simp: int_install_handler_def)

text \<open>A handler once installed for an interrupt line stays: however many further handlers are
  offered for that line, the table is unchanged, and each later offer is refused with -1.\<close>

theorem irq_handler_stays:
  fixes s :: "'a intr_scheme"
  assumes "irq_handlers s (n + 0x20) = 0" and "h \<noteq> 0" and "irq_install_handler h n s = (r, s1)"
    and "\<forall>g \<in> set gs. g \<noteq> 0"
  shows "r = 0 \<and> irq_handlers s1 (n + 0x20) = h
    \<and> fold (\<lambda>g s. snd (irq_install_handler g n s)) gs s1 = s1"
proof -
  obtain t where t: "irq_install_handler h n s = (0, t)" "irq_handlers t (n + 0x20) = h"
    using irqs.install_empty [OF assms(1,2)] by blast
  with assms(3) have "r = 0" "s1 = t" by auto
  then show ?thesis using irqs.filled_for_good [of t n gs] t(2) assms(2,4) by simp
qed

subsection \<open>The descriptor table\<close>

definition gate_offset :: "idt_entry \<Rightarrow> u32" where
  "gate_offset e = ucast (offset_low e) OR push_bit 16 (ucast (offset_high e))"

definition gate_to :: "u32 \<Rightarrow> idt_entry \<Rightarrow> bool" where
  "gate_to address e \<longleftrightarrow> gate_offset e = address \<and> segment_selector e = 8
     \<and> idt_flag e = \<lparr>gate_type = 0xe, zero_bit = False, dpl = 0, present = True\<rparr>"

lemma split_offset:
  "ucast (ucast (v AND 0xffff) :: u16) OR push_bit 16 (ucast (ucast (drop_bit 16 v AND 0xffff) :: u16)) = (v :: u32)"
  (is "?l = v")
proof (rule bit_word_eqI)
  fix n assume n: "n < LENGTH(32)"
  have m: "(0xffff :: u32) = mask 16" by (simp add: mask_eq_exp_minus_1)
  show "bit ?l n = bit v n"
    unfolding m using n
    by (cases "n < 16")
      (auto simp: bit_or_iff bit_push_bit_iff bit_ucast_iff bit_and_iff bit_mask_iff bit_drop_bit_eq)
qed

lemma gate_to_set:
  "gate_to address (idt_entries (idt_set j address \<lparr>gate_type = 0xe, zero_bit = False, dpl = 0, present = True\<rparr> s) j)"
  by (simp add: gate_to_def gate_offset_def idt_set_def split_offset)

lemma idt_fill_entries:
  "n \<le> 256 \<Longrightarrow> idt_entries (idt_fill first stub stride flags n s) j =
    (if unat (j - first) < n
     then idt_entries (idt_set j (stub + of_nat (unat (j - first)) * stride) flags s) j
     else idt_entries s j)"
proof (induction n)
  case (Suc n)
  have "j = first + of_nat n \<longleftrightarrow> unat (j - first) = n"
  proof
    assume "j = first + of_nat n"
    then show "unat (j - first) = n" using Suc.prems by (simp add: unat_of_nat)
  next
    assume "unat (j - first) = n"
    then have "j - first = of_nat n" by auto
    then show "j = first + of_nat n" by (metis add.commute diff_add_cancel)
  qed
  then show ?case using Suc by (auto simp: idt_set_def)
qed simp

lemma idt_fill_frame [simp]:
  "trace (idt_fill f st d fl n s) = trace s" "irq_handlers (idt_fill f st d fl n s) = irq_handlers s"
  by (induction n) (simp_all add: idt_set_def)

lemma init_idt_gates_lemma:
  assumes "init_idt st s = s'"
  shows "(\<forall>j. (unat j < 32 \<longrightarrow> gate_to (isr0 st + of_nat (unat j) * (isr1 st - isr0 st)) (idt_entries s' j))
      \<and> (32 \<le> unat j \<and> unat j < 48 \<longrightarrow>
          gate_to (irq0 st + of_nat (unat j - 32) * (irq1 st - irq0 st)) (idt_entries s' j))
      \<and> (j = 0x80 \<longrightarrow> gate_to (softint st) (idt_entries s' j))
      \<and> (48 \<le> unat j \<and> j \<noteq> 0x80 \<longrightarrow> idt_entries s' j = idt_entries s j))
    \<and> outputs (trace s') = outputs (trace s) @ map (\<lambda>(p, b). Outb p b)
      [(0x20, 0x11), (0xa0, 0x11), (0x21, 0x20), (0xa1, 0x28), (0x21, 4), (0xa1, 2),
       (0x21, 1), (0xa1, 1), (0x21, 0), (0xa1, 0), (0x21, 0xff), (0xa1, 0xff)]
    \<and> uint (idt_desc_size s') = 8 * 192 - 1"
proof -
  let ?fl = "\<lparr>gate_type = 0xe, zero_bit = False, dpl = 0, present = True\<rparr>"
  let ?s1 = "idt_fill 0 (isr0 st) (isr1 st - isr0 st) ?fl 32 s"
  let ?s2 = "idt_fill 32 (irq0 st) (irq1 st - irq0 st) ?fl 16 ?s1"
  have frame: "idt_entries (snd (int_install_handler h n t)) = idt_entries t"
    "trace (snd (int_install_handler h n t)) = trace t"
    "idt_desc_size (snd (int_install_handler h n t)) = idt_desc_size t"
    for h n and t :: "'a intr_scheme" by (simp_all add: int_install_handler_def)
  have entry: "idt_entries s' j = (if j = 0x80 then idt_entries (idt_set j (softint st) ?fl s) j else idt_entries ?s2 j)" for j
    using assms unfolding init_idt_def Let_def by (auto simp: frame irq_remap_def outb_def idt_set_def)
  have diff: "unat (j - 32) = unat j - 32" if "32 \<le> unat j" for j :: u8
    using that by (simp add: unat_sub_if_size word_size)
  have wrap: "unat (j - 32) = unat j + 224" if "unat j < 32" for j :: u8
    using that by (simp add: unat_sub_if_size word_size)
  have g: "idt_entries ?s2 j =
      (if unat j < 32 then idt_entries (idt_set j (isr0 st + of_nat (unat j) * (isr1 st - isr0 st)) ?fl s) j
       else if unat j < 48 then
         idt_entries (idt_set j (irq0 st + of_nat (unat j - 32) * (irq1 st - irq0 st)) ?fl s) j
       else idt_entries s j)" for j
    using diff [of j] wrap [of j] by (auto simp: idt_fill_entries idt_set_def)
  have eighty: "unat (0x80 :: u8) = 128" by simp
  have "uint (idt_desc_size s') = 1535"
    using assms unfolding init_idt_def Let_def by (auto simp: frame irq_remap_def outb_def idt_set_def)
  moreover have "outputs (trace s') = outputs (trace s) @ map (\<lambda>(p, b). Outb p b)
      [(0x20, 0x11), (0xa0, 0x11), (0x21, 0x20), (0xa1, 0x28), (0x21, 4), (0xa1, 2),
       (0x21, 1), (0xa1, 1), (0x21, 0), (0xa1, 0), (0x21, 0xff), (0xa1, 0xff)]"
    using assms unfolding init_idt_def Let_def by (auto simp: frame irq_remap_def outb_def idt_set_def)
  ultimately show ?thesis
    unfolding entry g using gate_to_set eighty by auto
qed

text \<open>After \<open>init_idt\<close> the gates of the 32 exceptions and the 16 interrupt lines lead, as
  present ring 0 interrupt gates of the code segment 8, to the stubs at equal distances after the
  first one; gate 0x80 leads to \<open>softint\<close>; all other gates are as before. The interrupt controllers
  are moved to the vectors 0x20 and 0x28 and every line is masked. The limit is six bytes for each
  of 256 gates of eight bytes, less one, so it ends after gate 191.\<close>

theorem init_idt_gates:
  assumes "init_idt st s = s'"
  shows "(\<forall>j. (unat j < 32 \<longrightarrow> gate_to (isr0 st + of_nat (unat j) * (isr1 st - isr0 st)) (idt_entries s' j))
      \<and> (32 \<le> unat j \<and> unat j < 48 \<longrightarrow>
          gate_to (irq0 st + of_nat (unat j - 32) * (irq1 st - irq0 st)) (idt_entries s' j))
      \<and> (j = 0x80 \<longrightarrow> gate_to (softint st) (idt_entries s' j))
      \<and> (48 \<le> unat j \<and> j \<noteq> 0x80 \<longrightarrow> idt_entries s' j = idt_entries s j))
    \<and> outputs (trace s') = outputs (trace s) @ map (\<lambda>(p, b). Outb p b)
      [(0x20, 0x11), (0xa0, 0x11), (0x21, 0x20), (0xa1, 0x28), (0x21, 4), (0xa1, 2),
       (0x21, 1), (0xa1, 1), (0x21, 0), (0xa1, 0), (0x21, 0xff), (0xa1, 0xff)]
    \<and> uint (idt_desc_size s') = 8 * 192 - 1"
  by (rule init_idt_gates_lemma [OF assms])

subsection \<open>System calls\<close>

lemma load_regs_fields:
  "r_eax (load_regs (mem s) r) = get_reg EAX r s" "r_ebx (load_regs (mem s) r) = get_reg EBX r s"
  "r_int_no (load_regs (mem s) r) = get_reg INT_NO r s"
  by (simp_all add: load_regs_def words_regs_def get_reg_def EAX_def EBX_def INT_NO_def nth_load_words
      del: load_words.simps)

lemma load_words_store32:
  assumes "i < n" and "n < 2 ^ 29"
  shows "load_words (store32 (a + 4 * of_nat i) v m) a n = (load_words m a n)[i := v]"
proof (rule nth_equalityI)
  fix j assume "j < length (load_words (store32 (a + 4 * of_nat i) v m) a n)"
  then have "j < n" by simp
  then show "load_words (store32 (a + 4 * of_nat i) v m) a n ! j = (load_words m a n)[i := v] ! j"
    using assms load32_store32_word [of i j a v m] by (cases "i = j") (simp_all add: nth_load_words)
qed simp

lemma load_regs_set_eax:
  "load_regs (mem (set_reg EAX v r s)) r = (load_regs (mem s) r)\<lparr>r_eax := v\<rparr>"
proof -
  have "load_regs (mem (set_reg EAX v r s)) r = words_regs ((load_words (mem s) r 19)[11 := v])"
    using load_words_store32 [of 11 19 r v "mem s"] by (simp add: load_regs_def set_reg_def EAX_def del: load_words.simps)
  then show ?thesis by (simp add: load_regs_def words_regs_def del: load_words.simps)
qed

text \<open>The whole interrupt of a system call that answers: the answer goes into the frame, the frame into
  the process, and the next process in turn is resumed.\<close>

lemma system_call_step:
  fixes s :: "'a intr_scheme"
  assumes on: "scheduling s" "existing s (cpid s)"
    and proc: "ring0 (plist s (entry_ptr s (cpid s)))" "abi (procs s (proc_ptr s (cpid s))) = 0"
    and int: "(ucast (get_reg INT_NO r s) :: u8) = 0x80"
    and al: "sys_kumalloc (sint (get_reg EBX r s div 4096 + 1)) 6 (ucast (cpid s)) s = (a, s1)"
    and ax: "(get_reg EAX r s, v) \<in> {(7, ucast (cpid s)), (8, get_proc (get_reg EBX r s) s), (9, a)}"
  obtains r1 s' where "irq_handler call d slash dirent0 r s = Some (r1, s')"
    "procs s' = (procs s)(proc_ptr s (cpid s) :=
      procs s (proc_ptr s (cpid s))\<lparr>regs := (load_regs (mem s) r)\<lparr>r_eax := v\<rparr>\<rparr>)"
    "plist s' = plist s" "proc_list s' = proc_list s" "scheduling s'" "existing s' (cpid s')"
    "load_regs (mem s') r1 = regs (procs s' (proc_ptr s' (cpid s')))"
    "ring0 (plist s (entry_ptr s (cpid s'))) \<Longrightarrow> r1 = r_esp (load_regs (mem s') r1) - frame_size"
proof -
  let ?s0 = "s\<lparr>kernel_mode := 1\<rparr>"
  note al' = sys_kumalloc_frame [OF al]
  have native: "software_int d slash dirent0 r ?s0 = native_irq d slash dirent0 r ?s0"
    using proc by (simp add: software_int_def get_pid_def)
  obtain m' where "native_irq d slash dirent0 r ?s0 = Some (set_reg EAX v r (?s0\<lparr>mmgr := m'\<rparr>))"
  proof (cases "get_reg EAX r s = 9")
    case True
    have "sys_kumalloc (sint (get_reg EBX r s div 4096 + 1)) 6 (ucast (cpid s)) ?s0 = (a, ?s0\<lparr>mmgr := mmgr s1\<rparr>)"
      using al' by (simp add: sys_kumalloc_def)
    with True that [of "mmgr s1"] ax show thesis
      by (auto simp: native_irq_def get_pid_def get_reg_def)
  next
    case False
    then show thesis using that [of "mmgr s"] ax
      by (auto simp: native_irq_def get_pid_def get_reg_def get_proc_def)
  qed
  with native have sw: "software_int d slash dirent0 r ?s0 = Some (set_reg EAX v r (?s0\<lparr>mmgr := m'\<rparr>))" by simp
  let ?t = "set_reg EAX v r (?s0\<lparr>mmgr := m'\<rparr>)"
  have nz: "cpid s \<noteq> 0" "entry_ptr s (cpid s) \<noteq> 0" using on(2) by (simp_all add: existing_def)
  obtain fp s' k where r: "schedule r ?t = Some (fp, s')" "resumes r (saved r ?t) s' fp"
    "cpid s' = cpid ?t + of_nat k" "next_in_turn ?t k"
    by (rule schedule_step [of ?t "cpid s" r])
      (use on nz in \<open>simp_all add: scheduling_def set_reg_def\<close>)
  note fr = resumes_frame [OF r(2)]
  have h: "irq_handler call d slash dirent0 r s = Some (fp, s'\<lparr>kernel_mode := 0\<rparr>)"
    using int proc sw r(1) by (simp add: irq_handler_def get_pid_def get_reg_def)
  have ps: "procs s' = (procs s)(proc_ptr s (cpid s) :=
      procs s (proc_ptr s (cpid s))\<lparr>regs := (load_regs (mem s) r)\<lparr>r_eax := v\<rparr>\<rparr>)"
    using fr nz load_regs_set_eax [of v r "?s0\<lparr>mmgr := m'\<rparr>"] by (simp add: saved_procs set_reg_def)
  have ex: "existing s' (cpid s')" using r(3,4) fr by (simp add: existing_def next_in_turn_def set_reg_def)
  have "plist s' = plist s" "proc_list s' = proc_list s" using fr by (simp_all add: set_reg_def)
  then have fp: "fp = r_esp (load_regs (mem s') fp) - frame_size" if "ring0 (plist s (entry_ptr s (cpid s')))"
    using resumes_ring0 [OF r(2)] that by simp
  show thesis
    by (rule that [OF h]) (use ps ex fp fr(8) fr on(1) in \<open>simp_all add: existing_def scheduling_def set_reg_def\<close>)
qed

text \<open>The system calls 7, 8 and 9 hand the caller its pid, the entry of the process \<open>ebx\<close> names
  and fresh memory in \<open>eax\<close>: the caller's saved registers are those it was interrupted with but for
  \<open>eax\<close>, and the interrupt returns into some existing process with the registers saved for it.\<close>

theorem system_call_answers:
  fixes s :: "'a intr_scheme"
  assumes on: "scheduling s" "existing s (cpid s)"
    and proc: "ring0 (plist s (entry_ptr s (cpid s)))" "abi (procs s (proc_ptr s (cpid s))) = 0"
    and int: "(ucast (get_reg INT_NO r s) :: u8) = 0x80"
    and al: "sys_kumalloc (sint (get_reg EBX r s div 4096 + 1)) 6 (ucast (cpid s)) s = (a, s1)"
    and ax: "(get_reg EAX r s, v) \<in> {(7, ucast (cpid s)), (8, get_proc (get_reg EBX r s) s), (9, a)}"
  shows "\<exists>r1 s'. irq_handler call d slash dirent0 r s = Some (r1, s')
    \<and> regs (procs s' (proc_ptr s (cpid s))) = (load_regs (mem s) r)\<lparr>r_eax := v\<rparr>
    \<and> existing s' (cpid s') \<and> load_regs (mem s') r1 = regs (procs s' (proc_ptr s' (cpid s')))"
  by (rule system_call_step [OF assms, of call d slash dirent0]) auto

text \<open>Whether a timer interrupt is acknowledged depends on the process it resumes: the
  end-of-interrupt commands are those for the interrupt that process was last suspended by, so none
  is sent when that was the system call 0x80.\<close>

theorem timer_acknowledged_for_resumed_process:
  fixes s :: "'a intr_scheme"
  assumes on: "scheduling s" "existing s q"
    and int: "get_reg INT_NO r s = 0x20" and h: "irq_handlers s 0x20 \<noteq> 0"
    and call: "\<And>t. call (irq_handlers s 0x20) r t = irq0_timer_handler r t"
  shows "\<exists>r1 s'. irq_handler call d slash dirent0 r s = Some (r1, s') \<and> existing s' (cpid s')
    \<and> outputs (trace s') = outputs (trace s)
      @ (let n = r_int_no (regs (procs s' (proc_ptr s' (cpid s'))))
         in (if 0x28 \<le> n \<and> n < 0x30 then [Outb 0xa0 0x20] else []) @ (if n < 0x30 then [Outb 0x20 0x20] else []))"
proof -
  let ?s0 = "s\<lparr>kernel_mode := 1\<rparr>"
  have on0: "scheduling ?s0" "existing ?s0 q" using on by (simp_all add: scheduling_def existing_def)
  obtain gp s' k where t: "irq0_timer_handler r (?s0\<lparr>mem := mem s\<rparr>) = Some (gp, s')"
    "cpid s' = cpid ?s0 + of_nat k" "next_in_turn ?s0 k" "proc_list s' = proc_list ?s0"
    "load_regs (mem s') gp = regs (procs s' (proc_ptr s' (cpid s')))"
    "outputs (trace s') = outputs (trace ?s0)"
    by (rule tick_step [OF on0, of r "mem s"]) (rule that; assumption)
  have n: "r_int_no (regs (procs s' (proc_ptr s' (cpid s')))) = get_reg INT_NO gp s'"
    using load_regs_fields(3) [of s' gp] t(5) by simp
  have call': "call (irq_handlers s 0x20) r ?s0 = Some (gp, s')"
    using t(1) call by simp
  have "irq_handler call d slash dirent0 r s = Some (gp, (irq_eoi gp s')\<lparr>kernel_mode := 0\<rparr>)"
    using int h call' by (simp add: irq_handler_def get_reg_def)
  moreover have "existing s' (cpid s')"
    using t(2-4) by (simp add: existing_def next_in_turn_def)
  moreover have "procs (irq_eoi gp s') = procs s'" "plist (irq_eoi gp s') = plist s'"
    "proc_list (irq_eoi gp s') = proc_list s'" "cpid (irq_eoi gp s') = cpid s'"
    by (simp_all add: irq_eoi_def outb_def Let_def)
  ultimately show ?thesis using t(6)
    by (intro exI [of _ gp] exI [of _ "(irq_eoi gp s')\<lparr>kernel_mode := 0\<rparr>"])
      (simp add: existing_def Let_def n, auto simp: irq_eoi_def get_reg_def outb_def Let_def)
qed

end
