(* ===== verification/DriverExamples.thy ===== *)
theory DriverExamples
  imports Keyboard Ata Interrupts SchedulerExamples
begin

text \<open>The properties of the drivers and of the interrupt dispatch at concrete states.\<close>

subsection \<open>Timer\<close>

definition clock0 :: timer where
  "clock0 = \<lparr>trace = [], seconds = 0, ticks = 0, wait_secs_start = 0, wait_ticks_start = 0\<rparr>"

theorem wait_secs_duration_witness:
  "fst (wait_secs 0 ((timer_tick ^^ 36) (snd (wait_secs 2 clock0)))) = 1
    \<and> fst (wait_secs 0 ((timer_tick ^^ 18) (snd (wait_secs 2 clock0)))) = 0"
proof -
  have ok: "clock_ok clock0" by (simp add: clock_ok_def clock0_def)
  obtain r s' where w: "wait_secs 2 clock0 = (r, s')" by fastforce
  have "unat (seconds clock0) + unat (2 :: u32) \<le> 2 ^ 32" "unat (ticks clock0) + 36 < 2 ^ 32"
    "unat (ticks clock0) + 18 < 2 ^ 32" by (simp_all add: clock0_def)
  with wait_secs_duration [OF ok _ _ _ w, of 36] wait_secs_duration [OF ok _ _ _ w, of 18] w
  show ?thesis by simp
qed

theorem prng_first_number_witness:
  "\<exists>s'. prng (timer.extend clock0 (ksec.fields 0)) = Some (1, s')"
  using prng_first_number [of "timer.extend clock0 (ksec.fields 0)"] by (simp add: clock0_def timer.defs ksec.defs)

subsection \<open>Keyboard\<close>

definition keyboard0 :: keyboard where
  "keyboard0 = serial.extend console (keyboard.fields 0 0x9000 0 0 0 0 0 [])"

lemmas keyboard0_defs = keyboard0_def serial.defs keyboard.defs

definition keyboard1 :: keyboard where
  "keyboard1 = keyboard0\<lparr>g_listener := 0xA000\<rparr>"

theorem register_kb_listener_first_wins_witness:
  "\<exists>r s1 r' s2. register_kb_listener 0xA000 keyboard0 = (r, s1) \<and> register_kb_listener 0xB000 s1 = (r', s2)
    \<and> r' \<noteq> 0 \<and> kb_calls (kb_listener 97 s2) = [(0xA000, 97)]"
proof -
  obtain r s1 where 1: "register_kb_listener 0xA000 keyboard0 = (r, s1)" by fastforce
  obtain r' s2 where 2: "register_kb_listener 0xB000 s1 = (r', s2)" by fastforce
  have "g_listener keyboard0 = 0" by (simp add: keyboard0_defs)
  from register_kb_listener_first_wins [OF this _ 1 _ 2, of 97] 1 2 show ?thesis
    by (auto simp: keyboard0_defs register_kb_listener_def)
qed

theorem ps2_handler_refines_typing_witness:
  "\<exists>cs s'. s' = ((\<lambda>s. snd (ps2_handler (\<lambda>_. 0) (scancode_dev 0x1E) () s)) ^^ 2) keyboard1
    \<and> length cs = 2 \<and> kb_calls s' = map (Pair 0xA000) (fst (kb_typed (\<lambda>_. 0) cs (modifiers keyboard1)))"
  using ps2_handler_refines_typing [of keyboard1, OF _ _ refl, of 2 "\<lambda>_. 0" "scancode_dev 0x1E" "()"]
  by (auto simp: keyboard1_def keyboard0_defs)

theorem caps_lock_swallows_enter_witness:
  "\<exists>s'. snd (ps2_handler (\<lambda>_. 0) (scancode_dev 0x1C) () (keyboard1\<lparr>caps_lock := 1\<rparr>)) = s'
    \<and> (kb_calls s' = [] \<or> (\<exists>c. 32 \<le> c \<and> c \<le> 126 \<and> kb_calls s' = [(0xA000, c)]))"
  using caps_lock_swallows_enter [of "keyboard1\<lparr>caps_lock := 1\<rparr>", OF _ refl, of "\<lambda>_. 0" "scancode_dev 0x1C" "()"]
  by (simp add: keyboard1_def keyboard0_defs)

theorem ctrl_acts_as_shift_witness:
  "kb_calls (type_keys (\<lambda>_. 0) [0x1D, 0x1E, 0x9E, 0x9D] keyboard1) = [(0xA000, 65)]"
  using ctrl_acts_as_shift [of keyboard1 "\<lambda>_. 0"] by (simp add: keyboard1_def keyboard0_defs)

definition controller :: device where
  "controller = \<lparr>dev_inb = (\<lambda>tr p. if p = 0x64 then (case tr of Outb _ c # _ \<Rightarrow> if c = 0xA7 then 0 else 1 | _ \<Rightarrow> 0)
       else (case tr of _ # Outb _ c # _ \<Rightarrow> if c = 0x20 then 0x65 else if c = 0xAA then 0x55 else 0 | _ \<Rightarrow> 0)),
     dev_inw = (\<lambda>_ _. 0), dev_seconds = (\<lambda>_. 0)\<rparr>"

theorem init_8042_never_writes_configuration_witness:
  "\<exists>s'. init_8042 0x9000 controller keyboard0 = Some (0, s') \<and> ps2_listener s' = 0x9000
    \<and> outputs (trace s') = map (Outb 0x64) [0xAD, 0xA7, 0x20, 0x60, 0x24, 0xAA, 0xAB, 0xAE]"
proof -
  have "working_8042 0x65 controller" by (simp add: working_8042_def controller_def)
  from init_8042_never_writes_configuration [OF this, of "0x9000" keyboard0] show ?thesis
    by (simp add: keyboard0_defs outputs_def)
qed

subsection \<open>Disk\<close>

definition disk_device :: device where
  "disk_device = \<lparr>dev_inb = (\<lambda>_ _. 0x48), dev_inw = (\<lambda>tr _. of_nat (length tr)), dev_seconds = (\<lambda>_. 0)\<rparr>"

definition disk :: ata_drive32 where
  "disk = undefined\<lparr>base_port := 0x1F0, slave := False, lba48 := False\<rparr>"

definition machine0 :: machine where
  "machine0 = \<lparr>trace = [], seconds = 0, ticks = 0, wait_secs_start = 0, wait_ticks_start = 0, seed = 0,
     mem = \<lambda>_. 0, mmgr = empty_table\<rparr>"

lemma disk_lba: "\<not> lba48 disk"
  by (simp add: disk_def)

lemma disk_serving: "serving (base_port disk) 0 disk_device"
  by (simp add: serving_def disk_device_def)


theorem ata28_write_transfers_witness:
  "\<exists>s'. ata28_write disk_device 0x8000 disk 2 100 machine0 = Some (0, s') \<and> mem s' = mem machine0"
  using ata28_write_transfers [OF disk_serving, of "0x8000" 2 100 machine0] by auto


subsection \<open>Interrupts\<close>

definition intr0 :: intr where
  "intr0 = sched.extend no_process (intr.fields (\<lambda>_. undefined) 0 0 (\<lambda>_. 0) 1 0 0)"

theorem irq_handler_stays_witness:
  "\<exists>r s1. irq_install_handler 0x9000 1 intr0 = (r, s1) \<and> irq_handlers s1 0x21 = 0x9000
    \<and> snd (irq_install_handler 0xA000 1 s1) = s1"
proof -
  obtain r s1 where i: "irq_install_handler 0x9000 1 intr0 = (r, s1)" by fastforce
  have "irq_handlers intr0 (1 + 0x20) = 0" by (simp add: intr0_def sched.defs intr.defs)
  from irq_handler_stays [OF this _ i, of "[0xA000]"] i show ?thesis by auto
qed

theorem init_idt_gates_witness:
  "\<exists>s'. init_idt \<lparr>isr0 = 0x1000, isr1 = 0x1010, irq0 = 0x2000, irq1 = 0x2010, softint = 0x3000,
       idt_base = 0x4000\<rparr> intr0 = s'
    \<and> gate_to 0x1030 (idt_entries s' 3) \<and> gate_to 0x2010 (idt_entries s' 33) \<and> gate_to 0x3000 (idt_entries s' 0x80)
    \<and> uint (idt_desc_size s') = 1535"
proof -
  let ?st = "\<lparr>isr0 = 0x1000, isr1 = 0x1010, irq0 = 0x2000, irq1 = 0x2010, softint = 0x3000, idt_base = 0x4000\<rparr>"
  note g = init_idt_gates [OF refl, of ?st intr0]
  show ?thesis
    using conjunct1 [OF g, THEN spec, of 3] conjunct1 [OF g, THEN spec, of 33]
      conjunct1 [OF g, THEN spec, of "0x80"] conjunct2 [OF g] by simp
qed

text \<open>Process 1 runs, both processes are kernel processes, process 2 was last suspended by interrupt
  \<open>n2\<close>; the frame of interrupt \<open>n\<close> with \<open>eax\<close> holding \<open>a\<close> lies at 0x7000.\<close>

definition running_intr :: "u32 \<Rightarrow> u32 \<Rightarrow> u32 \<Rightarrow> intr" where
  "running_intr n a n2 = sched.extend ((two_processes 1)
     \<lparr>plist := (\<lambda>x. (plist (two_processes 1) x)\<lparr>ring0 := True\<rparr>),
      procs := (\<lambda>_. blank_proc)(0x104000 := blank_proc\<lparr>regs := no_regs\<lparr>r_int_no := n2\<rparr>\<rparr>),
      mem := store_regs 0x7000 (no_regs\<lparr>r_eax := a, r_int_no := n\<rparr>) (\<lambda>_. 0)\<rparr>)
     (intr.fields (\<lambda>_. undefined) 0 0 ((\<lambda>_. 0)(0x20 := 0x9000)) 1 0 0)"

lemma running_intr_sel [simp]:
  "cpid (running_intr n a n2) = 1" "active_procs (running_intr n a n2) = 2"
  "enable_scheduler (running_intr n a n2) = 1" "proc_list (running_intr n a n2) = proc_list (two_processes 1)"
  "plist (running_intr n a n2) = (\<lambda>x. (plist (two_processes 1) x)\<lparr>ring0 := True\<rparr>)"
  "procs (running_intr n a n2) = (\<lambda>_. blank_proc)(0x104000 := blank_proc\<lparr>regs := no_regs\<lparr>r_int_no := n2\<rparr>\<rparr>)"
  "irq_handlers (running_intr n a n2) = (\<lambda>_. 0)(0x20 := 0x9000)" "outputs (trace (running_intr n a n2)) = []"
  "load_regs (mem (running_intr n a n2)) 0x7000 = no_regs\<lparr>r_eax := a, r_int_no := n\<rparr>"
  by (simp_all add: running_intr_def sched.defs intr.defs two_processes_def no_process_def)

lemma running_intr_reg [simp]:
  "get_reg EAX 0x7000 (running_intr n a n2) = a" "get_reg INT_NO 0x7000 (running_intr n a n2) = n"
  using load_regs_fields(1,3) [where s = "running_intr n a n2" and r = "0x7000"] by simp_all

lemma running_intr_existing:
  "scheduling (running_intr n a n2)" "existing (running_intr n a n2) p \<longleftrightarrow> p = 1 \<or> p = 2"
  using existing_two [where c = 1 and p = p] by (simp_all add: scheduling_def existing_def)

theorem system_call_answers_witness:
  "\<exists>r1 s'. irq_handler (\<lambda>_ _ _. None) disk_device 0 undefined 0x7000 (running_intr 0xffffff80 7 0) = Some (r1, s')
    \<and> regs (procs s' 0x101000) = no_regs\<lparr>r_eax := 1, r_int_no := 0xffffff80\<rparr>"
proof -
  let ?s = "running_intr 0xffffff80 7 0"
  obtain a s1 where al: "sys_kumalloc (sint (get_reg EBX 0x7000 ?s div 4096 + 1)) 6 (ucast (cpid ?s)) ?s = (a, s1)"
    by fastforce
  from system_call_answers [OF running_intr_existing(1) _ _ _ _ al, where v = 1 and call = "\<lambda>_ _ _. None"
      and d = disk_device and slash = 0 and ?dirent0.0 = undefined]
  show ?thesis by (auto simp: running_intr_existing blank_proc_def)
qed

theorem timer_acknowledged_for_resumed_process_witness:
  "\<exists>r1 s'. irq_handler (\<lambda>_. irq0_timer_handler) disk_device 0 undefined 0x7000 (running_intr 0x20 0 0xffffff80) = Some (r1, s')
    \<and> existing s' (cpid s')"
proof -
  let ?s = "running_intr 0x20 0 0xffffff80"
  have q: "existing ?s 1" by (simp add: running_intr_existing)
  from timer_acknowledged_for_resumed_process [OF running_intr_existing(1) q, where r = "0x7000" and call = "\<lambda>_. irq0_timer_handler"
      and d = disk_device and slash = 0 and ?dirent0.0 = undefined]
  show ?thesis by auto
qed

end
