(* ===== verification/FatWrite.thy ===== *)
theory FatWrite
  imports Fat
begin

text \<open>
  Writing a file with \<open>fat32_write\<close> of \<open>kernel/filesystems/fat.c\<close>: the cached part of the allocation
  table as a function from clusters to clusters, what a store of a successor makes of it, and what a
  write leaves on the RAM disk and in the table.
\<close>

section \<open>The table as a function\<close>

definition table_size :: "fs_fat \<Rightarrow> nat" where
  "table_size f = 4 * Suc (unat (cached_clusters_size f))"

text \<open>The clusters taken to be cached are the first ones from the base on, however the bounds wrap.\<close>

lemma cached_offset:
  assumes "cached s fat c"
  shows "unat (c - cache_base (fs_at s fat)) \<le> unat (cached_clusters_size (fs_at s fat))"
proof -
  let ?b = "cache_base (fs_at s fat)" and ?n = "cached_clusters_size (fs_at s fat)"
  have "?b \<le> c" "c \<le> ?b + ?n" using assms by (simp_all add: cached_def cache_misses_def not_less)
  then show ?thesis by unat_arith
qed

lemma slot_in_table:
  assumes "cached s fat c" and "table_size (fs_at s fat) \<le> 2 ^ 32" and "in_region (cache_slot (fs_at s fat) c) 4 x"
  shows "in_region (fat_cache (fs_at s fat)) (table_size (fs_at s fat)) x"
proof -
  let ?o = "unat (c - cache_base (fs_at s fat))"
  have "in_region (fat_cache (fs_at s fat) + of_nat (4 * ?o)) 4 x" using assms(3) by (simp add: cache_slot_word)
  then show ?thesis
    by (rule in_subregion) (use cached_offset [OF assms(1)] assms(2) in \<open>simp_all add: table_size_def\<close>)
qed

text \<open>A successor set is one value of the function changed, and nothing else.\<close>

lemma set_next_cached:
  assumes "cached s fat c" and "unat (cached_clusters_size (fs_at s fat)) < 2 ^ 29"
  shows "\<exists>m. set_next_cluster32 d c n fat s = Some (s\<lparr>mem := m\<rparr>)
    \<and> (\<forall>x. cached s fat x \<longrightarrow>
          cached_next (s\<lparr>mem := m\<rparr>) fat x = ((cached_next s fat)(c := if c = n then - 1 else n)) x)
    \<and> (\<forall>x. \<not> in_region (fat_cache (fs_at s fat)) (table_size (fs_at s fat)) x \<longrightarrow> m x = mem s x)"
proof -
  let ?f = "fs_at s fat" and ?v = "if c = n then - 1 else n"
  let ?m = "store32 (cache_slot ?f c) ?v (mem s)"
  have "set_next_cluster32 d c n fat s = Some (s\<lparr>mem := ?m\<rparr>)"
    using assms(1) by (simp add: cached_def set_next_cluster32_def)
  moreover have "cached_next (s\<lparr>mem := ?m\<rparr>) fat x = ((cached_next s fat)(c := ?v)) x" if "cached s fat x" for x
  proof (cases "x = c")
    case False
    then have "unat (c - cache_base ?f) \<noteq> unat (x - cache_base ?f)" by (simp flip: word_unat_eq_iff)
    moreover have "unat (c - cache_base ?f) < 2 ^ 29" "unat (x - cache_base ?f) < 2 ^ 29"
      using cached_offset [OF assms(1)] cached_offset [OF that] assms(2) by linarith+
    ultimately show ?thesis
      using load32_store32_word [of "unat (c - cache_base ?f)" "unat (x - cache_base ?f)"] False
      by (simp add: cached_next_def cache_slot_word)
  qed (simp add: cached_next_def)
  moreover have "?m x = mem s x" if "\<not> in_region (fat_cache ?f) (table_size ?f) x" for x
    by (rule store32_outside)
      (use slot_in_table [OF assms(1)] that assms(2) in \<open>auto simp: table_size_def\<close>)
  ultimately show ?thesis by blast
qed

section \<open>Writing\<close>

lemma write_ramdisk:
  "d_type (drive_at s (drives s drive)) = DRIVE_VIRT \<Longrightarrow>
   write_to_drive d b n start drive s = Some (0, ramdisk_write start b n s)"
  by (simp add: write_to_drive_def drive_type_defs ecode_defs)

text \<open>A memory that differs only outside the table has the same table.\<close>

lemma cached_cong: "fs_at s' fat = fs_at s fat \<Longrightarrow> cached s' fat x = cached s fat x"
  by (simp add: cached_def)

lemma cached_next_cong:
  assumes "fs_at s' fat = fs_at s fat" and "cached s fat x" and "table_size (fs_at s fat) \<le> 2 ^ 32"
    and "\<And>y. in_region (fat_cache (fs_at s fat)) (table_size (fs_at s fat)) y \<Longrightarrow> mem s' y = mem s y"
  shows "cached_next s' fat x = cached_next s fat x"
  unfolding cached_next_def assms(1)
  by (rule load32_cong) (use slot_in_table [OF assms(2,3)] assms(4) in blast)

text \<open>The end of a chain: a free cluster is taken and linked behind \<open>c\<close>.\<close>

definition link_free :: "device \<Rightarrow> u32 \<Rightarrow> ptr \<Rightarrow> 'a storage_scheme \<Rightarrow> (bool \<times> u32 \<times> 'a storage_scheme) option" where
  "link_free d c fat s = do {
     (free, s4) \<leftarrow> fat32_find_free_cluster d fat s;
     s5 \<leftarrow> set_next_cluster32 d c free fat s4;
     s6 \<leftarrow> set_next_cluster32 d free (- 1) fat s5;
     Some (True, free, s6) }"

lemma link_free_cluster:
  assumes small: "unat (cached_clusters_size (fs_at s fat)) < 2 ^ 29"
    and c: "cached s fat c" "cached_next s fat c \<noteq> 0"
    and i: "i = (if last_free_cluster (fs_at s fat) = - 1 then 0 else last_free_cluster (fs_at s fat))"
    and all: "\<forall>x. i \<le> x \<longrightarrow> x < total_clusters (fs_at s fat) \<longrightarrow> cached s fat x"
    and free: "i \<le> y" "y < total_clusters (fs_at s fat)" "cached_next s fat y = 0"
  shows "\<exists>r s'. link_free d c fat s = Some (True, r, s')
    \<and> i \<le> r \<and> r \<le> y \<and> cached_next s fat r = 0
    \<and> (\<forall>x. cached s fat x \<longrightarrow> cached_next s' fat x = ((cached_next s fat)(c := r, r := - 1)) x)
    \<and> (\<forall>x. \<not> in_region (fat_cache (fs_at s fat)) (table_size (fs_at s fat)) x \<longrightarrow> mem s' x = mem s x)"
proof -
  let ?upd = "\<lambda>r. set_fs fat (\<lambda>f. f\<lparr>last_free_cluster := r\<rparr>) s"
  obtain r where r: "fat32_find_free_cluster d fat s = Some (r, ?upd r)" "i \<le> r" "r < total_clusters (fs_at s fat)"
    "cached_next s fat r = 0" "\<forall>x. i \<le> x \<longrightarrow> x < r \<longrightarrow> cached_next s fat x \<noteq> 0"
    using find_free_cluster_first [OF i, of d] all free by blast
  have y: "r \<le> y" using r(5) free by (metis not_le)
  have ne: "c \<noteq> r" using c(2) r(4) by auto
  have keep: "cached (?upd r) fat x = cached s fat x" "cached_next (?upd r) fat x = cached_next s fat x"
    "mem (?upd r) = mem s" "cached_clusters_size (fs_at (?upd r) fat) = cached_clusters_size (fs_at s fat)"
    "fat_cache (fs_at (?upd r) fat) = fat_cache (fs_at s fat)" "table_size (fs_at (?upd r) fat) = table_size (fs_at s fat)" for x
    by (simp_all add: set_fs_def cached_def cached_next_def cache_misses_def cache_base_def cache_slot_def table_size_def)
  obtain m1 where m1: "set_next_cluster32 d c r fat (?upd r) = Some ((?upd r)\<lparr>mem := m1\<rparr>)"
    "\<And>x. cached s fat x \<Longrightarrow> cached_next ((?upd r)\<lparr>mem := m1\<rparr>) fat x = ((cached_next s fat)(c := r)) x"
    "\<And>x. \<not> in_region (fat_cache (fs_at s fat)) (table_size (fs_at s fat)) x \<Longrightarrow> m1 x = mem s x"
    using set_next_cached [of "?upd r" fat c d r] c(1) small ne unfolding fun_upd_def keep by auto
  let ?s5 = "(?upd r)\<lparr>mem := m1\<rparr>"
  have keep5: "cached ?s5 fat x = cached s fat x" "fs_at ?s5 = fs_at (?upd r)" for x
    using keep(1) [of x] by (simp_all add: cached_def)
  obtain m2 where m2: "set_next_cluster32 d r (- 1) fat ?s5 = Some (?s5\<lparr>mem := m2\<rparr>)"
    "\<And>x. cached s fat x \<Longrightarrow> cached_next (?s5\<lparr>mem := m2\<rparr>) fat x = ((cached_next ?s5 fat)(r := - 1)) x"
    "\<And>x. \<not> in_region (fat_cache (fs_at s fat)) (table_size (fs_at s fat)) x \<Longrightarrow> m2 x = m1 x"
    using set_next_cached [of ?s5 fat r d "- 1"] all [rule_format, OF r(2,3)] small unfolding keep5 keep by auto
  show ?thesis
    using r(1,2,4) y m1 m2
    by (intro exI [of _ r] exI [of _ "?s5\<lparr>mem := m2\<rparr>"]) (simp add: link_free_def)
qed

text \<open>The data of one cluster, on the RAM disk and apart from the table: the table stays what it was.\<close>

lemma cluster_data_written:
  assumes f: "f = fs_at s fat" and k: "k = unat (sectors_per_cluster f)" "512 * k < 2 ^ 32"
    and dest: "dest = ramdisk_addr pos s" and size: "table_size f \<le> 2 ^ 32"
    and apart: "apart buffer (512 * k) dest (512 * k)" "apart (fat_cache f) (table_size f) dest (512 * k)"
    and t: "t = printf g xs (ramdisk_write pos buffer (sectors_per_cluster f) s)"
  shows "fs_at t = fs_at s" and "cached t fat x = cached s fat x"
    and "cached s fat x \<Longrightarrow> cached_next t fat x = cached_next s fat x"
    and "load_words (mem t) dest (128 * k) = load_words (mem s) buffer (128 * k)"
proof -
  let ?u = "ramdisk_write pos buffer (sectors_per_cluster f) s"
  have w: "load_words (mem ?u) dest (128 * k) = load_words (mem s) buffer (128 * k)"
    "\<And>x. \<not> in_region dest (512 * k) x \<Longrightarrow> mem ?u x = mem s x"
    using ramdisk_write_words [where n = "sectors_per_cluster f" and a = buffer and pos = pos and s = s]
      k(2) apart(1) unfolding dest k(1) by blast+
  show fs: "fs_at t = fs_at s" by (simp add: t printf_def ramdisk_write_def)
  have m: "mem t = mem ?u" by (simp add: t printf_def)
  show "cached t fat x = cached s fat x" by (rule cached_cong) (simp only: fs)
  show "load_words (mem t) dest (128 * k) = load_words (mem s) buffer (128 * k)" unfolding m by (rule w(1))
  have "mem t y = mem s y" if "in_region (fat_cache f) (table_size f) y" for y
    unfolding m by (rule w(2)) (use that apart(2) in \<open>simp add: apart_iff\<close>)
  then show "cached_next t fat x = cached_next s fat x" if "cached s fat x"
    using cached_next_cong [of t fat s x] fs that size unfolding f by simp
qed


end
