(* ===== verification/StorageExamples.thy ===== *)
theory StorageExamples
  imports Storage FatWrite SerialExamples
begin

text \<open>The properties of the storage layer and of the FAT driver at concrete states: a RAM disk at 4 MB
  as the only kind of drive, and a FAT32 volume with the first hundred entries of its table cached
  at 0x9000.\<close>

definition ram_drive :: ata_drive32 where
  "ram_drive = \<lparr>d_number = 0, d_type = DRIVE_VIRT, read_only = False, removable = False, d_hidden = False,
     contains_pt = False, d_size_low = 4096, d_size_high = 0, bytes_per_sector = 512, base_port = 0,
     command_port = 0, slave = False, lba48 = False\<rparr>"

definition no_dirent :: dirent where
  "no_dirent = \<lparr>de_name = [], de_ext = [], de_attributes = 0, de_reserved = 0, creation_time_tenths = 0,
     creation_time = 0, creation_date = 0, last_accessed = 0, first_cluster_high = 0, last_mod_time = 0,
     last_mod_date = 0, first_cluster = 0, filesize_bytes = 0\<rparr>"

definition no_file :: fat_file where
  "no_file = \<lparr>f_permission = 0, f_mode = 0, f_fs_type = 0, f_position = 0, f_filesystem_id = 0,
     start_cluster = 3, current_cluster = 3, f_dirent = no_dirent, position_in_cluster = 0\<rparr>"

definition fat0 :: fs_fat where
  "fat0 = \<lparr>mountID = 0, fs_type = FS_FAT32, partition = 0, fs_drive = 0, fs_flags = 0, start_low = 0,
     start_high = 0, sector_size_bytes = 512, fs_size_low = 0, fs_size_high = 0, fat_offset_primary = 32,
     fat_offset_secondary = 0, fat_sectors_per_fat = 8, total_clusters = 10, sectors_per_cluster = 2,
     first_data_sector = 1000, free_clusters = 0, root_dir_cluster = 2, cached_clusters_start = 0,
     cached_clusters_size = 100, fat_cache = 0x9000, last_free_cluster = 3, fat_cache_size = 8,
     root_dir_entries = 0, root_dir_size_entries = 0, root_file = no_file\<rparr>"

definition storage0 :: storage where
  "storage0 = \<lparr>trace = [], seconds = 0, ticks = 0, wait_secs_start = 0, wait_ticks_start = 0, seed = 0,
     mem = \<lambda>_. 0, mmgr = empty_table, com = \<lambda>_. 0x3F8, com_descs = \<lambda>_. no_listeners, buffer_index = 0,
     padding = 1, auto_send_return = 1, g_listener = 0, ps2_listener = 0x9000, last_char = 0,
     ps_2_interrupt_fired = 0, last_key = 0, shift_down = 0, caps_lock = 0, kb_calls = [], drives = \<lambda>_. 0, filesystems = \<lambda>_. 0, ramdisk = 0x400000,
     drive_at = \<lambda>_. ram_drive, fs_at = \<lambda>_. fat0, file_at = \<lambda>_. no_file, tok_rest = 0\<rparr>"

definition no_device :: device where
  "no_device = \<lparr>dev_inb = \<lambda>_ _. 0, dev_inw = \<lambda>_ _. 0, dev_seconds = \<lambda>_. 0\<rparr>"

lemma storage0_sel [simp]:
  "mem storage0 = (\<lambda>_. 0)" "mmgr storage0 = empty_table" "drives storage0 = (\<lambda>_. 0)"
  "filesystems storage0 = (\<lambda>_. 0)" "ramdisk storage0 = 0x400000" "drive_at storage0 = (\<lambda>_. ram_drive)"
  "fs_at storage0 = (\<lambda>_. fat0)" "tok_rest storage0 = 0" "file_at storage0 = (\<lambda>_. no_file)"
  by (simp_all add: storage0_def)

lemma ram_drive_sel [simp]: "d_type ram_drive = DRIVE_VIRT" by (simp add: ram_drive_def)

lemma cached_fat0 [simp]: "fs_at s fat = fat0 \<Longrightarrow> cached s fat c \<longleftrightarrow> c \<le> 100"
  by (simp add: cached_def cache_misses_def cache_base_def fat0_def not_less)

subsection \<open>Tables and RAM disk\<close>

theorem register_fs_first_free_witness:
  "\<exists>s'. register_fs 0x5000 storage0 = (0, s') \<and> get_fs 0 s' = 0x5000"
proof -
  have "\<not> (\<forall>i. 0 \<le> i \<and> i < 26 \<longrightarrow> get_fs i storage0 \<noteq> 0)" by (auto simp: get_fs_def intro: exI [of _ 0])
  with register_fs_first_free [of storage0 "0x5000"] obtain i s' where
    "0 \<le> i" "\<forall>j. 0 \<le> j \<and> j < i \<longrightarrow> get_fs j storage0 \<noteq> 0" "register_fs 0x5000 storage0 = (0, s')"
    "get_fs i s' = 0x5000" by auto
  moreover have "i = 0" using calculation(1,2) by (force simp: get_fs_def)
  ultimately show ?thesis by blast
qed

theorem ramdisk_roundtrip_witness:
  "load_words (mem (ramdisk_read 3 0x9000 1 (ramdisk_write 3 0x8000 1 storage0))) 0x9000 (128 * unat (1 :: u32)) =
    load_words (mem storage0) 0x8000 (128 * unat (1 :: u32))"
  by (rule ramdisk_roundtrip) (simp_all add: apart_def)

theorem ramdisk_sectors_overlap_witness:
  "load_words (mem (ramdisk_write 4 0x9000 1 (ramdisk_write 3 0x8000 1 storage0))) 0x40000C 128 =
    load32 (mem storage0) 0x8000 # load_words (mem storage0) 0x9000 127"
  using ramdisk_sectors_overlap [where a = "0x8000" and pos = 3 and s = storage0 and b = "0x9000"] by (simp add: apart_def)

subsection \<open>Directories\<close>

theorem search_dir_finds_no_extension_witness:
  "search_dir ((\<lambda>_. 0)(0x500 := 65, 0x501 := 46, 0x502 := 66)) 0x500 0x600 4 = Some 0"
  by (rule search_dir_finds_no_extension [of _ _ "[65]" "[66]"]) (simp_all add: cstr_at_Cons)

theorem search_dir_matches_anything_witness:
  "search_dir ((\<lambda>_. 0)(0x500 := 65, 0x600 := 66)) 0x500 0x600 4 = Some 0x600"
  using search_dir_matches_anything [of "(\<lambda>_. 0)(0x500 := 65, 0x600 := 66)" "0x500" "[65]" "0x600" 4]
  by (simp add: cstr_at_Cons word_le_nat_alt)

subsection \<open>The cached table\<close>

theorem next_cluster_roundtrip_witness:
  "\<exists>s'. set_next_cluster32 no_device 5 6 1 storage0 = Some s' \<and> get_next_cluster32 no_device 5 1 s' = Some (6, s')
    \<and> get_next_cluster32 no_device 7 1 s' = Some (0, s')"
proof -
  have "cached storage0 1 5" "cached storage0 1 7" "cache_base (fs_at storage0 1) = 0"
    "cached_next storage0 1 7 = 0"
    by (simp_all add: cached_next_def cache_base_def load32_def) (simp add: fat0_def)
  with next_cluster_roundtrip [OF this(1), of no_device 6] show ?thesis by auto
qed


theorem fat_cache_never_kept_witness:
  "\<exists>v s'. get_next_cluster32 no_device 200 1 (set_fs 1 (fat_cache_update (\<lambda>_. 0)) storage0) = Some (v, s')
    \<and> fat_cache (fs_at s' 1) = 0"
proof -
  let ?s = "set_fs 1 (fat_cache_update (\<lambda>_. 0)) storage0"
  have "\<exists>v s'. get_next_cluster32 no_device 200 1 ?s = Some (v, s')"
    by (simp add: get_next_cluster32_def cache_misses_def cache_base_def cache_fat32_def set_fs_def fat0_def
        read_ramdisk printf_def sys_kmalloc_def split_def Let_def)
  then obtain v s' where g: "get_next_cluster32 no_device 200 1 ?s = Some (v, s')" by blast
  with fat_cache_never_kept [OF _ g] show ?thesis by (simp add: set_fs_def)
qed

subsection \<open>Reading and mounting\<close>



theorem fat32_register_refuses_ramdisk_witness:
  "\<exists>s'. fat32_register no_device 0x5000 0 0x8000 2048 storage0 = Some (0, s') \<and> fs_at s' = (\<lambda>_. fat0)"
  using fat32_register_refuses_ramdisk [of storage0 0 no_device "0x5000" "0x8000" 2048] by simp

text \<open>A boot record of zeros has no partitions.\<close>

lemma kmalloc_sel:
  "mem (snd (sys_kmalloc n p s)) = mem s" "drives (snd (sys_kmalloc n p s)) = drives s"
  "drive_at (snd (sys_kmalloc n p s)) = drive_at s"
  by (simp_all add: sys_kmalloc_def split_def Let_def)

lemma copy_words_zeros: "m = (\<lambda>_. 0) \<Longrightarrow> copy_words a b k m = (\<lambda>_. 0)"
proof (induction k arbitrary: a b m)
  case (Suc k)
  moreover have "store32 b (load32 (\<lambda>_. 0) a) (\<lambda>_. 0) = (\<lambda>_. 0)" by (auto simp: store32_def load32_def)
  ultimately show ?case by simp
qed simp

lemma register_parts_none:
  assumes "\<And>i. i < k \<Longrightarrow> part_type (mem s) mbr (j + of_nat i) = 0"
  shows "\<exists>s'. register_parts d dr n mbr j k s = Some s'"
  using assms
proof (induction k arbitrary: j s)
  case (Suc k)
  have "part_type (mem (printf f as s)) mbr (j + 1 + of_nat i) = 0" if "i < k" for i f as
    using Suc.prems [of "Suc i"] that by (simp add: printf_def add.assoc)
  with Suc.IH Suc.prems [of 0] show ?case by (simp add: Let_def)
qed simp

theorem register_drive_first_free_witness:
  "\<exists>s'. register_drive no_device 0x5000 storage0 = Some (0, s') \<and> get_drive 0 s' = 0x5000"
proof -
  have "\<exists>r s'. register_drive no_device 0x5000 storage0 = Some (r, s')"
  proof -
    have parts: "\<exists>r s'. Option.bind (register_parts no_device 0x5000 0 0 0 4 (ramdisk_read 0 a 1 s)) (\<lambda>s6. Some (0 :: u32, s6)) =
        Some (r, s')"
      if "mem s = (\<lambda>_. 0)" for s :: storage and a
    proof -
      have "\<exists>s'. register_parts no_device 0x5000 0 0 0 4 (ramdisk_read 0 a 1 s) = Some s'"
        using that by (intro register_parts_none) (simp add: part_type_def ramdisk_read_def copy_words_zeros)
      then show ?thesis by auto
    qed
    have "first_slot (\<lambda>_. 0) 0 26 = Some 0" by (simp add: first_slot_Some)
    then show ?thesis
      by (simp add: register_drive_def Let_def split_def read_ramdisk kmalloc_sel printf_def set_drive_def)
        (rule parts, simp add: kmalloc_sel)
  qed
  then obtain r s' where g: "register_drive no_device 0x5000 storage0 = Some (r, s')" by blast
  have "\<not> (\<forall>i. 0 \<le> i \<and> i < 26 \<longrightarrow> get_drive i storage0 \<noteq> 0)" by (auto simp: get_drive_def intro: exI [of _ 0])
  with register_drive_first_free [OF g] obtain i where "r = 0" "0 \<le> i"
    "\<forall>j. 0 \<le> j \<and> j < i \<longrightarrow> get_drive j storage0 \<noteq> 0" "drives s' = (drives storage0)(i := 0x5000)" by auto
  moreover have "i = 0" using calculation(2,3) by (force simp: get_drive_def)
  ultimately show ?thesis using g by (simp add: get_drive_def)
qed

text \<open>All slots taken, and at 0x8000 the boot sector of a volume of 512-byte sectors, one to a
  cluster.\<close>

definition full_storage :: storage where
  "full_storage = storage0\<lparr>filesystems := \<lambda>_. 0x7000, mem := (\<lambda>_. 0)(0x800C := 2, 0x800D := 1, 0x8020 := 100)\<rparr>"

theorem detect_fs_replaces_slot_0_witness:
  "\<exists>fs s'. detect_fs no_device 0x8000 0 2048 0x6000 1 full_storage = Some s' \<and> get_fs 0 s' = fs \<and> get_fs 1 s' = 0x7000"
proof -
  obtain fs s1 where "sys_kmalloc 1 6 full_storage = (fs, s1)" by fastforce
  from detect_fs_replaces_slot_0 [OF _ _ _ _ _ this, of "0x8000" no_device 0 2048 "0x6000" 1]
  show ?thesis
    by (auto simp: full_storage_def get_fs_def load16_def load32_def bpb_bytes_per_sector_def
        bpb_sectors_per_cluster_def fat_clusters_def Let_def bpb_sectors_per_fat_def ebpb_sectors_per_fat_def
        bpb_root_dir_entries_def bpb_sectors_in_vol_def bpb_large_sector_count_def bpb_reserved_def
        bpb_fat_c_def)
qed

subsection \<open>Opening a file\<close>

text \<open>A volume in slot 0 with an empty root directory, whose clusters are two bytes, the path
  \<open>A:F\<close> at 0x500 and the string \<open>/\<close> at 0x600.\<close>

definition volume :: fs_fat where
  "volume = fat0\<lparr>sector_size_bytes := 2, sectors_per_cluster := 1,
     root_file := no_file\<lparr>current_cluster := 0x0FFFFFFF\<rparr>\<rparr>"

definition volume_storage :: storage where
  "volume_storage = storage0\<lparr>filesystems := \<lambda>_. 0x7000, fs_at := \<lambda>_. volume,
     mem := (\<lambda>_. 0)(0x500 := 65, 0x501 := 58, 0x502 := 70, 0x600 := 47)\<rparr>"

abbreviation copied_mem :: mem where
  "copied_mem \<equiv> (\<lambda>_. 0)(0x500 := 65, 0x501 := 58, 0x502 := 70, 0x600 := 47, 0x100000 := 70)"

lemma no_slash: "is_delim copied_mem 70 0x600 = Some False"
  by (subst is_delim.simps) (simp, subst is_delim.simps, simp)

lemma tok_copied: "kstrtok 0x100000 0x600 0 copied_mem = Some (0x100000, 0x100001, copied_mem)"
proof -
  have "kstrtok_skip copied_mem 0x600 0x100000 = Some (Some 0x100000)"
    using no_slash by (subst kstrtok_skip.simps) simp
  moreover have "kstrtok_scan 0x600 0x100000 copied_mem = Some (0x100001, copied_mem)"
    using no_slash by (subst kstrtok_scan.simps) (simp, subst kstrtok_scan.simps, simp)
  ultimately show ?thesis by (simp add: kstrtok_def Let_def)
qed

lemma walk_empty:
  fixes s :: storage
  assumes "fs_at s 0x7000 = volume" "mem s dirents = 0" "cstr_at (mem s) token [70]" "token \<noteq> 0" "dirents \<noteq> 0"
  shows "\<exists>s'. walk_path d slash dirents 0x7000 token e s = Some (None, s')"
proof -
  have rd: "fat32_read d (Some (root_file volume)) (- 1) dirents 0x7000 t =
      Some (0, Some ((root_file volume)\<lparr>position_in_cluster := 1, f_position := - 1\<rparr>), t)"
    if "fs_at t = fs_at s" for t :: storage
    using assms(1,5) that
    by (simp add: fat32_read_def Let_def volume_def no_file_def fat0_def, subst read_clusters.simps, simp)
  have none: "count_dirents (mem s) dirents 0 = Some 0"
    using assms(2) by (subst count_dirents.simps) simp
  have "search_dir (mem s) token dirents 0 = Some 0"
    using find_dot_cstr [OF assms(3)] by (simp add: search_dir_def)
  with none rd assms(1,4) show ?thesis
    by (subst walk_path.simps) (simp add: Let_def printf_def set_fs_def)
qed


end
