(* ===== verification/Screen.thy ===== *)
theory Screen
  imports Interrupts
begin

text \<open>
  The text screen: \<open>kernel/graphics/vga.c\<close> and the output functions of \<open>kernel/eshell/eshell.c\<close>,
  which keep a cursor and scroll. Columns count from 1, rows from 0. A string given to \<open>disp_str\<close>
  is the list of its characters: a literal or a local array, except in \<open>kmain\<close> (\<open>disp_at\<close> in \<open>Boot\<close>).
\<close>

section \<open>The code\<close>

record screen = intr +
  vga_buffer :: ptr
  base_color :: u8
  cur_x :: int
  cur_y :: int
  min_x :: int
  min_y :: int
  lock_last_line :: u8

subsection \<open>vga.c\<close>

text \<open>A character and its colour. The \<open>char\<close> is extended with its sign before the colour is joined.\<close>

definition cell :: "u8 \<Rightarrow> u8 \<Rightarrow> u16" where
  "cell color c = ucast (char_int c OR push_bit 8 (ucast color))"

fun put_chars :: "ptr \<Rightarrow> u8 \<Rightarrow> int \<Rightarrow> u8 list \<Rightarrow> mem \<Rightarrow> mem" where
  "put_chars fb color start [] m = m"
| "put_chars fb color start (c # cs) m =
     put_chars fb color (start + 1) cs (store16 (fb + 2 * word_of_int start) (cell color c) m)"

definition textmode_print_load :: "'a screen_scheme \<Rightarrow> 'a screen_scheme" where
  "textmode_print_load s = s\<lparr>mem := put_chars (vga_buffer s) (base_color s)
     (80 * 11 + 80 div 2 - 13 div 2 - 1) (ascii ''Loading lOSt'') (mem s)\<rparr>"

definition get_framebuffer :: "'a screen_scheme \<Rightarrow> ptr" where
  "get_framebuffer s = vga_buffer s"

definition set_framebuffer :: "ptr \<Rightarrow> 'a screen_scheme \<Rightarrow> 'a screen_scheme" where
  "set_framebuffer buf s = s\<lparr>vga_buffer := buf\<rparr>"

definition disp_str :: "int \<Rightarrow> int \<Rightarrow> u8 list \<Rightarrow> 'a screen_scheme \<Rightarrow> 'a screen_scheme" where
  "disp_str x y str s = s\<lparr>mem := put_chars (vga_buffer s) (base_color s)
     (x + y * 80 - int (length str) div 2 - 1) str (mem s)\<rparr>"

definition set_color :: "u8 \<Rightarrow> 'a screen_scheme \<Rightarrow> 'a screen_scheme" where
  "set_color color s = s\<lparr>base_color := color\<rparr>"

definition get_color :: u32 where "get_color = 0"

subsection \<open>The cursor\<close>

text \<open>The characters of the array \<open>{c, 0}\<close>.\<close>

definition one_char :: "u8 \<Rightarrow> u8 list" where
  "one_char c = (if c = 0 then [] else [c])"

definition tmp_putc :: "u8 \<Rightarrow> 'a screen_scheme \<Rightarrow> 'a screen_scheme" where
  "tmp_putc c s = disp_str (cur_x s) (cur_y s) (one_char c) s"

text \<open>The first part of \<open>write_screen_char\<close>, what the character does.\<close>

definition put_char :: "u8 \<Rightarrow> 'a screen_scheme \<Rightarrow> 'a screen_scheme" where
  "put_char c s =
     (if c = 10 then (disp_str (cur_x s) (cur_y s) [32] s)\<lparr>cur_x := 1, cur_y := cur_y s + 1\<rparr>
      else if c = 13 then s\<lparr>cur_x := 1\<rparr>
      else if c = 8 then
        let x = (if cur_x s - 1 \<le> min_x s then min_x s else cur_x s - 1);
            y = (if cur_y s \<le> min_y s then min_y s else cur_y s)
        in if x < 1 then
             if lock_last_line s = 0 then s\<lparr>cur_x := 1, cur_y := y\<rparr>
             else s\<lparr>cur_x := 80, cur_y := y - 1\<rparr>
           else s\<lparr>cur_x := x, cur_y := y\<rparr>
      else (disp_str (cur_x s) (cur_y s) (one_char c) s)\<lparr>cur_x := cur_x s + 1\<rparr>)"

definition write_screen_char :: "u8 \<Rightarrow> 'a screen_scheme \<Rightarrow> 'a screen_scheme" where
  "write_screen_char c s =
     (let s1 = put_char c s;
          s2 = (if cur_x s1 > 80 then s1\<lparr>cur_x := 1, cur_y := cur_y s1 + 1\<rparr> else s1)
      in if cur_y s2 \<ge> 24
         then s2\<lparr>mem := kmemcpy (vga_buffer s2 + 160) (vga_buffer s2) (80 * 25 * 2) (mem s2),
                 cur_y := 23, cur_x := 1\<rparr>
         else s2)"

partial_function (option) write_screen :: "ptr \<Rightarrow> 'a screen_scheme \<Rightarrow> 'a screen_scheme option" where
  "write_screen str s =
     (if mem s str \<noteq> 0 then write_screen (str + 1) (write_screen_char (mem s str) s) else Some s)"

section \<open>Properties\<close>

subsection \<open>Where the screen writes\<close>

lemma next_cell: "(fb :: ptr) + 2 * word_of_int (start + 1) = fb + 2 * word_of_int start + of_nat 2"
  by (simp add: algebra_simps)

lemma put_chars_frame:
  "2 * length cs \<le> 2 ^ 32 \<Longrightarrow> \<not> in_region (fb + 2 * word_of_int start) (2 * length cs) x \<Longrightarrow>
   put_chars fb color start cs m x = m x"
proof (induction cs arbitrary: start m)
  case (Cons c cs)
  have "\<not> in_region (fb + 2 * word_of_int start) 2 x"
    using Cons.prems in_region_mono [of "fb + 2 * word_of_int start" 2 x "2 * length (c # cs)"] by auto
  moreover have "\<not> in_region (fb + 2 * word_of_int (start + 1)) (2 * length cs) x"
    using Cons.prems in_subregion [of "fb + 2 * word_of_int start" 2 "2 * length cs" x "2 * length (c # cs)"]
    unfolding next_cell by auto
  ultimately show ?case using Cons.IH [of "start + 1"] Cons.prems(1) by (simp add: store16_outside)
qed simp

text \<open>Cells \<open>start\<close> to \<open>start + length cs - 1\<close> of the frame buffer.\<close>

lemma put_chars_outside:
  assumes "0 \<le> start" and "start + int (length cs) \<le> 2000" and "\<not> in_region fb 4000 x"
  shows "put_chars fb color start cs m x = m x"
proof (rule put_chars_frame)
  have "fb + of_nat (2 * nat start) = fb + 2 * word_of_int start" using assms(1) by simp
  moreover have "int (nat start) = start" using assms(1) by simp
  then have "2 * nat start + 2 * length cs \<le> 4000" using assms(2) by linarith
  ultimately show "\<not> in_region (fb + 2 * word_of_int start) (2 * length cs) x"
    using assms(3) in_subregion [of fb "2 * nat start" "2 * length cs" x 4000] by auto
qed (use assms in simp)

definition screen_inv :: "'a screen_scheme \<Rightarrow> bool" where
  "screen_inv s \<longleftrightarrow> 1 \<le> cur_x s \<and> cur_x s \<le> 80 \<and> 0 \<le> cur_y s \<and> cur_y s \<le> 23
     \<and> 1 \<le> min_x s \<and> min_x s \<le> 80 \<and> 0 \<le> min_y s \<and> min_y s \<le> 23"

lemma disp_str_one:
  assumes "screen_inv s" and "length cs \<le> 1" and "\<not> in_region (vga_buffer s) 4000 x"
  shows "mem (disp_str (cur_x s) (cur_y s) cs s) x = mem s x"
proof -
  have "int (length cs) div 2 = 0" using assms(2) by simp
  then show ?thesis
    using assms by (simp add: disp_str_def screen_inv_def) (rule put_chars_outside, auto)
qed

lemma disp_str_frame [simp]:
  "cur_x (disp_str x y cs s) = cur_x s" "cur_y (disp_str x y cs s) = cur_y s"
  "min_x (disp_str x y cs s) = min_x s" "min_y (disp_str x y cs s) = min_y s"
  "vga_buffer (disp_str x y cs s) = vga_buffer s" "base_color (disp_str x y cs s) = base_color s"
  by (simp_all add: disp_str_def)

lemma put_char_inv:
  assumes "screen_inv s"
  shows "1 \<le> cur_x (put_char c s) \<and> cur_x (put_char c s) \<le> 81 \<and> 0 \<le> cur_y (put_char c s) \<and> cur_y (put_char c s) \<le> 24"
    and "min_x (put_char c s) = min_x s" "min_y (put_char c s) = min_y s" "vga_buffer (put_char c s) = vga_buffer s"
    and "\<not> in_region (vga_buffer s) 4000 x \<Longrightarrow> mem (put_char c s) x = mem s x"
proof -
  show "1 \<le> cur_x (put_char c s) \<and> cur_x (put_char c s) \<le> 81 \<and> 0 \<le> cur_y (put_char c s) \<and> cur_y (put_char c s) \<le> 24"
    using assms by (auto simp: put_char_def screen_inv_def Let_def)
  show "min_x (put_char c s) = min_x s" "min_y (put_char c s) = min_y s" "vga_buffer (put_char c s) = vga_buffer s"
    by (simp_all add: put_char_def Let_def)
  assume x: "\<not> in_region (vga_buffer s) 4000 x"
  have "length (one_char c) \<le> 1" by (simp add: one_char_def)
  then show "mem (put_char c s) x = mem s x"
    using disp_str_one [OF assms _ x, of "[32]"] disp_str_one [OF assms _ x, of "one_char c"]
    by (simp add: put_char_def Let_def)
qed

lemma copies_up_scroll: "copies_up (fb + 160) fb (nat (sint (4000 :: u32)))"
  by (simp add: copies_up_def)

lemma write_screen_char_keeps:
  assumes "screen_inv s"
  shows "screen_inv (write_screen_char c s)"
    and "\<forall>x. \<not> in_region (vga_buffer s) 4000 x \<longrightarrow> mem (write_screen_char c s) x = mem s x"
proof -
  show "screen_inv (write_screen_char c s)"
    using assms put_char_inv(1-3) [OF assms, where c = c] by (auto simp: write_screen_char_def screen_inv_def Let_def)
  show "\<forall>x. \<not> in_region (vga_buffer s) 4000 x \<longrightarrow> mem (write_screen_char c s) x = mem s x"
  proof (intro allI impI)
    fix x assume x: "\<not> in_region (vga_buffer s) 4000 x"
    have "kmemcpy (vga_buffer s + 160) (vga_buffer s) 4000 m x = m x" for m :: mem
      by (rule kmemcpy_frame [OF copies_up_scroll]) (use x in simp)
    then show "mem (write_screen_char c s) x = mem s x"
      using put_char_inv(4) [OF assms, where c = c] put_char_inv(5) [OF assms x, where c = c]
      by (simp add: write_screen_char_def Let_def)
  qed
qed

text \<open>Whatever characters are written, the cursor stays on the screen, in columns 1 to 80 and
  rows 0 to 23, and nothing outside the 4000 bytes of the frame buffer is written.\<close>

theorem write_screen_char_safe:
  assumes "screen_inv s"
  shows "screen_inv (write_screen_char c s)
    \<and> (\<forall>x. \<not> in_region (vga_buffer s) 4000 x \<longrightarrow> mem (write_screen_char c s) x = mem s x)"
  using write_screen_char_keeps [OF assms] by blast

subsection \<open>Text\<close>

lemma cell_load:
  assumes "0 \<le> start" and "start + int (length cs) \<le> 2000" and "k < length cs"
  shows "load16 (put_chars fb color start cs m) (fb + 2 * word_of_int (start + int k)) = cell color (cs ! k)"
  using assms
proof (induction cs arbitrary: start k m)
  case (Cons c cs)
  show ?case
  proof (cases k)
    case (Suc j)
    then show ?thesis using Cons.IH [of "start + 1" j] Cons.prems by (simp add: algebra_simps)
  next
    case 0
    let ?m = "store16 (fb + 2 * word_of_int start) (cell color c) m"
    have later: "put_chars fb color (start + 1) cs ?m x = ?m x" if "in_region (fb + 2 * word_of_int start) 2 x" for x
    proof (rule put_chars_frame)
      have "apart (fb + 2 * word_of_int start) 2 (fb + 2 * word_of_int start + of_nat 2) (2 * length cs)"
        by (rule apart_adjacent) (use Cons.prems in simp)
      then show "\<not> in_region (fb + 2 * word_of_int (start + 1)) (2 * length cs) x"
        using that unfolding next_cell by (simp add: apart_iff)
    qed (use Cons.prems in simp)
    have "load16 (put_chars fb color (start + 1) cs ?m) (fb + 2 * word_of_int start) =
        load16 ?m (fb + 2 * word_of_int start)"
      by (rule load16_cong) (rule later)
    then show ?thesis using 0 by simp
  qed
qed simp

lemma write_screen_char_printable:
  assumes "screen_inv s" and "32 \<le> c" and "cur_x s < 80"
  shows "write_screen_char c s = s\<lparr>mem := put_chars (vga_buffer s) (base_color s)
    (cur_x s + cur_y s * 80 - 1) [c] (mem s), cur_x := cur_x s + 1\<rparr>"
proof -
  have "c \<noteq> 10" "c \<noteq> 13" "c \<noteq> 8" "c \<noteq> 0" using assms(2) by auto
  then show ?thesis
    using assms(1,3) by (simp add: write_screen_char_def put_char_def disp_str_def one_char_def screen_inv_def)
qed

lemma write_screen_printable:
  assumes "cstr_at (mem s) a cs" and "\<forall>c \<in> set cs. 32 \<le> c" and "screen_inv s"
    and "cur_x s + int (length cs) \<le> 80" and "apart a (Suc (length cs)) (vga_buffer s) 4000"
  shows "write_screen a s = Some (s\<lparr>mem := put_chars (vga_buffer s) (base_color s)
    (cur_x s + cur_y s * 80 - 1) cs (mem s), cur_x := cur_x s + int (length cs)\<rparr>)"
  using assms
proof (induction cs arbitrary: a s)
  case Nil
  then show ?case by (subst write_screen.simps) simp
next
  case (Cons c cs)
  let ?m = "put_chars (vga_buffer s) (base_color s) (cur_x s + cur_y s * 80 - 1) [c] (mem s)"
  let ?s1 = "s\<lparr>mem := ?m, cur_x := cur_x s + 1\<rparr>"
  have c: "mem s a = c" "c \<noteq> 0" "cstr_at (mem s) (a + 1) cs" "length (c # cs) < 2 ^ 32"
    using Cons.prems(1) cstr_at_short [OF Cons.prems(1)] by (simp_all add: cstr_at_Cons)
  have ap: "apart (a + of_nat 1) (Suc (length cs)) (vga_buffer s) 4000"
    by (rule apart_sub_left [OF Cons.prems(5)]) (use c(4) in simp_all)
  have "?m x = mem s x" if "in_region (a + of_nat 1) (Suc (length cs)) x" for x
    by (rule put_chars_outside) (use that Cons.prems(3,4) apartD [OF ap] in \<open>auto simp: screen_inv_def\<close>)
  then have "cstr_at ?m (a + 1) cs"
    using c(3,4) by (subst cstr_at_cong [where m = "mem s"]) auto
  then have "write_screen (a + 1) ?s1 = Some (?s1\<lparr>mem := put_chars (vga_buffer s) (base_color s)
      (cur_x s + 1 + cur_y s * 80 - 1) cs ?m, cur_x := cur_x s + 1 + int (length cs)\<rparr>)"
    using Cons.IH [of ?s1 "a + 1"] Cons.prems(2-4) ap by (simp add: screen_inv_def)
  moreover have "write_screen_char c s = ?s1"
    by (rule write_screen_char_printable) (use Cons.prems(2-4) in auto)
  ultimately show ?case
    using c by (subst write_screen.simps) (simp add: algebra_simps)
qed


subsection \<open>Scrolling\<close>

text \<open>A line feed in the last row moves every row up by one; the row that becomes free is
  filled with the 160 bytes that follow the frame buffer.\<close>

theorem line_feed_scrolls:
  assumes "screen_inv s" and "cur_y s = 23" and "i < 4000"
  shows "mem (write_screen_char 10 s) (vga_buffer s + of_nat i) =
      mem (disp_str (cur_x s) 23 [32] s) (vga_buffer s + 160 + of_nat i)
    \<and> cur_x (write_screen_char 10 s) = 1 \<and> cur_y (write_screen_char 10 s) = 23"
proof -
  have "in_region (vga_buffer s) 4000 (vga_buffer s + of_nat i)" using assms(3) by (simp add: in_region_def)
  then show ?thesis
    using assms(2) by (simp add: write_screen_char_def put_char_def kmemcpy_eq [OF copies_up_scroll])
qed

end
