(* ===== verification/Eshell.thy ===== *)
theory Eshell
  imports Screen
begin

text \<open>
  \<open>kernel/eshell/eshell.c\<close>: the emergency shell. \<open>lit\<close> gives the address of each string literal,
  \<open>loc\<close> that of the local array \<open>{c, 0}\<close>. The settings structure is a part of the state; a user's
  name is at the address \<open>usernames\<close> gives. Console output is an event, as everywhere.
\<close>

section \<open>The code\<close>

record shell = screen +
  current_command :: ptr
  last_command :: ptr
  current_directory :: ptr
  sh_exit :: u8
  sh_driver_key :: u32
  users_valid :: "u8 \<Rightarrow> bool"
  usernames :: "u8 \<Rightarrow> ptr"
  current_user :: u8
  proc_running :: u8
  sh_proc :: ptr
  active_proc :: u8

definition sdisk :: "'a shell_scheme \<Rightarrow> 'a shell_scheme option" where
  "sdisk s = exit_v (printf (line ''Hello!'') [] s)"

subsection \<open>Commands\<close>

text \<open>The loop of the command \<open>disks\<close>: \<open>k\<close> drives are left.\<close>

fun show_disks :: "int \<Rightarrow> nat \<Rightarrow> 'a shell_scheme \<Rightarrow> 'a shell_scheme" where
  "show_disks i 0 s = s"
| "show_disks i (Suc k) s =
     (let drive = get_drive i s; dr = drive_at s drive
      in if drive = 0 then show_disks (i + 1) k s
         else show_disks (i + 1) k
           (printf (line ''%s%c:'' @ CHR 0x09 # line ''Type: %s'' @ CHR 0x09 # line ''Size: %dMB''
               @ CHR 0x09 # line ''Bytes Per Sector: %d'')
             [PEntry ''disk_types_ids'' (ucast (d_type dr)), PInt (97 + word_of_int i),
              PEntry ''drive_type_strs'' (ucast (d_type dr)),
              PInt (d_size_low dr * bytes_per_sector dr div 1024 div 1024), PInt (bytes_per_sector dr)] s))"

definition show_memory :: "'a shell_scheme \<Rightarrow> 'a shell_scheme" where
  "show_memory s =
     (let used_pages = get_used_pages (mmgr s); used_mem = used_pages * 4096;
          free_pages = get_free_pages (mmgr s); free_mem = free_pages * 4096
      in printf (line ''(%dMb/%dMb)'')
           [PInt (used_mem div 1024 div 1024), PInt ((used_mem + free_mem) div 1024 div 1024)]
         (printf (line ''Used Pages: %d, Free Pages: %d'' @ line ''Used Memory (Bytes): %d, Free Memory (Bytes): %d''
             @ line ''Total Memory (Pages) %d, Total Memory (Bytes): %d'')
           [PInt used_pages, PInt free_pages, PInt used_mem, PInt free_mem, PInt (free_pages + used_pages),
            PInt (used_mem + free_mem)] s))"

text \<open>The loop of \<open>cd ../\<close>: the place of the last slash from \<open>i\<close> on.\<close>

partial_function (option) last_slash :: "mem \<Rightarrow> ptr \<Rightarrow> u32 \<Rightarrow> u32 \<Rightarrow> u32 option" where
  "last_slash m dir i lst =
     (if m (dir + i) \<noteq> 0 then last_slash m dir (i + 1) (if m (dir + i) = 47 then i else lst)
      else Some lst)"

definition cd_up :: "'a shell_scheme \<Rightarrow> 'a shell_scheme option" where
  "cd_up s = do {
     n \<leftarrow> kstrlen (mem s) (current_directory s);
     if sint n < 3 then Some s
     else do {
       lst \<leftarrow> last_slash (mem s) (current_directory s) 1 0;
       Some (s\<lparr>mem := (mem s)(current_directory s + lst := 0)\<rparr>) } }"

definition show_fs :: "'a shell_scheme \<Rightarrow> 'a shell_scheme" where
  "show_fs s =
     (let dir = sint (mem s (current_directory s)) - 65; f = fs_at s (get_fs dir s)
      in printf (line ''Drive: %d, MountedID: %d, Read Only: %d''
             @ line ''Partition: %d, Size (Sectors): %d, Sector Size: %d'' @ line ''Type: %d'')
           [PInt (ucast (fs_drive f)), PInt (ucast (mountID f)), PInt (ucast (fs_flags f AND 1)),
            PInt (ucast (partition f)), PInt (fs_size_low f), PInt (sector_size_bytes f),
            PInt (ucast (fs_type f))]
         (printf ''%d'' [PInt (word_of_int dir)] s))"

definition help_text :: string where
  "help_text = line ''osinfo: Display information about the OS'' @ line ''user: Display username''
     @ line ''meminfo: Show information about memory usage'' @ line ''disks: Show information about mounted disks''
     @ line ''clear: Clear the screen'' @ line ''exit: Exit the shell enviornment''"

text \<open>The first of the known commands the command line is equal to, tried in the order of the code.\<close>

fun which_command :: "(string \<Rightarrow> ptr) \<Rightarrow> mem \<Rightarrow> ptr \<Rightarrow> string list \<Rightarrow> string option option" where
  "which_command lit m command [] = Some None"
| "which_command lit m command (t # ts) = do {
     r \<leftarrow> kstrcmp m command (lit t);
     if r = 0 then Some (Some t) else which_command lit m command ts }"

definition commands :: "string list" where
  "commands = [''exit'', ''clear'', ''disks'', ''meminfo'', ''cd ../'', ''user'', ''osinfo'', ''help'', ''fsinfo'']"

text \<open>What each command does. \<open>count0\<close> is the uninitialised counter of \<open>get_drive_count\<close>.\<close>

definition run_command ::
    "(string \<Rightarrow> ptr) \<Rightarrow> u8 \<Rightarrow> string \<Rightarrow> 'a shell_scheme \<Rightarrow> 'a shell_scheme option" where
  "run_command lit count0 t s =
     (if t = ''exit'' then
        map_option (\<lambda>s. s\<lparr>sh_exit := 1\<rparr>) (write_screen (lit (line ''exiting...'')) s)
      else if t = ''clear'' then
        Some (s\<lparr>mem := kmemset (get_framebuffer s) (80 * 24 * 2) 0 (mem s), cur_x := 1, cur_y := 0\<rparr>)
      else if t = ''disks'' then
        map_option (show_disks 0 26) (write_screen (lit (line ''Showing mounted Disks'')) s)
      else if t = ''meminfo'' then Some (show_memory s)
      else if t = ''cd ../'' then cd_up s
      else if t = ''user'' then
        (if \<not> users_valid s (current_user s) then write_screen (lit (line ''lOSt'')) s
         else write_screen (usernames s (current_user s)) s)
      else if t = ''osinfo'' then
        (let s1 = printf (line ''Kernel: %s'' @ line ''Shell: %s'')
               [PStr ''lOSt 0.1.0'', PStr ''lOSt EShell 0.1.0''] s
         in Some (printf (line ''Mounted Drives: %d, Mounted Filesystems: %d'')
               [PInt (ucast (get_drive_count count0 s1)), PInt (get_fs_count s1)] s1))
      else if t = ''help'' then write_screen (lit help_text) s
      else Some (show_fs s))"

definition exec_command ::
    "(string \<Rightarrow> ptr) \<Rightarrow> u8 \<Rightarrow> ptr \<Rightarrow> 'a shell_scheme \<Rightarrow> 'a shell_scheme option" where
  "exec_command lit count0 command s =
     (if mem s command = 0 then Some s
      else do {
        c \<leftarrow> which_command lit (mem s) command commands;
        case c of None \<Rightarrow> Some s | Some t \<Rightarrow> run_command lit count0 t s })"

subsection \<open>Input\<close>

text \<open>The directory and the prompt.\<close>

definition prompt :: "(string \<Rightarrow> ptr) \<Rightarrow> 'a shell_scheme \<Rightarrow> 'a shell_scheme option" where
  "prompt lit s = do {
     s1 \<leftarrow> write_screen (current_directory s) s;
     s2 \<leftarrow> write_screen (lit ''/>'') s1;
     Some (s2\<lparr>min_x := cur_x s2, min_y := cur_y s2\<rparr>) }"

text \<open>What \<open>getch\<close> does after a command: the prompt, and a new page for the line.\<close>

definition next_line :: "(string \<Rightarrow> ptr) \<Rightarrow> 'a shell_scheme \<Rightarrow> 'a shell_scheme option" where
  "next_line lit s = do {
     s1 \<leftarrow> (if active_proc s = 0 \<and> sh_exit s = 0 then prompt lit s else Some s);
     s2 \<leftarrow> (if last_command s1 \<noteq> 0 then sys_kfree (last_command s1) s1 else Some s1);
     let (page, s3) = sys_kmalloc 1 6 (s2\<lparr>last_command := current_command s2\<rparr>);
     Some (s3\<lparr>current_command := page, mem := kmemset page 4096 0 (mem s3)\<rparr>) }"

definition getch ::
    "(string \<Rightarrow> ptr) \<Rightarrow> ptr \<Rightarrow> u8 \<Rightarrow> u8 \<Rightarrow> 'a shell_scheme \<Rightarrow> 'a shell_scheme option" where
  "getch lit loc count0 c s =
     (if proc_running s \<noteq> 0 then
        (let inp = stdin (procs s (process (plist s (sh_proc s))))
         in if inp = 0 then Some s
            else map_option (\<lambda>m. s\<lparr>mem := m\<rparr>) (kstrcat inp inp loc ((mem s)(loc := c, loc + 1 := 0))))
      else if current_command s \<noteq> 0 then
        let s1 = printf ''%c'' [PInt (char_int c)] s
        in if c = 10 then do {
             s2 \<leftarrow> exec_command lit count0 (current_command s1) s1;
             next_line lit s2 }
           else if sint c < 32 then
             if c = 8 then do {
               n \<leftarrow> kstrlen (mem s1) (current_command s1);
               Some (s1\<lparr>mem := (mem s1)(current_command s1 + n - 1 := 0)\<rparr>) }
             else Some s1
           else map_option (\<lambda>m. s1\<lparr>mem := m\<rparr>) (kstrcat (current_command s1) (current_command s1) loc
                  ((mem s1)(loc := c, loc + 1 := 0)))
      else Some s)"

subsection \<open>The shell process\<close>

text \<open>\<open>eshell\<close> in three parts: up to the loop, one round of the loop (which ends when an interrupt has
  run \<open>exit\<close>), and what follows the loop. \<open>writer\<close> and \<open>typist\<close> are the addresses of
  \<open>write_screen_char\<close> and \<open>getch\<close>.\<close>

definition eshell_start ::
    "(string \<Rightarrow> ptr) \<Rightarrow> ptr \<Rightarrow> ptr \<Rightarrow> 'a shell_scheme \<Rightarrow> 'a shell_scheme option" where
  "eshell_start lit writer typist s = do {
     s1 \<leftarrow> write_screen (lit (line (''Warning: Execution of some programs may be limited, especially those''
             @ '' which require command-line arguments''))) s;
     s2 \<leftarrow> write_screen (lit ''[      ] Initializing Shell'') s1;
     let (dir, s3) = sys_kmalloc 1 6 (toggle_auto_return (outb 0x3d5 0x20 (outb 0x3d4 0xa s2)));
     let s4 = s3\<lparr>current_directory := dir, mem := kmemcpy (lit ''A:'') dir 4 (mem s3)\<rparr>;
     let (cmd, s5) = sys_kmalloc 1 6 s4;
     let s6 = s5\<lparr>current_command := cmd, mem := kmemset cmd 4096 0 (mem s5)\<rparr>;
     (key, s7) \<leftarrow> register_serial_listener writer 0 (get_pid s6) s6;
     let (r, s8) = register_kb_listener typist (s7\<lparr>sh_driver_key := key\<rparr>);
     s9 \<leftarrow> write_screen (lit (CHR 0x0D # line ''[ DONE ]'')) s8;
     s10 \<leftarrow> write_screen (lit (''Use the command '' @ CHR 0x27 # ''help'' @ CHR 0x27 # line '' to see builtin commands!'')) s9;
     prompt lit s10 }"

partial_function (option) wait_second :: "device \<Rightarrow> 'a shell_scheme \<Rightarrow> 'a shell_scheme option" where
  "wait_second d s = (let (r, s') = poll_wait_secs d 0 s in if r \<noteq> 0 then Some s' else wait_second d s')"

definition eshell_round :: "device \<Rightarrow> 'a shell_scheme \<Rightarrow> 'a shell_scheme option" where
  "eshell_round d s = do {
     s1 \<leftarrow> wait_second d (snd (poll_wait_secs d 1 (tmp_putc 32 s)));
     wait_second d (snd (poll_wait_secs d 1 (tmp_putc 95 s1))) }"

definition eshell_end :: "int \<Rightarrow> 'a shell_scheme \<Rightarrow> 'a shell_scheme option" where
  "eshell_end index0 s =
     exit_v (deregister_serial_listener index0 0 (sh_driver_key s) (toggle_auto_return s))"

section \<open>Properties\<close>

subsection \<open>The command line\<close>

text \<open>What typing a character makes of the line: backspace takes the last one away, other control
  characters and characters beyond ASCII do nothing.\<close>

definition edit :: "u8 list \<Rightarrow> u8 \<Rightarrow> u8 list" where
  "edit cs c = (if c = 8 then butlast cs else if sint c < 32 then cs else cs @ [c])"

text \<open>The page of the command line holds \<open>cs\<close> and then only zeros.\<close>

definition line_is :: "'a shell_scheme \<Rightarrow> u8 list \<Rightarrow> bool" where
  "line_is s cs \<longleftrightarrow> holds (mem s) (current_command s) 4096 cs"

lemma line_is_cong:
  assumes "line_is s cs" and "current_command s' = current_command s"
    and "\<And>x. in_region (current_command s) 4096 x \<Longrightarrow> mem s' x = mem s x"
  shows "line_is s' cs"
  using assms holds_cong [of "mem s" "current_command s" 4096 cs "mem s'"] by (simp add: line_is_def)

text \<open>What typing may write: the page, the byte before it (a backspace on an empty line) and the
  local array.\<close>

definition typing_writes :: "ptr \<Rightarrow> ptr \<Rightarrow> ptr \<Rightarrow> bool" where
  "typing_writes cmd loc x \<longleftrightarrow> x = cmd - 1 \<or> in_region cmd 4096 x \<or> in_region loc 2 x"

lemma typing_writes_last:
  assumes "n < 4096"
  shows "typing_writes cmd loc (cmd + of_nat n - 1)"
proof (cases n)
  case (Suc k)
  then have "cmd + of_nat n - 1 = cmd + of_nat k" by simp
  moreover have "in_region cmd 4096 (cmd + of_nat k)" by (rule in_region_offsetI) (use Suc assms in simp_all)
  ultimately show ?thesis by (metis typing_writes_def)
qed (simp add: typing_writes_def)

lemma getch_edits:
  assumes line: "line_is s cs" "Suc (length cs) < 4096"
    and s: "proc_running s = 0" "current_command s \<noteq> 0"
    and loc: "apart (current_command s) 4096 loc 2" and c: "c \<noteq> 10"
  shows "\<exists>m tr. getch lit loc count0 c s = Some (s\<lparr>mem := m, trace := tr\<rparr>)
    \<and> line_is (s\<lparr>mem := m, trace := tr\<rparr>) (edit cs c)
    \<and> (\<forall>x. \<not> typing_writes (current_command s) loc x \<longrightarrow> m x = mem s x)"
proof -
  let ?cmd = "current_command s" and ?n = "length cs"
  let ?s1 = "printf ''%c'' [PInt (char_int c)] s"
  have s1: "mem ?s1 = mem s" "current_command ?s1 = ?cmd" "?s1\<lparr>mem := m\<rparr> = s\<lparr>mem := m, trace := trace ?s1\<rparr>" for m
    by (simp_all add: printf_def)
  have h: "holds (mem s) ?cmd 4096 cs" using line(1) by (simp add: line_is_def)
  consider "c = 8" | "c \<noteq> 8" "sint c < 32" | "\<not> sint c < 32" by linarith
  then show ?thesis
  proof cases
    case 1
    let ?m = "(mem s)(?cmd + of_nat ?n - 1 := 0)"
    have "getch lit loc count0 c s = Some (s\<lparr>mem := ?m, trace := trace ?s1\<rparr>)"
      using s holds_cstr [OF h] 1 s1 by (simp add: getch_def Let_def)
    moreover have "line_is (s\<lparr>mem := ?m, trace := trace ?s1\<rparr>) (butlast cs)"
      using holds_backspace [OF h] by (simp add: line_is_def)
    moreover have "?m x = mem s x" if "\<not> typing_writes ?cmd loc x" for x
      using typing_writes_last [of ?n ?cmd loc] that line(2) by auto
    ultimately show ?thesis using 1
      by (intro exI [of _ ?m] exI [of _ "trace ?s1"] conjI) (simp_all add: edit_def)
  next
    case 2
    then have "getch lit loc count0 c s = Some (s\<lparr>mem := mem s, trace := trace ?s1\<rparr>)"
      using s c s1(3) [of "mem s"] by (simp add: getch_def Let_def printf_def)
    moreover have "line_is (s\<lparr>mem := mem s, trace := trace ?s1\<rparr>) cs" using line(1) by (simp add: line_is_def)
    ultimately show ?thesis using 2
      by (intro exI [of _ "mem s"] exI [of _ "trace ?s1"]) (simp add: edit_def)
  next
    case 3
    then have c': "c \<noteq> 0" "c \<noteq> 8" by auto
    let ?m0 = "(mem s)(loc := c, loc + 1 := 0)"
    have two: "Suc (length [c]) = 2" by simp
    have "?m0 x = mem s x" if "in_region ?cmd 4096 x" for x
      using apartD [OF loc that] by (auto simp: in_region_def)
    then have h0: "holds ?m0 ?cmd 4096 cs" by (rule holds_cong [OF h]) simp_all
    obtain m' where m': "kstrcat ?cmd ?cmd loc ?m0 = Some m'" "holds m' ?cmd 4096 (cs @ [c])"
      "\<And>x. \<not> in_region ?cmd 4096 x \<Longrightarrow> m' x = ?m0 x"
      using holds_append [OF h0, of loc "[c]", unfolded two] line(2) loc c'(1) by (auto simp: cstr_at_Cons)
    have "getch lit loc count0 c s = Some (s\<lparr>mem := m', trace := trace ?s1\<rparr>)"
      using s c 3 c'(2) s1(1,2) s1(3) [of m'] m'(1) by (simp add: getch_def Let_def)
    moreover have "line_is (s\<lparr>mem := m', trace := trace ?s1\<rparr>) (cs @ [c])" using m'(2) by (simp add: line_is_def)
    moreover have "m' x = mem s x" if "\<not> typing_writes ?cmd loc x" for x
      using that m'(3) [of x] by (auto simp: typing_writes_def in_region_def)
    ultimately show ?thesis using 3 c'(2) by (auto simp: edit_def)
  qed
qed

text \<open>Keys one after the other.\<close>

fun enter_keys ::
    "(string \<Rightarrow> ptr) \<Rightarrow> ptr \<Rightarrow> u8 \<Rightarrow> u8 list \<Rightarrow> 'a shell_scheme \<Rightarrow> 'a shell_scheme option" where
  "enter_keys lit loc count0 [] s = Some s"
| "enter_keys lit loc count0 (c # ks) s = do { s' \<leftarrow> getch lit loc count0 c s; enter_keys lit loc count0 ks s' }"

lemma length_edit: "length (edit cs c) \<le> Suc (length cs)"
  by (simp add: edit_def) linarith

lemma length_edits: "length (foldl edit cs ks) \<le> length cs + length ks"
proof (induction ks arbitrary: cs)
  case (Cons c ks)
  then show ?case using order_trans [OF Cons.IH [of "edit cs c"]] length_edit [of cs c] by fastforce
qed simp

lemma enter_keys_edits:
  assumes "line_is s cs" "length cs + length ks < 4096" "proc_running s = 0" "current_command s \<noteq> 0"
    and "apart (current_command s) 4096 loc 2" "10 \<notin> set ks"
  shows "\<exists>m tr. enter_keys lit loc count0 ks s = Some (s\<lparr>mem := m, trace := tr\<rparr>)
    \<and> line_is (s\<lparr>mem := m, trace := tr\<rparr>) (foldl edit cs ks)
    \<and> (\<forall>x. \<not> typing_writes (current_command s) loc x \<longrightarrow> m x = mem s x)"
  using assms
proof (induction ks arbitrary: cs s)
  case Nil
  then show ?case by (intro exI [of _ "mem s"] exI [of _ "trace s"]) simp
next
  case (Cons c ks)
  have "Suc (length cs) < 4096" "c \<noteq> 10" using Cons.prems(2,6) by simp_all
  then obtain m tr where g: "getch lit loc count0 c s = Some (s\<lparr>mem := m, trace := tr\<rparr>)"
    "line_is (s\<lparr>mem := m, trace := tr\<rparr>) (edit cs c)"
    "\<forall>x. \<not> typing_writes (current_command s) loc x \<longrightarrow> m x = mem s x"
    using getch_edits [OF Cons.prems(1) _ Cons.prems(3,4,5)] by blast
  have "\<exists>m' tr'. enter_keys lit loc count0 ks (s\<lparr>mem := m, trace := tr\<rparr>) = Some (s\<lparr>mem := m, trace := tr, mem := m', trace := tr'\<rparr>)
    \<and> line_is (s\<lparr>mem := m, trace := tr, mem := m', trace := tr'\<rparr>) (foldl edit (edit cs c) ks)
    \<and> (\<forall>x. \<not> typing_writes (current_command (s\<lparr>mem := m, trace := tr\<rparr>)) loc x \<longrightarrow> m' x = mem (s\<lparr>mem := m, trace := tr\<rparr>) x)"
    by (rule Cons.IH [OF g(2)]) (use Cons.prems length_edit [of cs c] in auto)
  then show ?case using g(1,3) by auto
qed

text \<open>The command line is edited as typed: each printable character is appended, each
  backspace takes the last character away, and nothing else changes the line, as long as it fits
  in its page.\<close>

theorem command_line_editing:
  assumes "line_is s cs" "length cs + length ks < 4096" "proc_running s = 0" "current_command s \<noteq> 0"
    and "apart (current_command s) 4096 loc 2" "10 \<notin> set ks"
  shows "\<exists>s'. enter_keys lit loc count0 ks s = Some s' \<and> line_is s' (foldl edit cs ks)
    \<and> current_command s' = current_command s"
proof -
  obtain m tr where "enter_keys lit loc count0 ks s = Some (s\<lparr>mem := m, trace := tr\<rparr>)"
    "line_is (s\<lparr>mem := m, trace := tr\<rparr>) (foldl edit cs ks)"
    using enter_keys_edits [OF assms] by blast
  then show ?thesis by (intro exI [of _ "s\<lparr>mem := m, trace := tr\<rparr>"]) simp
qed

text \<open>A backspace on an empty line clears the byte before the command line's page.\<close>

theorem backspace_on_empty_line:
  assumes "mem s (current_command s) = 0" "proc_running s = 0" "current_command s \<noteq> 0"
  shows "\<exists>s'. getch lit loc count0 8 s = Some s' \<and> mem s' = (mem s)(current_command s - 1 := 0)"
proof -
  have "cstr_at (mem s) (current_command s) []" using assms(1) by (simp add: cstr_at_def)
  then have "kstrlen (mem s) (current_command s) = Some 0" by (simp only: kstrlen_cstr) simp
  then show ?thesis using assms(2,3) by (simp add: getch_def Let_def printf_def)
qed

text \<open>If Enter returns, the line is empty again. When no page is left
  for the new one, the first page of memory is cleared in its stead, and while no program runs the shell
  ignores every further key.\<close>

theorem enter_starts_line:
  assumes "getch lit loc count0 10 s = Some s'" "proc_running s = 0" "current_command s \<noteq> 0"
  shows "line_is s' [] \<and> (current_command s' = 0 \<longrightarrow> (\<forall>a < 4096. mem s' a = 0)
    \<and> (proc_running s' = 0 \<longrightarrow> getch lit loc count0 c s' = Some s'))"
proof -
  obtain t page where s': "s' = t\<lparr>current_command := page, mem := kmemset page 4096 0 (mem t)\<rparr>"
    using assms by (auto simp: getch_def next_line_def Let_def split: Option.bind_splits prod.splits)
  have zero: "mem s' x = 0" if "in_region page 4096 x" for x
    using that by (simp add: s' kmemset_zero)
  then have "line_is s' []" by (simp add: line_is_def holds_def s' in_region_def)
  moreover have "mem s' a = 0" if "page = 0" "a < 4096" for a
    using zero [of a] that by (simp add: in_region_def word_less_nat_alt)
  ultimately show ?thesis by (simp add: getch_def s')
qed

subsection \<open>From the keyboard to the command line\<close>

text \<open>A keyboard interrupt while \<open>getch\<close> is the listener: the call \<open>kb_listener\<close> makes is the
  last thing the handler does.\<close>

definition key_interrupt ::
    "(string \<Rightarrow> ptr) \<Rightarrow> ptr \<Rightarrow> u8 \<Rightarrow> (nat \<Rightarrow> u8) \<Rightarrow> device \<Rightarrow> 'a shell_scheme \<Rightarrow> 'a shell_scheme option" where
  "key_interrupt lit loc count0 beyond d s =
     (let s1 = snd (ps2_handler beyond d () s)
      in enter_keys lit loc count0 (map snd (drop (length (kb_calls s)) (kb_calls s1))) s1)"

fun key_interrupts ::
    "(string \<Rightarrow> ptr) \<Rightarrow> ptr \<Rightarrow> u8 \<Rightarrow> (nat \<Rightarrow> u8) \<Rightarrow> u8 list \<Rightarrow> 'a shell_scheme \<Rightarrow> 'a shell_scheme option" where
  "key_interrupts lit loc count0 beyond [] s = Some s"
| "key_interrupts lit loc count0 beyond (c # cs) s = do {
     s' \<leftarrow> key_interrupt lit loc count0 beyond (scancode_dev c) s;
     key_interrupts lit loc count0 beyond cs s' }"

lemma ps2_handler_keeps_shell:
  "mem (snd (ps2_handler beyond d r s)) = mem s"
  "current_command (snd (ps2_handler beyond d r s)) = current_command s"
  "proc_running (snd (ps2_handler beyond d r s)) = proc_running s"
  "last_command (snd (ps2_handler beyond d r s)) = last_command s"
  "vga_buffer (snd (ps2_handler beyond d r s)) = vga_buffer s"
  "screen_inv (snd (ps2_handler beyond d r s)) = screen_inv s"
  by (simp_all add: ps2_handler_def ps2_press_def ps2_release_def kb_listener_def inb_def Let_def split_def
      screen_inv_def)

text \<open>Editing leaves the screen, the pages of the shell and all memory but the line alone.\<close>

definition undisturbed :: "ptr \<Rightarrow> 'a shell_scheme \<Rightarrow> 'a shell_scheme \<Rightarrow> bool" where
  "undisturbed loc s s' \<longleftrightarrow> screen_inv s' = screen_inv s \<and> vga_buffer s' = vga_buffer s
     \<and> current_command s' = current_command s \<and> last_command s' = last_command s
     \<and> (\<forall>x. \<not> typing_writes (current_command s) loc x \<longrightarrow> mem s' x = mem s x)"

lemma undisturbed_trans: "undisturbed loc s s1 \<Longrightarrow> undisturbed loc s1 s2 \<Longrightarrow> undisturbed loc s s2"
  by (simp add: undisturbed_def)

definition editing :: "ptr \<Rightarrow> 'a shell_scheme \<Rightarrow> u8 list \<Rightarrow> bool" where
  "editing loc s cs \<longleftrightarrow> line_is s cs \<and> proc_running s = 0 \<and> current_command s \<noteq> 0
     \<and> apart (current_command s) 4096 loc 2 \<and> ps2_listener s \<noteq> 0 \<and> g_listener s \<noteq> 0"

lemma key_interrupt_edits:
  assumes "editing loc s cs" and "kb_type beyond c (modifiers s) = (ks, m)"
    and "length cs + length ks < 4096" and "10 \<notin> set ks"
  shows "\<exists>s'. key_interrupt lit loc count0 beyond (scancode_dev c) s = Some s'
    \<and> editing loc s' (foldl edit cs ks) \<and> modifiers s' = m \<and> undisturbed loc s s'"
proof -
  let ?d = "scancode_dev c" and ?s1 = "snd (ps2_handler beyond (scancode_dev c) () s)"
  have l: "ps2_listener s \<noteq> 0" "g_listener s \<noteq> 0" using assms(1) by (simp_all add: editing_def)
  have c: "fst (inb ?d 0x60 s) = c" by (simp add: in_unfold scancode_dev_def)
  obtain c' where c': "kb_refines (snd (inb ?d 0x60 s)) (kb_type beyond c' (modifiers s)) ?s1"
    "c' = fst (inb ?d 0x60 s)" by (rule ps2_handler_step [OF l])
  have r: "kb_refines (snd (inb ?d 0x60 s)) (ks, m) ?s1" using c'(1) unfolding c'(2) c assms(2) .
  have s1: "ps2_listener ?s1 = ps2_listener s" "g_listener ?s1 = g_listener s" "modifiers ?s1 = m"
    "kb_calls ?s1 = kb_calls s @ map (Pair (g_listener s)) ks"
    using r unfolding kb_refines_def in_unfold by simp_all
  have typed: "map snd (drop (length (kb_calls s)) (kb_calls ?s1)) = ks"
    unfolding s1(4) by (simp add: comp_def)
  note keep = ps2_handler_keeps_shell [of beyond ?d "()" s]
  have "line_is ?s1 cs" by (rule line_is_cong [where s = s]) (use assms(1) in \<open>simp_all add: editing_def keep\<close>)
  then obtain m' tr where "enter_keys lit loc count0 ks ?s1 = Some (?s1\<lparr>mem := m', trace := tr\<rparr>)"
    "line_is (?s1\<lparr>mem := m', trace := tr\<rparr>) (foldl edit cs ks)"
    "\<forall>x. \<not> typing_writes (current_command s) loc x \<longrightarrow> m' x = mem s x"
    using enter_keys_edits [OF _ assms(3), of ?s1 loc] assms(1,4) unfolding editing_def keep by blast
  moreover have "screen_inv (?s1\<lparr>mem := m', trace := tr\<rparr>) = screen_inv ?s1" by (simp add: screen_inv_def)
  ultimately show ?thesis using s1 typed assms(1)
    by (simp add: key_interrupt_def Let_def editing_def keep modifiers_def undisturbed_def)
qed

lemma key_interrupts_edit:
  assumes "editing loc s cs" and "length cs + length (fst (kb_typed beyond ks (modifiers s))) < 4096"
    and "10 \<notin> set (fst (kb_typed beyond ks (modifiers s)))"
  shows "\<exists>s'. key_interrupts lit loc count0 beyond ks s = Some s'
    \<and> editing loc s' (foldl edit cs (fst (kb_typed beyond ks (modifiers s))))
    \<and> modifiers s' = snd (kb_typed beyond ks (modifiers s)) \<and> undisturbed loc s s'"
  using assms
proof (induction ks arbitrary: s cs)
  case (Cons k ks)
  obtain out m where t: "kb_type beyond k (modifiers s) = (out, m)"
    by (cases "kb_type beyond k (modifiers s)")
  have typed: "fst (kb_typed beyond (k # ks) (modifiers s)) = out @ fst (kb_typed beyond ks m)"
    "snd (kb_typed beyond (k # ks) (modifiers s)) = snd (kb_typed beyond ks m)"
    using t by (simp_all add: Let_def split_def)
  obtain s1 where s1: "key_interrupt lit loc count0 beyond (scancode_dev k) s = Some s1"
    "editing loc s1 (foldl edit cs out)" "modifiers s1 = m"
    "undisturbed loc s s1"
    using key_interrupt_edits [OF Cons.prems(1) t] Cons.prems(2,3) unfolding typed by auto
  have "length (foldl edit cs out) \<le> length cs + length out" by (rule length_edits)
  then show ?case using Cons.IH [OF s1(2)] Cons.prems(2,3) s1 unfolding typed
    by (auto dest: undisturbed_trans)
qed (simp add: undisturbed_def)

text \<open>Claim C21: scancodes become the command line: whatever keys are pressed and released, as long as
  Enter is not typed and the line fits, the keyboard's driver and the shell together leave in the command
  line what the abstract keyboard types, edited by the backspaces.\<close>

theorem scancodes_edit_command_line:
  assumes "editing loc s cs" and "kb_typed beyond ks (modifiers s) = (typed, m)"
    and "length cs + length typed < 4096" and "10 \<notin> set typed"
  shows "\<exists>s'. key_interrupts lit loc count0 beyond ks s = Some s' \<and> editing loc s' (foldl edit cs typed)"
  using key_interrupts_edit [OF assms(1), of beyond ks lit count0] assms(2-4) by auto

subsection \<open>The directory\<close>

lemma last_slash_skip:
  assumes "cstr_at m (dir + i) cs" and "47 \<notin> set cs"
  shows "last_slash m dir i lst = Some lst"
  using assms
proof (induction cs arbitrary: i)
  case Nil
  then show ?case by (subst last_slash.simps) simp
next
  case (Cons c cs)
  then have "cstr_at m (dir + (i + 1)) cs" "m (dir + i) = c" "c \<noteq> 0" by (simp_all add: cstr_at_Cons add.assoc)
  then show ?case using Cons.IH [of "i + 1"] Cons.prems(2) by (subst last_slash.simps) auto
qed

lemma last_slash_found:
  assumes "cstr_at m (dir + i) (as @ 47 # bs)" and "47 \<notin> set bs"
  shows "last_slash m dir i lst = Some (i + of_nat (length as))"
  using assms
proof (induction as arbitrary: i lst)
  case Nil
  then have "cstr_at m (dir + (i + 1)) bs" "m (dir + i) = 47" by (simp_all add: cstr_at_Cons add.assoc)
  then show ?case using last_slash_skip [OF _ Nil.prems(2)] by (subst last_slash.simps) simp
next
  case (Cons c as)
  then have "cstr_at m (dir + (i + 1)) (as @ 47 # bs)" "m (dir + i) = c" "c \<noteq> 0" by (simp_all add: cstr_at_Cons add.assoc)
  then show ?case using Cons.IH [of "i + 1"] Cons.prems(2) by (subst last_slash.simps) (simp add: add_ac)
qed

text \<open>The command \<open>cd ../\<close> cuts the directory before its last slash.\<close>

theorem cd_up_drops_last_component:
  assumes "cstr_at (mem s) (current_directory s) (as @ 47 # bs)" and "47 \<notin> set bs" and "as \<noteq> []"
    and "3 \<le> length (as @ 47 # bs)" and "length (as @ 47 # bs) < 2 ^ 31"
  shows "\<exists>s'. cd_up s = Some s' \<and> cstr_at (mem s') (current_directory s') as"
proof -
  let ?dir = "current_directory s" and ?n = "length as"
  obtain a as' where as: "as = a # as'" using assms(3) by (cases as) auto
  have "cstr_at (mem s) (?dir + 1) (as' @ 47 # bs)" using assms(1) by (simp add: as cstr_at_Cons)
  then have lst: "last_slash (mem s) ?dir 1 0 = Some (of_nat ?n)"
    using last_slash_found [OF _ assms(2)] by (simp add: as)
  note len = sint_of_nat_u32 [OF assms(5)]
  then have up: "cd_up s = Some (s\<lparr>mem := (mem s)(?dir + of_nat ?n := 0)\<rparr>)"
    using kstrlen_cstr [OF assms(1)] lst assms(4) len by (simp add: cd_up_def del: length_append of_nat_add)
  have "cstr_at ((mem s)(?dir + of_nat ?n := 0)) ?dir as"
  proof -
    have str: "0 \<notin> set as" "bytes_at (mem s) ?dir as" using assms(1) by (simp_all add: cstr_at_def)
    have "bytes_at ((mem s)(?dir + of_nat ?n := 0)) ?dir as"
      using str(2) assms(5) by (subst bytes_at_cong [where m = "mem s"]) (auto simp: in_region_def unat_of_nat)
    then show ?thesis using str(1) by (simp add: cstr_at_def)
  qed
  then show ?thesis using up by simp
qed

end
