(* ===== verification/ShellSession.thy ===== *)
theory ShellSession
  imports Eshell
begin

text \<open>
  From the keys to the command: what the shell of \<open>kernel/eshell/eshell.c\<close> runs when Enter is typed.
  The line the keys have left is looked up among the commands, and the emergency shell's end is reached
  by typing \<open>exit\<close>.
\<close>

section \<open>Which command a line is\<close>

definition command_of :: "u8 list \<Rightarrow> string option" where
  "command_of cs = find (\<lambda>t. ascii t = cs) commands"

text \<open>The texts the code compares with are in memory.\<close>

definition literals_held :: "(string \<Rightarrow> ptr) \<Rightarrow> mem \<Rightarrow> bool" where
  "literals_held lit m \<longleftrightarrow> list_all (\<lambda>t. cstr_at m (lit t) (ascii t)) commands"

lemma which_command_find:
  assumes "cstr_at m command cs" and "list_all (\<lambda>t. cstr_at m (lit t) (ascii t)) ts"
  shows "which_command lit m command ts = Some (find (\<lambda>t. ascii t = cs) ts)"
  using assms(2)
proof (induction ts)
  case (Cons t ts)
  then have "cstr_at m (lit t) (ascii t)" by simp
  then obtain r where "kstrcmp m command (lit t) = Some r" "r = 0 \<longleftrightarrow> cs = ascii t"
    using kstrcmp_cstr [OF assms(1)] by blast
  then show ?case using Cons by auto
qed simp

lemma command_of_Nil: "command_of [] = None"
  by (simp add: command_of_def commands_def ascii_def)

lemma exec_command_runs:
  assumes "cstr_at (mem s) command cs" and "literals_held lit (mem s)"
  shows "exec_command lit count0 command s =
    (case command_of cs of None \<Rightarrow> Some s | Some t \<Rightarrow> run_command lit count0 t s)"
proof (cases cs)
  case Nil
  then show ?thesis using assms(1) by (simp add: exec_command_def command_of_Nil)
next
  case (Cons c cs')
  then have "mem s command \<noteq> 0" using assms(1) by (simp add: cstr_at_Cons)
  then show ?thesis
    using which_command_find [OF assms(1) assms(2) [unfolded literals_held_def]]
    by (simp add: exec_command_def command_of_def)
qed

text \<open>The nine commands are told apart: each is found by its own text and by no other.\<close>

theorem command_of_iff: "command_of cs = Some t \<longleftrightarrow> t \<in> set commands \<and> cs = ascii t"
proof -
  have "list_all (\<lambda>t. command_of (ascii t) = Some t) commands" by code_simp
  then have own: "command_of (ascii t) = Some t" if "t \<in> set commands" for t using that by (simp add: list_all_iff)
  show ?thesis
  proof
    assume "command_of cs = Some t"
    then show "t \<in> set commands \<and> cs = ascii t" by (auto simp: command_of_def find_Some_iff)
  qed (use own in auto)
qed

section \<open>Enter\<close>

definition run_line :: "(string \<Rightarrow> ptr) \<Rightarrow> u8 \<Rightarrow> u8 list \<Rightarrow> 'a shell_scheme \<Rightarrow> 'a shell_scheme option" where
  "run_line lit count0 cs s =
     (case command_of cs of None \<Rightarrow> Some s | Some t \<Rightarrow> run_command lit count0 t s) \<bind> next_line lit"

lemma enter_runs:
  assumes "line_is s cs" "proc_running s = 0" "current_command s \<noteq> 0" "literals_held lit (mem s)"
  shows "getch lit loc count0 10 s = run_line lit count0 cs (printf ''%c'' [PInt 10] s)"
proof -
  define s1 where s1: "s1 = printf ''%c'' [PInt 10] s"
  have "mem s1 = mem s" "current_command s1 = current_command s" by (simp_all add: s1 printf_def)
  moreover have "cstr_at (mem s) (current_command s) cs" using assms(1) by (simp add: line_is_def holds_cstr)
  ultimately have "exec_command lit count0 (current_command s1) s1 =
      (case command_of cs of None \<Rightarrow> Some s1 | Some t \<Rightarrow> run_command lit count0 t s1)"
    using assms(4) by (intro exec_command_runs) simp_all
  moreover have "char_int 10 = 10" by (simp add: char_int_def)
  ultimately show ?thesis
    using assms(2,3) by (simp add: getch_def Let_def run_line_def flip: s1)
qed

section \<open>From the keys to the command\<close>

text \<open>The texts the shell needs are out of the reach of the typist.\<close>

definition literals_safe :: "(string \<Rightarrow> ptr) \<Rightarrow> ptr \<Rightarrow> string list \<Rightarrow> 'a shell_scheme \<Rightarrow> bool" where
  "literals_safe lit loc ts s \<longleftrightarrow> list_all (\<lambda>t. cstr_at (mem s) (lit t) (ascii t)
     \<and> apart (lit t) (Suc (length t)) (current_command s - 1) 4097 \<and> apart (lit t) (Suc (length t)) loc 2) ts"

lemma typing_writes_region:
  "typing_writes cmd loc x \<Longrightarrow> in_region (cmd - 1) 4097 x \<or> in_region loc 2 x"
proof (unfold typing_writes_def, elim disjE)
  assume "in_region cmd 4096 x"
  then have "in_region (cmd - 1) 4097 x"
    using in_subregion [of "cmd - 1" 1 4096 x 4097] by simp
  then show ?thesis ..
qed (simp_all add: in_region_def)

lemma literals_safe_kept:
  assumes "literals_safe lit loc ts s" and "undisturbed loc s s'"
  shows "list_all (\<lambda>t. cstr_at (mem s') (lit t) (ascii t)) ts"
  unfolding list_all_iff
proof
  fix t assume "t \<in> set ts"
  then have t: "cstr_at (mem s) (lit t) (ascii t)" "apart (lit t) (Suc (length t)) (current_command s - 1) 4097"
    "apart (lit t) (Suc (length t)) loc 2"
    using assms(1) by (auto simp: literals_safe_def list_all_iff)
  have "mem s' x = mem s x" if "in_region (lit t) (Suc (length (ascii t))) x" for x
  proof -
    have "\<not> typing_writes (current_command s) loc x"
      using typing_writes_region [of "current_command s" loc x] that apartD [OF t(2), of x] apartD [OF t(3), of x]
      by (auto simp: ascii_def)
    then show ?thesis using assms(2) by (simp add: undisturbed_def)
  qed
  then show "cstr_at (mem s') (lit t) (ascii t)" using t(1) cstr_at_cong [OF _ cstr_at_short [OF t(1)]] by blast
qed

lemma key_interrupts_snoc:
  "key_interrupts lit loc count0 beyond (ks @ [k]) s =
     key_interrupts lit loc count0 beyond ks s \<bind> key_interrupt lit loc count0 beyond (scancode_dev k)"
proof (induction ks arbitrary: s)
  case Nil
  then show ?case by (cases "key_interrupt lit loc count0 beyond (scancode_dev k) s") simp_all
next
  case (Cons k' ks)
  then show ?case by (cases "key_interrupt lit loc count0 beyond (scancode_dev k') s") simp_all
qed

lemma enter_key_runs:
  assumes "editing loc s cs" and "kb_type beyond k (modifiers s) = ([10], m)" and "literals_held lit (mem s)"
  shows "\<exists>s1. undisturbed loc s s1 \<and> line_is s1 cs
    \<and> key_interrupt lit loc count0 beyond (scancode_dev k) s = run_line lit count0 cs s1"
proof -
  let ?s1 = "snd (ps2_handler beyond (scancode_dev k) () s)"
  have l: "ps2_listener s \<noteq> 0" "g_listener s \<noteq> 0" using assms(1) by (simp_all add: editing_def)
  have k: "fst (inb (scancode_dev k) 0x60 s) = k" by (simp add: in_unfold scancode_dev_def)
  obtain k' where k': "kb_refines (snd (inb (scancode_dev k) 0x60 s)) (kb_type beyond k' (modifiers s)) ?s1"
    "k' = fst (inb (scancode_dev k) 0x60 s)" by (rule ps2_handler_step [OF l])
  have "kb_refines (snd (inb (scancode_dev k) 0x60 s)) ([10], m) ?s1" using k'(1) unfolding k'(2) k assms(2) .
  then have "kb_calls ?s1 = kb_calls s @ map (Pair (g_listener s)) [10]"
    unfolding kb_refines_def in_unfold by simp
  then have typed: "map snd (drop (length (kb_calls s)) (kb_calls ?s1)) = [10]" by simp
  note keep = ps2_handler_keeps_shell [of beyond "scancode_dev k" "()" s]
  have line: "line_is ?s1 cs"
    by (rule line_is_cong [where s = s]) (use assms(1) in \<open>simp_all add: editing_def keep\<close>)
  have "getch lit loc count0 10 ?s1 = run_line lit count0 cs (printf ''%c'' [PInt 10] ?s1)"
    by (rule enter_runs [OF line]) (use assms(1,3) in \<open>simp_all add: editing_def keep\<close>)
  moreover have "line_is (printf ''%c'' [PInt 10] ?s1) cs"
    by (rule line_is_cong [OF line]) (simp_all add: printf_def)
  moreover have "undisturbed loc s (printf ''%c'' [PInt 10] ?s1)"
    by (simp add: undisturbed_def printf_def screen_inv_def keep keep(6) [unfolded screen_inv_def])
  moreover have "key_interrupt lit loc count0 beyond (scancode_dev k) s = getch lit loc count0 10 ?s1"
    using typed by (cases "getch lit loc count0 10 ?s1") (simp_all add: key_interrupt_def Let_def)
  ultimately show ?thesis by auto
qed

lemma typed_line_runs:
  assumes "editing loc s []" and "kb_typed beyond ks (modifiers s) = (typed, m)"
    and "length typed < 4096" and "10 \<notin> set typed" and "kb_type beyond k m = ([10], m')"
    and "literals_safe lit loc commands s"
  shows "\<exists>s1. undisturbed loc s s1 \<and> line_is s1 (foldl edit [] typed)
    \<and> key_interrupts lit loc count0 beyond (ks @ [k]) s = run_line lit count0 (foldl edit [] typed) s1"
proof -
  obtain s1 where s1: "key_interrupts lit loc count0 beyond ks s = Some s1"
    "editing loc s1 (foldl edit [] typed)" "modifiers s1 = m" "undisturbed loc s s1"
    using key_interrupts_edit [OF assms(1), of beyond ks lit count0] assms(2-4) by auto
  have lits: "literals_held lit (mem s1)"
    using literals_safe_kept [OF assms(6) s1(4)] by (simp add: literals_held_def)
  obtain s2 where s2: "undisturbed loc s1 s2" "line_is s2 (foldl edit [] typed)"
    "key_interrupt lit loc count0 beyond (scancode_dev k) s1 = run_line lit count0 (foldl edit [] typed) s2"
    using enter_key_runs [OF s1(2) _ lits] assms(5) s1(3) by metis
  have "key_interrupts lit loc count0 beyond (ks @ [k]) s = run_line lit count0 (foldl edit [] typed) s2"
    using s1(1) s2(3) by (simp add: key_interrupts_snoc)
  with s2 undisturbed_trans [OF s1(4) s2(1)] show ?thesis by blast
qed


section \<open>The end of the shell\<close>

lemma write_screen_char_more: "\<exists>m x y. write_screen_char c s = s\<lparr>mem := m, cur_x := x, cur_y := y\<rparr>"
proof -
  have "\<exists>m x y. put_char c s = s\<lparr>mem := m, cur_x := x, cur_y := y\<rparr>"
  proof -
    have "put_char c s = s\<lparr>mem := mem (put_char c s), cur_x := cur_x (put_char c s), cur_y := cur_y (put_char c s)\<rparr>"
      by (simp add: put_char_def disp_str_def Let_def)
    then show ?thesis by blast
  qed
  then obtain m x y where p: "put_char c s = s\<lparr>mem := m, cur_x := x, cur_y := y\<rparr>" by blast
  have "write_screen_char c s = s\<lparr>mem := mem (write_screen_char c s),
      cur_x := cur_x (write_screen_char c s), cur_y := cur_y (write_screen_char c s)\<rparr>"
    by (simp add: write_screen_char_def Let_def p)
  then show ?thesis by blast
qed

text \<open>A text outside the frame buffer is written to its end, whatever it scrolls.\<close>

lemma write_screen_returns:
  assumes "cstr_at (mem s) a cs" and "screen_inv s" and "apart a (Suc (length cs)) (vga_buffer s) 4000"
  shows "\<exists>m x y. write_screen a s = Some (s\<lparr>mem := m, cur_x := x, cur_y := y\<rparr>)"
  using assms
proof (induction cs arbitrary: a s)
  case Nil
  then show ?case
    by (subst write_screen.simps) (simp, intro exI [of _ "mem s"] exI [of _ "cur_x s"] exI [of _ "cur_y s"], simp)
next
  case (Cons c cs)
  let ?s1 = "write_screen_char c s"
  obtain m x y where s1: "?s1 = s\<lparr>mem := m, cur_x := x, cur_y := y\<rparr>" using write_screen_char_more by blast
  have c: "mem s a = c" "c \<noteq> 0" "cstr_at (mem s) (a + 1) cs" "length (c # cs) < 2 ^ 32"
    using Cons.prems(1) cstr_at_short [OF Cons.prems(1)] by (simp_all add: cstr_at_Cons)
  have ap: "apart (a + of_nat 1) (Suc (length cs)) (vga_buffer s) 4000"
    by (rule apart_sub_left [OF Cons.prems(3)]) (use c(4) in simp_all)
  note safe = write_screen_char_keeps [OF Cons.prems(2), of c]
  have "cstr_at (mem ?s1) (a + 1) cs"
    using c(3,4) safe(2) apartD [OF ap] by (subst cstr_at_cong [where m = "mem s"]) auto
  then have "\<exists>m x y. write_screen (a + 1) ?s1 = Some (?s1\<lparr>mem := m, cur_x := x, cur_y := y\<rparr>)"
    using Cons.IH [of ?s1 "a + 1"] safe(1) ap by (simp add: s1)
  then show ?case using c(1,2) by (subst write_screen.simps) (auto simp: s1)
qed

lemma run_exit_ends:
  assumes "cstr_at (mem s) (lit (line ''exiting...'')) cs" and "screen_inv s" and "last_command s = 0"
    and "apart (lit (line ''exiting...'')) (Suc (length cs)) (vga_buffer s) 4000"
  shows "\<exists>s'. run_line lit count0 (ascii ''exit'') s = Some s' \<and> sh_exit s' = 1"
proof -
  obtain m x y where w: "write_screen (lit (line ''exiting...'')) s = Some (s\<lparr>mem := m, cur_x := x, cur_y := y\<rparr>)"
    using write_screen_returns [OF assms(1,2,4)] by blast
  have "command_of (ascii ''exit'') = Some ''exit''" by (simp add: command_of_iff commands_def)
  then have "run_line lit count0 (ascii ''exit'') s =
      next_line lit (s\<lparr>mem := m, cur_x := x, cur_y := y, sh_exit := 1\<rparr>)"
    using w by (simp add: run_line_def run_command_def)
  moreover obtain page s1 where al: "sys_kmalloc 1 6 (s\<lparr>mem := m, cur_x := x, cur_y := y, sh_exit := 1,
      last_command := current_command s\<rparr>) = (page, s1)" by fastforce
  moreover obtain p where "s1 = s\<lparr>mem := m, cur_x := x, cur_y := y, sh_exit := 1,
      last_command := current_command s, mmgr := p\<rparr>" using sys_kmalloc_frame [OF al] by auto
  ultimately show ?thesis using assms(3) by (simp add: next_line_def)
qed

lemma literals_safe_tl: "literals_safe lit loc (t # ts) s \<Longrightarrow> literals_safe lit loc ts s"
  by (simp add: literals_safe_def)


end
