(* ===== verification/ShellExamples.thy ===== *)
theory ShellExamples
  imports ShellSession DriverExamples
begin

text \<open>
  The properties of the screen and of the shell at concrete states: the text screen at 0xb8000, the
  command line at 0x10000, the directory \<open>A:/X\<close> at 0x30000 and the word \<open>Hi\<close> at 0x500.
\<close>

definition screen0 :: "int \<Rightarrow> screen" where
  "screen0 y = intr.extend (intr0\<lparr>mem := (\<lambda>_. 0)(0x500 := 72, 0x501 := 105, 0x30000 := 65, 0x30001 := 58,
      0x30002 := 47, 0x30003 := 88), g_listener := 0xA000\<rparr>)
     (screen.fields 0xB8000 7 1 y 1 0 0)"

definition shell0 :: shell where
  "shell0 = screen.extend (screen0 0)
     (shell.fields 0x10000 0 0x30000 0 0 (\<lambda>_. False) (\<lambda>_. 0) 0 0 0 1)"

lemmas shell0_defs = screen0_def shell0_def intr.defs screen.defs shell.defs

lemma screen0_sel [simp]:
  "vga_buffer (screen0 y) = 0xB8000" "base_color (screen0 y) = 7" "cur_x (screen0 y) = 1"
  "cur_y (screen0 y) = y" "min_x (screen0 y) = 1" "min_y (screen0 y) = 0"
  by (simp_all add: shell0_defs)

lemma screen0_mem [simp]:
  "mem (screen0 y) = (\<lambda>_. 0)(0x500 := 72, 0x501 := 105, 0x30000 := 65, 0x30001 := 58, 0x30002 := 47, 0x30003 := 88)"
  by (simp add: shell0_defs intr0_def sched.defs)

lemma shell0_sel [simp]:
  "current_command shell0 = 0x10000" "last_command shell0 = 0" "current_directory shell0 = 0x30000"
  "proc_running shell0 = 0" "active_proc shell0 = 1" "g_listener shell0 = 0xA000"
  "mem shell0 = mem (screen0 0)"
  by (simp_all add: shell0_defs intr0_def sched.defs)

lemma shell0_keyboard [simp]: "ps2_listener shell0 = 0x9000" "modifiers shell0 = (False, False)"
  by (simp_all add: shell0_defs intr0_def sched.defs no_process_def modifiers_def)

lemma screen0_inv: "0 \<le> y \<Longrightarrow> y \<le> 23 \<Longrightarrow> screen_inv (screen0 y)"
  by (simp add: screen_inv_def)

theorem write_screen_char_safe_witness: "screen_inv (write_screen_char 10 (screen0 23))"
  using write_screen_char_safe [of "screen0 23" 10] screen0_inv by simp


theorem line_feed_scrolls_witness:
  "mem (write_screen_char 10 (screen0 23)) 0xB8000 = mem (disp_str 1 23 [32] (screen0 23)) 0xB80A0"
  using line_feed_scrolls [of "screen0 23" 0] screen0_inv [of 23] by simp

lemma shell0_line: "line_is shell0 []" "apart (current_command shell0) 4096 0x20000 2"
proof -
  have "mem shell0 (0x10000 + of_nat j) = 0" if "j < 4096" for j
  proof -
    have "unat (0x10000 + of_nat j :: u32) = 0x10000 + j" using that by (simp add: unat_word_ariths unat_of_nat)
    moreover have "unat (0x500 :: u32) = 0x500" "unat (0x501 :: u32) = 0x501" "unat (0x30000 :: u32) = 0x30000"
      "unat (0x30001 :: u32) = 0x30001" "unat (0x30002 :: u32) = 0x30002" "unat (0x30003 :: u32) = 0x30003" by simp_all
    ultimately show ?thesis using that by (auto simp: word_unat_eq_iff)
  qed
  then show "line_is shell0 []" by (simp add: line_is_def holds_def)
  show "apart (current_command shell0) 4096 0x20000 2" by (simp add: apart_def)
qed

theorem command_line_editing_witness:
  "\<exists>s'. enter_keys (\<lambda>_. 0) 0x20000 0 [108, 115, 8] shell0 = Some s' \<and> line_is s' [108]"
  using command_line_editing [OF shell0_line(1) _ _ _ shell0_line(2), of "[108, 115, 8]" "\<lambda>_. 0" 0]
  by (auto simp: edit_def)

theorem backspace_on_empty_line_witness:
  "\<exists>s'. getch (\<lambda>_. 0) 0x20000 0 8 shell0 = Some s' \<and> mem s' = (mem shell0)(0xFFFF := 0)"
  using backspace_on_empty_line [of shell0 "\<lambda>_. 0" "0x20000" 0] by simp

theorem enter_starts_line_witness:
  "\<exists>s'. getch (\<lambda>_. 0) 0x20000 0 10 shell0 = Some s' \<and> line_is s' []"
proof -
  have "\<exists>s'. getch (\<lambda>_. 0) 0x20000 0 10 shell0 = Some s'"
    by (simp add: getch_def next_line_def exec_command_def printf_def Let_def split_def)
  then show ?thesis using enter_starts_line [of "\<lambda>_. 0" "0x20000" 0 shell0 _ 0] by auto
qed

text \<open>Shift, \<open>l\<close>, release of both, \<open>s\<close>, backspace, \<open>s\<close>.\<close>

theorem scancodes_edit_command_line_witness:
  "\<exists>s'. key_interrupts (\<lambda>_. 0) 0x20000 0 (\<lambda>_. 0) [0x2A, 0x26, 0xA6, 0xAA, 0x1F, 0x0E, 0x1F] shell0 = Some s'
    \<and> line_is s' [76, 115]"
proof -
  have "kb_typed (\<lambda>_. 0) [0x2A, 0x26, 0xA6, 0xAA, 0x1F, 0x0E, 0x1F] (modifiers shell0) =
      ([76, 115, 8, 115], False, False)"
    by (simp add: kb_table_simps)
  moreover have "editing 0x20000 shell0 []" using shell0_line by (simp add: editing_def)
  ultimately show ?thesis using scancodes_edit_command_line [of "0x20000" shell0 "[]" "\<lambda>_. 0"]
    by (fastforce simp: edit_def editing_def)
qed

text \<open>The texts of the shell, sixteen bytes apart from 0x40000 on.\<close>

definition shell_texts :: "string list" where
  "shell_texts = line ''exiting...'' # commands"

definition lit0 :: "string \<Rightarrow> ptr" where
  "lit0 t = 0x40000 + 16 * of_nat (length (takeWhile (\<lambda>u. u \<noteq> t) shell_texts))"

definition text_mem :: mem where
  "text_mem a =
     (if a < 0x40000 then 0
      else let k = unat (a - 0x40000); i = k div 16; j = k mod 16
           in if i < length shell_texts \<and> j < length (shell_texts ! i) then of_char (shell_texts ! i ! j) else 0)"

definition shell1 :: shell where
  "shell1 = shell0\<lparr>mem := text_mem\<rparr>"

lemma shell1_sel [simp]:
  "mem shell1 = text_mem" "current_command shell1 = 0x10000" "last_command shell1 = 0"
  "vga_buffer shell1 = 0xB8000" "screen_inv shell1" "modifiers shell1 = (False, False)"
proof -
  show "modifiers shell1 = (False, False)" using shell0_keyboard(2) by (simp add: shell1_def modifiers_def)
qed (simp_all add: shell1_def screen_inv_def shell0_def screen.defs shell.defs)

lemma shell_texts_facts:
  "length shell_texts = 10"
  "i < 10 \<Longrightarrow> length (shell_texts ! i) < 16 \<and> 0 \<notin> set (ascii (shell_texts ! i)) \<and> lit0 (shell_texts ! i) = 0x40000 + 16 * of_nat i"
proof -
  show "length shell_texts = 10" by code_simp
  have "list_all (\<lambda>i. length (shell_texts ! i) < 16 \<and> 0 \<notin> set (ascii (shell_texts ! i))
      \<and> length (takeWhile (\<lambda>u. u \<noteq> shell_texts ! i) shell_texts) = i) [0..<10]" by code_simp
  then show "i < 10 \<Longrightarrow> length (shell_texts ! i) < 16 \<and> 0 \<notin> set (ascii (shell_texts ! i)) \<and> lit0 (shell_texts ! i) = 0x40000 + 16 * of_nat i"
    by (simp add: list_all_iff lit0_def)
qed

lemma text_mem_at:
  assumes "i < 10" and "j < 16"
  shows "text_mem (0x40000 + 16 * of_nat i + of_nat j) =
    (if j < length (shell_texts ! i) then of_char (shell_texts ! i ! j) else 0)"
proof -
  have "0x40000 + 16 * of_nat i + of_nat j = (of_nat (0x40000 + (16 * i + j)) :: u32)" by simp
  moreover have "unat (of_nat (0x40000 + (16 * i + j)) :: u32) = 0x40000 + (16 * i + j)"
    by (rule unat_of_nat_u32) (use assms in simp)
  moreover have "of_nat (0x40000 + (16 * i + j)) - 0x40000 = (of_nat (16 * i + j) :: u32)" by simp
  moreover have "unat (of_nat (16 * i + j) :: u32) = 16 * i + j"
    by (rule unat_of_nat_u32) (use assms in simp)
  moreover have "(16 * i + j) div 16 = i" "(16 * i + j) mod 16 = j" using assms(2) by simp_all
  ultimately show ?thesis
    using assms by (simp only: text_mem_def Let_def word_less_nat_alt shell_texts_facts(1)) simp
qed

lemma texts_apart:
  assumes "i < 10"
  shows "apart (0x40000 + 16 * of_nat i) 16 (0x10000 - 1) 4097" and "apart (0x40000 + 16 * of_nat i) 16 0x20000 2"
proof -
  have "i \<in> {0, 1, 2, 3, 4, 5, 6, 7, 8, 9}" using assms by auto
  then show "apart (0x40000 + 16 * of_nat i) 16 (0x10000 - 1) 4097" "apart (0x40000 + 16 * of_nat i) 16 0x20000 2"
    by (auto simp: apart_def)
qed

lemma shell1_literal:
  assumes "i < 10"
  shows "cstr_at text_mem (lit0 (shell_texts ! i)) (ascii (shell_texts ! i))"
proof -
  note t = shell_texts_facts(2) [OF assms]
  have "text_mem (lit0 (shell_texts ! i) + of_nat j) = (ascii (shell_texts ! i) @ [0]) ! j"
    if "j < Suc (length (shell_texts ! i))" for j
  proof -
    have "text_mem (lit0 (shell_texts ! i) + of_nat j) = text_mem (0x40000 + 16 * of_nat i + of_nat j)"
      using t by presburger
    also have "\<dots> = (if j < length (shell_texts ! i) then of_char (shell_texts ! i ! j) else 0)"
      by (rule text_mem_at [OF assms]) (use that t in linarith)
    finally show ?thesis using that by (auto simp: nth_append ascii_def)
  qed
  then show ?thesis using t by (simp add: cstr_at_def bytes_at_nth ascii_def)
qed

lemma shell1_literals: "literals_safe lit0 0x20000 shell_texts shell1"
  unfolding literals_safe_def list_all_iff shell1_sel
proof
  fix t assume "t \<in> set shell_texts"
  then obtain i where i: "i < 10" "shell_texts ! i = t" using shell_texts_facts(1) by (metis in_set_conv_nth)
  then have t: "Suc (length t) \<le> 16" "lit0 t = 0x40000 + 16 * of_nat i" using shell_texts_facts(2) [OF i(1)] by auto
  have "apart (lit0 t) (Suc (length t)) (0x10000 - 1) 4097" "apart (lit0 t) (Suc (length t)) 0x20000 2"
    unfolding t(2) using texts_apart [OF i(1)] t(1) by (blast intro: apart_mono)+
  then show "cstr_at text_mem (lit0 t) (ascii t) \<and> apart (lit0 t) (Suc (length t)) (0x10000 - 1) 4097
      \<and> apart (lit0 t) (Suc (length t)) 0x20000 2"
    using shell1_literal [OF i(1)] unfolding i(2) by blast
qed

lemma shell1_editing: "editing 0x20000 shell1 []"
proof -
  have "text_mem (0x10000 + of_nat j) = 0" if "j < 4096" for j
  proof -
    have "unat (0x10000 + of_nat j :: u32) = 0x10000 + j" using that by (simp add: unat_word_ariths unat_of_nat)
    then show ?thesis using that by (simp add: text_mem_def word_less_nat_alt)
  qed
  then have "line_is shell1 []" by (simp add: line_is_def holds_def)
  then show ?thesis
    using shell0_line(2) by (simp add: editing_def shell1_def)
qed

text \<open>The keys E, X, I, T and Enter.\<close>

lemma exit_keys:
  "kb_typed (\<lambda>_. 0) [0x12, 0x2D, 0x17, 0x14] (modifiers shell1) = (ascii ''exit'', False, False)"
  "length (ascii ''exit'') < 4096" "10 \<notin> set (ascii ''exit'')"
  "kb_type (\<lambda>_. 0) 0x1C (False, False) = ([10], False, False)"
  "foldl edit [] (ascii ''exit'') = ascii ''exit''"
proof -
  show "length (ascii ''exit'') < 4096" "10 \<notin> set (ascii ''exit'')"
    "foldl edit [] (ascii ''exit'') = ascii ''exit''" by code_simp+
qed (simp_all add: kb_table_simps ascii_def)



theorem cd_up_drops_last_component_witness:
  "\<exists>s'. cd_up shell0 = Some s' \<and> cstr_at (mem s') (current_directory s') [65, 58]"
proof -
  have "cstr_at (mem shell0) (current_directory shell0) ([65, 58] @ 47 # [88])" by (simp add: cstr_at_Cons)
  from cd_up_drops_last_component [OF this] show ?thesis by simp
qed

end
