(* ===== verification/Cpu.thy ===== *)
theory Cpu
  imports Eshell
begin

text \<open>
  The processor identification (\<open>kernel/cpu/cpu.c\<close>, \<open>cpu.h\<close>). What \<open>cpuid\<close> answers for a leaf, the
  registers eax, ebx, ecx and edx, is a parameter. The three unions of \<open>cpuid_t\<close> are words, the structures
  in them functions of the word (the first bit field is the lowest bit).
\<close>

section \<open>The code\<close>

record cpu = shell +
  vendor_string :: "u32 list"
  ebx1 :: u32
  edx1 :: u32
  ecx1 :: u32

record ebx_cpuid_1 =
  ebx_brand :: u8
  ebx_cl_flush_sz :: u8
  ebx_addr_ids :: u8
  ebx_apic_id :: u8

record edx_cpuid_1 =
  edx_fpu :: bool
  edx_vme :: bool
  edx_de :: bool
  edx_pse :: bool
  edx_tsc :: bool
  edx_msr :: bool
  edx_pae :: bool
  edx_mce :: bool
  edx_cx8 :: bool
  edx_mtrr :: bool
  edx_sep :: bool
  edx_mtrr1 :: bool
  edx_pge :: bool
  edx_mca :: bool
  edx_cmov :: bool
  edx_pat :: bool
  edx_pse_36 :: bool
  edx_psn :: bool
  edx_clfsh :: bool
  edx_nx :: bool
  edx_ds :: bool
  edx_mmx :: bool
  edx_fxsr :: bool
  edx_sse :: bool
  edx_sse2 :: bool
  edx_ss :: bool
  edx_htt :: bool
  edx_tm :: bool
  edx_ia64 :: bool
  edx_pbe :: bool

record ecx_cpuid_1 =
  ecx_sse3 :: bool
  ecx_pclmulqdq :: bool
  ecx_dtes64 :: bool
  ecx_monitor :: bool
  ecx_ds_cpl :: bool
  ecx_vmx :: bool
  ecx_smx :: bool
  ecx_est :: bool
  ecx_tm2 :: bool
  ecx_ssse3 :: bool
  ecx_cnxt_id :: bool
  ecx_sdbg :: bool
  ecx_fma :: bool
  ecx_cx16 :: bool
  ecx_xtpr :: bool
  ecx_pdcm :: bool
  ecx_res :: bool
  ecx_pcid :: bool
  ecx_dca :: bool
  ecx_sse41 :: bool
  ecx_sse42 :: bool
  ecx_x2apic :: bool
  ecx_movbe :: bool
  ecx_popcnt :: bool
  ecx_tsc_deadline :: bool
  ecx_aes_ni :: bool
  ecx_xsave :: bool
  ecx_osxsave :: bool
  ecx_avx :: bool
  ecx_f16c :: bool
  ecx_rdrnd :: bool
  ecx_hypervisor :: bool

definition ebx_struct :: "u32 \<Rightarrow> ebx_cpuid_1" where
  "ebx_struct w = \<lparr>ebx_brand = ucast w, ebx_cl_flush_sz = ucast (drop_bit 8 w),
     ebx_addr_ids = ucast (drop_bit 16 w), ebx_apic_id = ucast (drop_bit 24 w)\<rparr>"

definition edx_struct :: "u32 \<Rightarrow> edx_cpuid_1" where
  "edx_struct w = \<lparr>
     edx_fpu = bit w 0, edx_vme = bit w 1, edx_de = bit w 2, edx_pse = bit w 3, edx_tsc = bit w 4,
     edx_msr = bit w 5, edx_pae = bit w 6, edx_mce = bit w 7, edx_cx8 = bit w 8, edx_mtrr = bit w 9,
     edx_sep = bit w 10, edx_mtrr1 = bit w 11, edx_pge = bit w 12, edx_mca = bit w 13,
     edx_cmov = bit w 14, edx_pat = bit w 15, edx_pse_36 = bit w 16, edx_psn = bit w 17,
     edx_clfsh = bit w 18, edx_nx = bit w 19, edx_ds = bit w 20, edx_mmx = bit w 21, edx_fxsr = bit w 22,
     edx_sse = bit w 23, edx_sse2 = bit w 24, edx_ss = bit w 25, edx_htt = bit w 26, edx_tm = bit w 27,
     edx_ia64 = bit w 28, edx_pbe = bit w 29\<rparr>"

definition ecx_struct :: "u32 \<Rightarrow> ecx_cpuid_1" where
  "ecx_struct w = \<lparr>
     ecx_sse3 = bit w 0, ecx_pclmulqdq = bit w 1, ecx_dtes64 = bit w 2, ecx_monitor = bit w 3,
     ecx_ds_cpl = bit w 4, ecx_vmx = bit w 5, ecx_smx = bit w 6, ecx_est = bit w 7, ecx_tm2 = bit w 8,
     ecx_ssse3 = bit w 9, ecx_cnxt_id = bit w 10, ecx_sdbg = bit w 11, ecx_fma = bit w 12,
     ecx_cx16 = bit w 13, ecx_xtpr = bit w 14, ecx_pdcm = bit w 15, ecx_res = bit w 16,
     ecx_pcid = bit w 17, ecx_dca = bit w 18, ecx_sse41 = bit w 19, ecx_sse42 = bit w 20,
     ecx_x2apic = bit w 21, ecx_movbe = bit w 22, ecx_popcnt = bit w 23, ecx_tsc_deadline = bit w 24,
     ecx_aes_ni = bit w 25, ecx_xsave = bit w 26, ecx_osxsave = bit w 27, ecx_avx = bit w 28,
     ecx_f16c = bit w 29, ecx_rdrnd = bit w 30, ecx_hypervisor = bit w 31\<rparr>"

text \<open>The characters of the words up to the first zero; a zero byte follows the words.\<close>

definition word_chars :: "u32 list \<Rightarrow> string" where
  "word_chars ws = map (\<lambda>b. char_of (unat b)) (takeWhile (\<lambda>b. b \<noteq> 0)
     (concat (map (\<lambda>w. [ucast w, ucast (drop_bit 8 w), ucast (drop_bit 16 w), ucast (drop_bit 24 w) :: u8]) ws)))"

definition call_cpuid :: "(u32 \<Rightarrow> u32 \<times> u32 \<times> u32 \<times> u32) \<Rightarrow> 'a cpu_scheme \<Rightarrow> 'a cpu_scheme" where
  "call_cpuid cpuid s =
     (let (eax, ebx, ecx, edx) = cpuid 0;
          s1 = s\<lparr>vendor_string := [ebx, edx, ecx]\<rparr>;
          (eax, ebx, ecx, edx) = cpuid 1;
          s2 = s1\<lparr>ebx1 := ebx, edx1 := edx, ecx1 := ecx\<rparr>
      in printf (line ''CPU Vendor: %s'') [PStr (word_chars (vendor_string s2))] s2)"

section \<open>Properties\<close>

text \<open>The vendor printed is the registers ebx, edx, ecx of leaf 0, four characters each. The
  structure over ecx of leaf 1 has a field for each bit; the one over edx has only 30 fields for its
  32 bits, the two reserved bits 10 and 22 being left out (and bit 9 misnamed), so that its fields
  from \<open>sep\<close> on read the bit one or two below theirs, \<open>sse\<close> the bit of MMX.\<close>

theorem call_cpuid_reads:
  assumes "cpuid 0 = (a0, b0, c0, d0)" and "cpuid 1 = (a1, b1, c1, d1)" and "call_cpuid cpuid s = s'"
  shows "Printf (line ''CPU Vendor: %s'') [PStr (word_chars [b0, d0, c0])] \<in> set (trace s')
    \<and> ecx_sse3 (ecx_struct (ecx1 s')) = bit c1 0 \<and> ecx_hypervisor (ecx_struct (ecx1 s')) = bit c1 31
    \<and> edx_cx8 (edx_struct (edx1 s')) = bit d1 8 \<and> edx_sep (edx_struct (edx1 s')) = bit d1 (11 - 1)
    \<and> edx_ds (edx_struct (edx1 s')) = bit d1 (21 - 1) \<and> edx_mmx (edx_struct (edx1 s')) = bit d1 (23 - 2)
    \<and> edx_sse (edx_struct (edx1 s')) = bit d1 (25 - 2) \<and> edx_pbe (edx_struct (edx1 s')) = bit d1 (31 - 2)"
  using assms by (auto simp: call_cpuid_def printf_def ecx_struct_def edx_struct_def Let_def)

end
