(* ===== verification/Lifecycle.thy ===== *)
theory Lifecycle
  imports Interrupts
begin

text \<open>
  The life of kernel processes as a step relation. A step is one whole operation of the code: a
  process is made (\<open>kfork\<close>) or ended (\<open>exit_proc\<close>), a page is taken (\<open>kumalloc\<close>, for one page) or a
  block released (\<open>kfree\<close>), the timer interrupts, or something happens that leaves processes and pages alone. Left out are the
  operations that break the invariant for good (theorems elsewhere say so): requests for several pages
  (\<open>kumalloc_overlaps_live_block\<close>) and the release of the process list's own pages (last section); and
  \<open>fork\<close>, which leaves the page count of the child unset.
\<close>

section \<open>Steps\<close>

text \<open>Output to the screen, work of a process on its memory, and whatever else leaves the processes and
  the pages alone.\<close>

definition same_procs :: "'a sched_scheme \<Rightarrow> 'a sched_scheme \<Rightarrow> bool" where
  "same_procs s s' \<longleftrightarrow> proc_list s' = proc_list s \<and> plist s' = plist s \<and> procs s' = procs s \<and> mmgr s' = mmgr s
     \<and> active_procs s' = active_procs s \<and> cpid s' = cpid s \<and> lapid s' = lapid s
     \<and> enable_scheduler s' = enable_scheduler s"

datatype action = Kfork u32 ptr ptr u32 | Exit u32 u16 | Take_Page u32 u32 | Release ptr | Timer ptr | Other

inductive kernel_step :: "'a sched_scheme \<Rightarrow> action \<Rightarrow> 'a sched_scheme \<Rightarrow> bool" where
  kfork_step: "\<lbrakk>kfork eflags fn args count s = Some (ret, s'); entry_ptr s q = 0; 2 \<le> free_count (mmgr s)\<rbrakk>
    \<Longrightarrow> kernel_step s (Kfork eflags fn args count) s'"
| exit_step: "\<lbrakk>exit_proc c (ucast p) s = Some s'; existing s p\<rbrakk> \<Longrightarrow> kernel_step s (Exit c p) s'"
| page_step: "sys_kumalloc 1 perms p s = (a, s') \<Longrightarrow> kernel_step s (Take_Page perms p) s'"
| release_step: "\<lbrakk>sys_kfree a s = Some s'; a \<in> heads (mmgr s); unused_page s a\<rbrakk> \<Longrightarrow> kernel_step s (Release a) s'"
| timer_step: "irq0_timer_handler fp s = Some (gp, s') \<Longrightarrow> kernel_step s (Timer fp) s'"
| other_step: "same_procs s s' \<Longrightarrow> kernel_step s Other s'"

inductive_simps kernel_step_simps:
  "kernel_step s (Kfork eflags fn args count) s'" "kernel_step s (Exit c p) s'" "kernel_step s (Timer fp) s'"

text \<open>The states a kernel can be in that has started its scheduler with a sound page table.\<close>

inductive reachable :: "'a sched_scheme \<Rightarrow> bool" where
  start: "\<lbrakk>init_scheduler s0 = Some s; mm_inv (mmgr s); \<And>p. p \<noteq> 0 \<Longrightarrow> owners_used (mmgr s) p; active_procs s0 = 0\<rbrakk>
    \<Longrightarrow> reachable s"
| step: "reachable s \<Longrightarrow> kernel_step s a s' \<Longrightarrow> reachable s'"

text \<open>The invariant: the one of the process list, each list and structure page owned by the kernel,
  every owned page in use, as many active processes as there are, and no bound on the pages that the
  exit of a process frees.\<close>

definition well_formed :: "'a sched_scheme \<Rightarrow> bool" where
  "well_formed s \<longleftrightarrow> sched_inv s \<and> kernel_owned s \<and> (\<forall>p. p \<noteq> 0 \<longrightarrow> owners_used (mmgr s) p)
     \<and> active_procs s = of_nat (card {p. existing s p})
     \<and> (\<forall>p. existing s p \<longrightarrow> allocated_pages (procs s (proc_ptr s p)) = - 1)"

section \<open>Pages and their owners\<close>

definition page_owner :: "'a mm_scheme \<Rightarrow> ptr \<Rightarrow> u8" where
  "page_owner m a = pid (page_table m (uint (a div 4096)))"

lemma kernel_owned_pages:
  "kernel_owned s \<longleftrightarrow> (\<forall>q. existing s q \<longrightarrow> page_owner (mmgr s) (entry_ptr s q) = 0
     \<and> page_owner (mmgr s) (proc_ptr s q) = 0)"
  by (simp add: kernel_owned_def page_owner_def)

lemma kumalloc_owner:
  assumes inv: "mm_inv m" and al: "kumalloc 1 perms p m = (a, m')"
  shows "a \<noteq> 0 \<Longrightarrow> page_owner m' a = ucast p" and "b \<in> heads m \<Longrightarrow> page_owner m' b = page_owner m b"
    and "owners_used m q \<Longrightarrow> owners_used m' q"
proof -
  have len: "table_len m \<le> 2 ^ 20" using inv by (simp add: mm_inv_def)
  have pg: "uint (page_addr i div 4096) = i" if "256 \<le> i" "i < table_len m" for i
    using page_of_addr [of i] that len by simp
  consider (null) "a = 0" "m' = m"
    | (page) i where "256 \<le> i" "i < table_len m" "free_entry (page_table m i)" "a = page_addr i"
      "m' = m\<lparr>page_table := (page_table m)(i := block_entry perms p 1 0)\<rparr>"
    using kumalloc_one_page [OF len, of perms p] al by auto
  note cs = this
  show "page_owner m' a = ucast p" if "a \<noteq> 0"
    using cs that pg by cases (auto simp: page_owner_def block_entry_def)
  show "page_owner m' b = page_owner m b" if b: "b \<in> heads m"
  proof -
    obtain j where j: "b = page_addr j" "256 \<le> j" "j < table_len m" "used (page_table m j)"
      using b by (auto simp: heads_def)
    from cs show ?thesis
    proof cases
      case (page i)
      then have "i \<noteq> j" using j(4) by (auto simp: free_entry_def)
      then show ?thesis using page(5) pg [OF j(2,3)] j(1) by (simp add: page_owner_def)
    qed simp
  qed
  show "owners_used m' q" if "owners_used m q"
    using cs that by cases (auto simp: owners_used_def block_entry_def)
qed

text \<open>Releasing only resets entries.\<close>

definition freed :: "'a mm_scheme \<Rightarrow> 'a mm_scheme \<Rightarrow> bool" where
  "freed m m' \<longleftrightarrow> page_table_size m' = page_table_size m
     \<and> (\<forall>x. page_table m' x = page_table m x \<or> page_table m' x = zero_entry)"

lemma freed_refl: "freed m m"
  by (simp add: freed_def)

lemma freed_trans: "freed m m1 \<Longrightarrow> freed m1 m2 \<Longrightarrow> freed m m2"
  unfolding freed_def by metis

lemma freed_owner: "freed m m' \<Longrightarrow> page_owner m a = 0 \<Longrightarrow> page_owner m' a = 0"
  unfolding freed_def page_owner_def by (metis zero_entry_sel(1))

lemma freed_owners: "freed m m' \<Longrightarrow> p \<noteq> 0 \<Longrightarrow> owners_used m p \<Longrightarrow> owners_used m' p"
  unfolding freed_def owners_used_def by (metis zero_entry_sel(1) unsigned_0)

lemma kfree_forward_freed:
  assumes "kfree_forward i pt = Some pt'"
  shows "pt' x = pt x \<or> pt' x = zero_entry"
proof (rule kfree_forward.raw_induct [where P = "\<lambda>i pt pt'. pt' x = pt x \<or> pt' x = zero_entry", OF _ assms], goal_cases)
  case (1 rec i pt pt')
  show ?case
  proof (cases "linked_to_next (pt i)")
    case True
    then have "pt' x = (pt(i := zero_entry)) x \<or> pt' x = zero_entry"
      using 1(1) [of "i + 1" "pt(i := zero_entry)" pt'] 1(2) by (simp del: fun_upd_apply)
    then show ?thesis by (auto split: if_splits)
  next
    case False
    then show ?thesis using 1(2) by auto
  qed
qed

lemma kfree_freed: "kfree a m = Some m' \<Longrightarrow> freed m m'"
  using kfree_forward_freed by (fastforce simp: kfree_def freed_def split: Option.bind_splits)

lemma kfree_pid_freed:
  assumes "kfree_pid p n m = Some m'"
  shows "freed m m'"
proof (rule kfree_pid_loop.raw_induct [where P = "\<lambda>p n i m m'. freed m m'", OF _ assms [unfolded kfree_pid_def]], goal_cases)
  case (1 rec p n i m m')
  note IH = 1(1) and eq = 1(2)
  show ?case
  proof (cases "i < table_len m \<and> ucast (pid (page_table m i)) = p")
    case True
    then obtain m1 where m1: "kfree (page_addr i) m = Some m1"
      "(if n - 1 = 0 then Some m1 else rec p (n - 1) (i + 1) m1) = Some m'"
      using eq by (auto split: Option.bind_splits)
    then show ?thesis
      using kfree_freed [OF m1(1)] IH by (auto intro: freed_trans split: if_splits)
  next
    case False
    then show ?thesis using eq IH by (auto simp: freed_refl split: if_splits)
  qed
qed

section \<open>The invariant holds\<close>

lemma well_formedD:
  assumes "well_formed s"
  shows "sched_inv s" "kernel_owned s" "p \<noteq> 0 \<Longrightarrow> owners_used (mmgr s) p"
    "active_procs s = of_nat (card {p. existing s p})"
    "existing s p' \<Longrightarrow> allocated_pages (procs s (proc_ptr s p')) = - 1"
  using assms unfolding well_formed_def by blast+

lemma card_existing: "card {p. existing s p} < 2 ^ 16"
proof -
  have "{p. existing s p} \<subseteq> - {0}" by (auto simp: existing_def)
  then have "card {p. existing s p} \<le> card (- {0 :: u16})" by (intro card_mono) auto
  also have "\<dots> < 2 ^ 16" by (simp add: Compl_eq_Diff_UNIV card_Diff_singleton card_word)
  finally show ?thesis .
qed

lemma active_procs_zero:
  assumes "well_formed s"
  shows "active_procs s = 0 \<longleftrightarrow> (\<forall>p. \<not> existing s p)"
proof -
  let ?n = "card {p. existing s p}"
  have "(of_nat n :: u32) = 0 \<longleftrightarrow> n = 0" if "n < 2 ^ 16" for n
    using that by (auto simp: word_of_nat_eq_0_iff dest: nat_dvd_not_less)
  note w = this
  have "(of_nat ?n :: u32) = 0 \<longleftrightarrow> ?n = 0" by (rule w [OF card_existing])
  moreover have "?n = 0 \<longleftrightarrow> (\<forall>p. \<not> existing s p)" by auto
  ultimately show ?thesis using well_formedD(4) [OF assms] by simp
qed

text \<open>An operation that keeps the process list, its entries and the page counts.\<close>

lemma well_formed_same_procs:
  assumes "well_formed s" and "proc_list s' = proc_list s" "plist s' = plist s" "active_procs s' = active_procs s"
    and "\<And>x. allocated_pages (procs s' x) = allocated_pages (procs s x)"
    and "sched_inv s'" "kernel_owned s'" "\<And>p. p \<noteq> 0 \<Longrightarrow> owners_used (mmgr s') p"
  shows "well_formed s'"
proof -
  have ex: "existing s' p = existing s p" for p using assms(2) by (simp add: existing_def)
  show ?thesis using assms unfolding well_formed_def ex by simp
qed

lemma well_formed_tick:
  assumes wf: "well_formed s" and t: "irq0_timer_handler fp s = Some (gp, s')"
  shows "well_formed s'"
proof (cases "scheduling s")
  case True
  then obtain q where q: "existing s q" using active_procs_zero [OF wf] by (auto simp: scheduling_def)
  obtain gp' u k where u: "irq0_timer_handler fp (s\<lparr>mem := mem s\<rparr>) = Some (gp', u)" "plist u = plist s"
    "proc_list u = proc_list s" "procs u = (if cpid s \<noteq> 0
      then (procs s)(proc_ptr s (cpid s) := procs s (proc_ptr s (cpid s))\<lparr>regs := load_regs (mem s) fp\<rparr>)
      else procs s)" "mmgr u = mmgr s" "active_procs u = active_procs s"
    by (rule tick_step [OF True q, of fp "mem s"]) (rule that; assumption)
  have "s' = u" using u(1) t by simp
  with u(2-6) show ?thesis
    by (intro well_formed_same_procs [OF wf])
      (use well_formedD [OF wf] in \<open>auto simp: sched_inv_def kernel_owned_def existing_def\<close>)
next
  case False
  then have "schedule fp (timer_tick s) = Some (fp, timer_tick s)"
    by (subst schedule.simps) (simp add: scheduling_def)
  then have "s' = timer_tick s" using t by (simp add: irq0_timer_handler_def)
  then show ?thesis
    by (intro well_formed_same_procs [OF wf])
      (use well_formedD [OF wf] in \<open>auto simp: sched_inv_def kernel_owned_def existing_def\<close>)
qed

lemma well_formed_page:
  assumes wf: "well_formed s" and al: "sys_kumalloc 1 perms p s = (a, s')"
  shows "well_formed s'"
proof -
  have k: "kumalloc 1 perms p (mmgr s) = (a, mmgr s')" and s': "s' = s\<lparr>mmgr := mmgr s'\<rparr>"
    using sys_kumalloc_frame [OF al] by auto
  note d = well_formedD [OF wf]
  note o = kumalloc_owner [OF sched_invD(1) [OF d(1)] k]
  have same: "proc_list s' = proc_list s" "plist s' = plist s" "active_procs s' = active_procs s" "procs s' = procs s"
    by (subst s', simp)+
  have "kernel_owned s'"
    using d(2) sched_invD(3,4) [OF d(1)] o(2) same unfolding kernel_owned_pages existing_def by simp
  then show ?thesis
    using sys_kumalloc_inv(1) [OF d(1) al] d(3) o(3) same by (intro well_formed_same_procs [OF wf]) auto
qed

lemma well_formed_release:
  assumes wf: "well_formed s" and f: "sys_kfree a s = Some s'" "a \<in> heads (mmgr s)" "unused_page s a"
  shows "well_formed s'"
proof -
  obtain m where m: "kfree a (mmgr s) = Some m" "s' = s\<lparr>mmgr := m\<rparr>" using f(1) by (auto simp: sys_kfree_def split: Option.bind_splits)
  note d = well_formedD [OF wf]
  note fr = kfree_freed [OF m(1)]
  have h: "heads m = heads (mmgr s) - {a}" "mm_inv m"
    using pages.free_live [OF sched_invD(1) [OF d(1)] f(2)] m(1) by auto
  have "sched_inv s'"
    using d(1) f(3) h m(2) unfolding sched_inv_def unused_page_def existing_def by simp
  moreover have "kernel_owned s'"
    using d(2) freed_owner [OF fr] m(2) unfolding kernel_owned_pages existing_def by simp
  ultimately show ?thesis
    using d(3) freed_owners [OF fr] m(2) by (intro well_formed_same_procs [OF wf]) auto
qed

lemma well_formed_exit:
  assumes wf: "well_formed s" and p: "existing s p" and e: "exit_proc c (ucast p) s = Some s'"
  shows "well_formed s'"
proof -
  note d = well_formedD [OF wf]
  have "(ucast p :: u32) \<noteq> 0" using p by (auto simp: existing_def ucast_u16_u32_inj [of p 0, simplified])
  note own = d(3) [OF this]
  obtain t where t: "exit_proc c (ucast p) s = Some t" "sched_inv t"
    "\<And>q. existing t q \<longleftrightarrow> existing s q \<and> q \<noteq> p" "active_procs t = active_procs s - 1"
    using exit_proc_removes [OF d(1) p d(2) own d(5) [OF p], of c] by blast
  have [simp]: "t = s'" using e t(1) by simp
  note fr = exit_proc_frame [OF e]
  have freed: "freed (mmgr s) (mmgr s')"
    using e by (auto simp: exit_proc_def sys_kfree_def Let_def split: Option.bind_splits
        dest!: kfree_freed kfree_pid_freed intro: freed_trans)
  have same: "entry_ptr s' q = entry_ptr s q" if "q \<noteq> p" for q using fr(1) that by (simp add: ucast_u16_u32_inj)
  have "{q. existing s q} = insert p {q. existing s' q}" using t(3) p by auto
  then have "card {q. existing s q} = Suc (card {q. existing s' q})" using t(3) by simp
  then have "active_procs s' = of_nat (card {q. existing s' q})" using t(4) d(4) by simp
  moreover have "kernel_owned s'"
    using d(2) freed_owner [OF freed] fr(2) t(3) same unfolding kernel_owned_pages by auto
  moreover have "allocated_pages (procs s' (proc_ptr s' q)) = - 1" if "existing s' q" for q
    using that t(3) fr(2,3) same d(5) by simp
  ultimately show ?thesis
    using t(2) freed_owners [OF freed _ d(3)] unfolding well_formed_def by simp
qed

text \<open>The two pages \<open>kfork\<close> needs.\<close>

lemma kfork_allocs:
  assumes inv: "sched_inv s" and mem: "2 \<le> free_count (mmgr s)"
  obtains proc m1 new m2 where "kumalloc 1 6 0 (mmgr s) = (proc, m1)" "kumalloc 1 6 0 m1 = (new, m2)"
    "sys_kmalloc 1 6 s = (proc, s\<lparr>mmgr := m1\<rparr>)" "sys_kmalloc 1 6 (s\<lparr>mmgr := m1\<rparr>) = (new, s\<lparr>mmgr := m2\<rparr>)"
    "proc \<noteq> 0" "new \<noteq> 0" "mm_inv m1" "mm_inv m2" "free_count (mmgr s) = Suc (Suc (free_count m2))"
proof -
  note i = sched_invD(1) [OF inv]
  obtain proc m1 where k1: "kumalloc 1 6 0 (mmgr s) = (proc, m1)" by fastforce
  note i1 = pages.alloc_inv [OF i k1]
  obtain new m2 where k2: "kumalloc 1 6 0 m1 = (new, m2)" by fastforce
  note i2 = pages.alloc_inv [OF i1 k2]
  have len: "table_len (mmgr s) \<le> 2 ^ 20" "table_len m1 \<le> 2 ^ 20" using i i1 by (simp_all add: mm_inv_def)
  note f1 = kumalloc_free_count [OF len(1) k1] and f2 = kumalloc_free_count [OF len(2) k2]
  have "proc \<noteq> 0" "new \<noteq> 0" "free_count (mmgr s) = Suc (Suc (free_count m2))" using f1 f2 mem by linarith+
  then show thesis
    using k1 k2 i1 i2 by (intro that [of proc m1 new m2]) (simp_all add: sys_kmalloc_eq sys_kumalloc_def)
qed

lemma kfork_pages:
  assumes inv: "sched_inv s" and free: "entry_ptr s q = 0" and mem: "2 \<le> free_count (mmgr s)"
  obtains p s' where "kfork eflags fn args count s = Some (ucast p, s')" "\<not> existing s p" "sched_inv s'"
    "\<And>q. existing s' q \<longleftrightarrow> existing s q \<or> q = p" "forked eflags fn count (procs s' (proc_ptr s' p))"
    "\<And>q. existing s q \<Longrightarrow> procs s' (proc_ptr s' q) = procs s (proc_ptr s q)"
    "active_procs s' = active_procs s + 1" "cpid s' = cpid s" "enable_scheduler s' = enable_scheduler s"
    "free_count (mmgr s) \<le> free_count (mmgr s') + 3"
proof -
  obtain proc m1 new m2 where a: "sys_kmalloc 1 6 s = (proc, s\<lparr>mmgr := m1\<rparr>)"
    "sys_kmalloc 1 6 (s\<lparr>mmgr := m1\<rparr>) = (new, s\<lparr>mmgr := m2\<rparr>)" "proc \<noteq> 0" "new \<noteq> 0" "mm_inv m2"
    "free_count (mmgr s) = Suc (Suc (free_count m2))"
    by (rule kfork_allocs [OF inv mem]) (rule that; assumption)
  show thesis
  proof (rule kfork_spec [OF inv free a(1,3,2,4), of eflags fn args count], goal_cases)
    case (1 p s')
    have "free_count m2 \<le> Suc (free_count (mmgr s'))"
      using kumalloc_free_count_le(1) [of m2 6 "ucast p" _ "mmgr s'"] a(5) 1
      by (cases "kumalloc 1 6 (ucast p) m2") (simp add: mm_inv_def)
    then show thesis using 1 a(6) by (intro that [of p s']) auto
  qed
qed

lemma free_pid: "\<forall>x. existing s x \<longrightarrow> x = p \<Longrightarrow> \<exists>q. entry_ptr s q = 0"
proof -
  assume a: "\<forall>x. existing s x \<longrightarrow> x = p"
  have "(if p = 1 then 2 else 1 :: u16) \<noteq> 0" "(if p = 1 then 2 else 1) \<noteq> p" by auto
  with a have "entry_ptr s (if p = 1 then 2 else 1) = 0" unfolding existing_def by blast
  then show ?thesis by blast
qed

lemma kfork_first:
  assumes "sched_inv s" and "\<forall>p. \<not> existing s p" and "n + 2 \<le> free_count (mmgr s)"
  obtains p s1 where "kfork eflags fn 0 0 s = Some (ucast p, s1)" "sched_inv s1"
    "\<And>q. existing s1 q \<longleftrightarrow> q = p" "forked eflags fn 0 (procs s1 (proc_ptr s1 p))"
    "active_procs s1 = active_procs s + 1" "cpid s1 = cpid s" "enable_scheduler s1 = enable_scheduler s"
    "n \<le> free_count (mmgr s1) + 1"
proof -
  obtain q where q: "entry_ptr s q = 0" using free_pid [of s 0] assms(2) by blast
  have "2 \<le> free_count (mmgr s)" using assms(3) by simp
  then show thesis
  proof (rule kfork_pages [OF assms(1) q, of eflags fn 0 0], goal_cases)
    case (1 p s')
    show thesis by (rule that [of p s']) (use 1 assms(2,3) in auto)
  qed
qed

lemma well_formed_kfork:
  assumes wf: "well_formed s" and free: "entry_ptr s q = 0" and mem: "2 \<le> free_count (mmgr s)"
    and k: "kfork eflags fn args count s = Some (ret, t)"
  shows "well_formed t"
proof -
  note d = well_formedD [OF wf]
  obtain proc m1 new m2 where a: "kumalloc 1 6 0 (mmgr s) = (proc, m1)" "kumalloc 1 6 0 m1 = (new, m2)"
    "sys_kmalloc 1 6 s = (proc, s\<lparr>mmgr := m1\<rparr>)" "sys_kmalloc 1 6 (s\<lparr>mmgr := m1\<rparr>) = (new, s\<lparr>mmgr := m2\<rparr>)"
    "proc \<noteq> 0" "new \<noteq> 0" "mm_inv m1" "mm_inv m2"
    by (rule kfork_allocs [OF d(1) mem]) (rule that; assumption)
  obtain p where p: "ret = ucast p" "\<not> existing s p" "sched_inv t" "\<And>q. existing t q \<longleftrightarrow> existing s q \<or> q = p"
    "forked eflags fn count (procs t (proc_ptr t p))"
    "\<And>q. existing s q \<Longrightarrow> entry_ptr t q = entry_ptr s q \<and> plist t (entry_ptr s q) = plist s (entry_ptr s q)
      \<and> procs t (proc_ptr s q) = procs s (proc_ptr s q)"
    "active_procs t = active_procs s + 1" "mmgr t = snd (kumalloc 1 6 (ucast p) m2)"
    "entry_ptr t p = new" "proc_ptr t p = proc"
    by (rule kfork_spec [OF d(1) free a(3,5,4,6), of eflags fn args count]) (use k that in auto)
  obtain stk where a3: "kumalloc 1 6 (ucast p) m2 = (stk, mmgr t)" using p(8) by (cases "kumalloc 1 6 (ucast p) m2") simp
  note i = sched_invD(1) [OF d(1)]
  note o1 = kumalloc_owner [OF i a(1)] and o2 = kumalloc_owner [OF a(7) a(2)] and o3 = kumalloc_owner [OF a(8) a3]
  have heads: "heads (mmgr s) \<subseteq> heads m1" "heads m1 \<subseteq> heads m2" "proc \<in> heads m1" "new \<in> heads m2"
    using pages.alloc_keeps_live [OF i a(1)] pages.alloc_keeps_live [OF a(7,2)]
      pages.alloc_new [OF i a(1,5)] pages.alloc_new [OF a(7) a(2,6)] by auto
  have old: "page_owner (mmgr t) b = page_owner (mmgr s) b" if "b \<in> heads (mmgr s)" for b
    using o1(2) o2(2) o3(2) heads that by (metis subsetD)
  have "page_owner (mmgr t) proc = 0" "page_owner (mmgr t) new = 0"
    using o1(1) o2(1,2) o3(2) heads a(5,6) by auto
  then have kern: "kernel_owned t"
    unfolding kernel_owned_pages
    using old d(2) [unfolded kernel_owned_pages] sched_invD(3,4) [OF d(1)] p(4,6,9,10) by auto
  have "{q. existing t q} = insert p {q. existing s q}" using p(4) by auto
  then have "active_procs t = of_nat (card {q. existing t q})" using p(2,7) d(4) by simp
  moreover have "owners_used (mmgr t) x" if "x \<noteq> 0" for x using o1(3) o2(3) o3(3) d(3) [OF that] by blast
  moreover have "allocated_pages (procs t (proc_ptr t x)) = - 1" if "existing t x" for x
    using that p(4,5,6) d(5) by (auto simp: forked_def)
  ultimately show ?thesis using p(3) kern unfolding well_formed_def by simp
qed

lemma well_formed_start:
  assumes "init_scheduler s0 = Some s" and "mm_inv (mmgr s)" and "\<And>p. p \<noteq> 0 \<Longrightarrow> owners_used (mmgr s) p"
    and "active_procs s0 = 0"
  shows "well_formed s"
proof -
  note e = init_scheduler_empty [OF assms(1,2)]
  have "active_procs s = active_procs s0"
    using assms(1) by (auto simp: init_scheduler_def sys_kmalloc_def Let_def split: prod.splits if_splits)
  then show ?thesis using e assms(3,4) by (simp add: well_formed_def kernel_owned_def)
qed

lemma well_formed_other: "well_formed s \<Longrightarrow> same_procs s s' \<Longrightarrow> well_formed s'"
  by (simp add: well_formed_def same_procs_def sched_inv_def kernel_owned_def existing_def)

lemma kernel_step_well_formed: "kernel_step s a s' \<Longrightarrow> well_formed s \<Longrightarrow> well_formed s'"
  by (cases rule: kernel_step.cases)
    (blast intro: well_formed_kfork well_formed_exit well_formed_page well_formed_release well_formed_tick
      well_formed_other)+

lemma reachable_invariant: "reachable s \<Longrightarrow> well_formed s"
  by (induction rule: reachable.induct) (blast intro: well_formed_start kernel_step_well_formed)+


section \<open>No operation hangs\<close>

lemma tick_returns:
  assumes "well_formed s"
  shows "\<exists>gp s'. irq0_timer_handler fp s = Some (gp, s')"
proof (cases "scheduling s")
  case True
  then obtain q where q: "existing s q" using active_procs_zero [OF assms] by (auto simp: scheduling_def)
  obtain gp' u where "irq0_timer_handler fp (s\<lparr>mem := mem s\<rparr>) = Some (gp', u)"
    by (rule tick_step [OF True q, of fp "mem s"])
  then show ?thesis by auto
next
  case False
  then show ?thesis unfolding irq0_timer_handler_def by (subst schedule.simps) (simp add: scheduling_def)
qed

lemma exit_returns:
  assumes wf: "well_formed s" and p: "existing s p"
  shows "\<exists>s'. exit_proc c (ucast p) s = Some s' \<and> \<not> existing s' p"
proof -
  note d = well_formedD [OF wf]
  have "(ucast p :: u32) \<noteq> 0" using p by (auto simp: existing_def ucast_u16_u32_inj [of p 0, simplified])
  from exit_proc_removes [OF d(1) p d(2) d(3) [OF this] d(5) [OF p], of c] show ?thesis by blast
qed


section \<open>The first turn of a new process\<close>

text \<open>A process just made by \<open>kfork\<close> has its turn after as many interrupts as processes come before it,
  and starts at its function.\<close>

lemma forked_first_turn:
  assumes "sched_inv s" and "scheduling s" and "cpid s = 0 \<or> existing s (cpid s)" and "existing s q" and "cpid s \<noteq> q"
    and "forked eflags fn count (procs s (proc_ptr s q))" and "length es = turns_until s q"
  shows "\<exists>log u gp. run_ticks es s = Some (log, u) \<and> last log = (q, gp) \<and> cpid u = q
    \<and> r_eip (load_regs (mem u) gp) = fn \<and> r_eflags (load_regs (mem u) gp) = eflags"
proof -
  have "turns_until s q \<noteq> 0" using turns_until_self [OF assms(4)] assms(5) by simp
  then obtain fp m es' where es: "es = (fp, m) # es'" using assms(7) by (cases es) auto
  obtain log u where u: "run_ticks es s = Some (log, u)" "cpid u = q" "fst (last log) = q"
    "q \<notin> fst ` set (butlast log)"
    using run_ticks_first_turn [OF assms(2,4,7)] es by auto
  have r: "running s q" using assms(1-4) sched_inv_own_procs by (auto simp: running_def)
  obtain gp1 w where t: "irq0_timer_handler fp (s\<lparr>mem := m\<rparr>) = Some (gp1, w)" "running w q"
    "regs (procs w (proc_ptr w q)) = regs (procs s (proc_ptr s q))"
    "load_regs (mem w) gp1 = regs (procs w (proc_ptr w (cpid w)))"
    by (rule tick_running [OF r, of fp m]) (use assms(5) in \<open>auto intro: that\<close>)
  obtain log1 where run: "run_ticks es' w = Some (log1, u)" "log = (cpid w, gp1) # log1"
    using u(1) t(1) by (auto simp: es split: Option.bind_splits)
  obtain gp where gp: "last log = (q, gp)" using u(3) by (cases "last log") auto
  have "load_regs (mem u) gp = regs (procs s (proc_ptr s q))"
    using run_ticks_keeps_context [OF t(2,3,4) run(1)] u(4) gp run(2) by auto
  then show ?thesis using u(1,2) gp assms(6) by (auto simp: forked_def)
qed

section \<open>What the steps leave out\<close>

text \<open>The system call that frees memory (number 10) does not ask who owns the page: a process that
  passes the address of a process list entry takes it out of the allocator's live pages while the
  process still exists, and the invariant of the process list is gone.\<close>

theorem sys_free_takes_process_entry:
  assumes "sched_inv s" and "existing s q" and "get_reg EAX r s = 10" and "get_reg EBX r s = entry_ptr s q"
  shows "\<exists>s'. native_irq d slash dirent0 r s = Some s' \<and> existing s' q \<and> entry_ptr s' q \<notin> heads (mmgr s')
    \<and> \<not> sched_inv s'"
proof -
  note i = sched_invD [OF assms(1)]
  obtain m where m: "kfree (entry_ptr s q) (mmgr s) = Some m" "heads m = heads (mmgr s) - {entry_ptr s q}"
    using pages.free_live [OF i(1) i(3) [OF assms(2)]] by blast
  have "native_irq d slash dirent0 r s = Some (s\<lparr>mmgr := m\<rparr>)"
    using assms(3,4) m(1) by (simp add: native_irq_def sys_kfree_def)
  moreover have "existing (s\<lparr>mmgr := m\<rparr>) q" using assms(2) by (simp add: existing_def)
  moreover from this have "\<not> sched_inv (s\<lparr>mmgr := m\<rparr>)" using m(2) sched_invD(3) by fastforce
  ultimately show ?thesis using m(2) by auto
qed

end
