(* ===== verification/Boot.thy ===== *)
theory Boot
  imports Cpu Lifecycle
begin

text \<open>
  The kernel's entry: \<open>kmain\<close> (\<open>kernel/main.c\<close>). What the linker decides (addresses of functions,
  literals and arrays, the size of the kernel) is the parameter \<open>I\<close>; what \<open>cpuid\<close> answers for a leaf,
  and the flags register at each \<open>kfork\<close>, are parameters too. Interrupts that arrive while \<open>kmain\<close>
  runs are left out of the definitions; a theorem below says what the first one does to it.
\<close>

section \<open>The code\<close>

record image =
  lit :: "string \<Rightarrow> ptr"
  img_statics :: statics
  catstr :: ptr
  img_stubs :: stubs
  timer_fp :: ptr
  ps2_fp :: ptr
  kb_fp :: ptr
  idle_fp :: ptr
  eshell_fp :: ptr
  kernel_size :: u32

text \<open>\<open>disp_str\<close> on a string in memory.\<close>

partial_function (option) string_of :: "mem \<Rightarrow> ptr \<Rightarrow> u8 list option" where
  "string_of m a = (if m a = 0 then Some [] else do { cs \<leftarrow> string_of m (a + 1); Some (m a # cs) })"

definition disp_at :: "int \<Rightarrow> int \<Rightarrow> ptr \<Rightarrow> 'a screen_scheme \<Rightarrow> 'a screen_scheme option" where
  "disp_at x y a s = map_option (\<lambda>str. disp_str x y str s) (string_of (mem s) a)"

text \<open>Memory, screen, serial port.\<close>

definition kmain_memory ::
    "image \<Rightarrow> device \<Rightarrow> (int \<Rightarrow> mmap_entry) \<Rightarrow> int \<Rightarrow> 'a cpu_scheme \<Rightarrow> 'a cpu_scheme option" where
  "kmain_memory I d mmap mmap_count s = do {
     mm \<leftarrow> init_memory mmap mmap_count (mmgr s);
     let s1 = printf (line ''Registering MMAP:'') [] (set_color 7 (s\<lparr>mmgr := mm\<rparr>));
     (p, m1) \<leftarrow> ltostr (img_statics I) (get_ram_size (mmgr s1) div 1024 div 1024) 10 0 (mem s1);
     m2 \<leftarrow> kstrcat (catstr I) (lit I ''RAM: '') p m1;
     m3 \<leftarrow> kstrcat (catstr I) (catstr I) (lit I ''Mb'') m2;
     s2 \<leftarrow> disp_at 40 12 (catstr I) (s1\<lparr>mem := m3\<rparr>);
     let (serial_res, s3) = serial_init d (textmode_print_load s2);
     Some (clear_screen (printf (line ''Finished'') [] s3)) }"

text \<open>Interrupts, timer, keyboard.\<close>

definition kmain_interrupts :: "image \<Rightarrow> device \<Rightarrow> 'a cpu_scheme \<Rightarrow> 'a cpu_scheme option" where
  "kmain_interrupts I d s =
     (let s1 = init_idt (img_stubs I) (printf ''[      ] Loading IDT'' [] s);
          s2 = snd (irq_install_handler (timer_fp I) 0 s1);
          s3 = printf (CHR 0x0D # line ''[ DONE ]'' @ ''[      ] Initializing 8042 Keyboard Controller'') []
            (s2\<lparr>master_pic_mask := master_pic_mask s2 AND NOT 1\<rparr>)
      in do {
        (res, s4) \<leftarrow> init_8042 (kb_fp I) d s3;
        let s5 = snd (irq_install_handler (ps2_fp I) 1 (s4\<lparr>master_pic_mask := master_pic_mask s4 AND NOT 2\<rparr>));
        Some (pic_remask (printf (CHR 0x0D # line ''[ DONE ]'') [] s5)) })"

text \<open>Processor, disks, and the size of the kernel, which must fit the boot loader; otherwise the kernel
  stays in a loop.\<close>

definition kmain_disks ::
    "image \<Rightarrow> device \<Rightarrow> (u32 \<Rightarrow> u32 \<times> u32 \<times> u32 \<times> u32) \<Rightarrow> 'a cpu_scheme \<Rightarrow> 'a cpu_scheme option" where
  "kmain_disks I d cpuid s = do {
     (ata_res, s1) \<leftarrow> ata_identify_all d (call_cpuid cpuid s);
     let s2 = printf (line ''Size of Kernel: %d'') [PInt (kernel_size I)] s1;
     if sint (kernel_size I) > 0x400 * 512 then None else Some s2 }"

definition kmain_scheduler :: "image \<Rightarrow> 'a cpu_scheme \<Rightarrow> 'a cpu_scheme option" where
  "kmain_scheduler I s = do {
     s1 \<leftarrow> init_scheduler (printf ''[      ] Initializing Scheduler'' [] s);
     let s2 = printf (line ''finished'') [] (printf (CHR 0x0D # line ''[ DONE ]'') [] s1);
     let s3 = disp_str 40 13 (ascii ''Finished in Time:'') s2;
     (p, m) \<leftarrow> ltostr (img_statics I) (seconds s3) 10 0 (mem s3);
     s4 \<leftarrow> disp_at (40 + 17 div 2 + 4) 13 p (s3\<lparr>mem := m\<rparr>);
     Some (if get_fs_count s4 = 0
           then disp_str 40 16 (ascii ''WARNING: Data may not be saved, no mounted filesystems!'') s4 else s4) }"

text \<open>The first two processes; the result is the shell's pid.\<close>

definition kmain_processes ::
    "image \<Rightarrow> u32 \<Rightarrow> u32 \<Rightarrow> 'a cpu_scheme \<Rightarrow> (u32 \<times> 'a cpu_scheme) option" where
  "kmain_processes I eflags eflags' s = do {
     (idle_pid, s1) \<leftarrow> kfork eflags (idle_fp I) 0 0 s;
     let s2 = disp_str 40 14 (ascii ''Error: Cannot find lOSt.rc on any mounted filesystem'') s1;
     kfork eflags' (eshell_fp I) 0 0 (disp_str 40 15 (ascii ''Booting into emergency shell!'') s2) }"

text \<open>The order in which the first \<open>kprintf\<close> evaluates its arguments is free; both write the same
  digits to the same buffer.\<close>

definition kmain_report :: "image \<Rightarrow> u32 \<Rightarrow> 'a cpu_scheme \<Rightarrow> 'a cpu_scheme option" where
  "kmain_report I shell_pid s = do {
     (p1, m1) \<leftarrow> ltostr (img_statics I) 0x55aa 10 0 (mem s);
     n \<leftarrow> kstrtol m1 p1;
     (p2, m2) \<leftarrow> ltostr (img_statics I) 0x55aa 10 3 m1;
     str \<leftarrow> string_of m2 p2;
     Some (printf (line ''forked'' @ line '' Active Procs: %d, PID: %d'') [PInt (active_procs s), PInt shell_pid]
       (printf ''Real: %d, Test: %s'' [PInt n, PStr (map (\<lambda>b. char_of (unat b)) str)] (s\<lparr>mem := m2\<rparr>))) }"

definition kmain ::
    "image \<Rightarrow> device \<Rightarrow> (u32 \<Rightarrow> u32 \<times> u32 \<times> u32 \<times> u32) \<Rightarrow> (int \<Rightarrow> mmap_entry) \<Rightarrow> int \<Rightarrow> u32 \<Rightarrow> u32
      \<Rightarrow> 'a cpu_scheme \<Rightarrow> 'a cpu_scheme option" where
  "kmain I d cpuid mmap mmap_count eflags eflags' s = do {
     s1 \<leftarrow> kmain_memory I d mmap mmap_count s;
     s2 \<leftarrow> kmain_interrupts I d s1;
     s3 \<leftarrow> kmain_disks I d cpuid s2;
     s4 \<leftarrow> kmain_scheduler I s3;
     (shell_pid, s5) \<leftarrow> kmain_processes I eflags eflags' s4;
     kmain_report I shell_pid s5 }"

section \<open>Properties\<close>

subsection \<open>The first processes\<close>

lemma same_procs_trans: "same_procs s s1 \<Longrightarrow> same_procs s1 s2 \<Longrightarrow> same_procs s s2"
  by (simp add: same_procs_def)

lemma same_procs_output:
  "same_procs s t \<Longrightarrow> same_procs s (printf f as t)" "same_procs s u \<Longrightarrow> same_procs s (disp_str x y str u)"
  "same_procs s u \<Longrightarrow> disp_at x y a u = Some u' \<Longrightarrow> same_procs s u'" "same_procs s t \<Longrightarrow> same_procs s (t\<lparr>mem := m\<rparr>)"
  by (auto simp: same_procs_def printf_def disp_str_def disp_at_def)

lemma existing_same: "same_procs s s' \<Longrightarrow> existing s' p = existing s p"
  by (simp add: same_procs_def existing_def)

lemma sched_inv_same: "same_procs s s' \<Longrightarrow> sched_inv s' = sched_inv s"
  by (simp add: same_procs_def sched_inv_def existing_def)

lemma kmain_processes_spec:
  assumes "sched_inv s" and "\<forall>p. \<not> existing s p" and "5 \<le> free_count (mmgr s)"
  shows "\<exists>p q s'. kmain_processes I eflags eflags' s = Some (ucast q, s') \<and> p \<noteq> q
    \<and> (\<forall>x. existing s' x \<longleftrightarrow> x = p \<or> x = q)
    \<and> forked eflags (idle_fp I) 0 (procs s' (proc_ptr s' p)) \<and> forked eflags' (eshell_fp I) 0 (procs s' (proc_ptr s' q))
    \<and> sched_inv s' \<and> active_procs s' = active_procs s + 2
    \<and> cpid s' = cpid s \<and> enable_scheduler s' = enable_scheduler s"
proof -
  obtain p s1 where s1: "kfork eflags (idle_fp I) 0 0 s = Some (ucast p, s1)" "sched_inv s1"
    "\<And>q. existing s1 q \<longleftrightarrow> q = p" "forked eflags (idle_fp I) 0 (procs s1 (proc_ptr s1 p))"
    "active_procs s1 = active_procs s + 1" "2 \<le> free_count (mmgr s1)" "cpid s1 = cpid s"
    "enable_scheduler s1 = enable_scheduler s"
    by (rule kfork_first [OF assms(1,2), of 3 eflags "idle_fp I"]) (use assms(3) that in simp_all)
  let ?s2 = "disp_str 40 15 (ascii ''Booting into emergency shell!'')
    (disp_str 40 14 (ascii ''Error: Cannot find lOSt.rc on any mounted filesystem'') s1)"
  have same: "same_procs s1 ?s2" by (intro same_procs_output(2)) (simp add: same_procs_def)
  obtain q1 where q1: "entry_ptr ?s2 q1 = 0" using free_pid [of ?s2 p] existing_same [OF same] s1(3) by blast
  have inv2: "sched_inv ?s2" "2 \<le> free_count (mmgr ?s2)"
    using sched_inv_same [OF same] s1(2,6) same by (simp_all add: same_procs_def)
  obtain q s3 where s3: "kfork eflags' (eshell_fp I) 0 0 ?s2 = Some (ucast q, s3)" "\<not> existing ?s2 q" "sched_inv s3"
    "\<And>x. existing s3 x \<longleftrightarrow> existing ?s2 x \<or> x = q" "forked eflags' (eshell_fp I) 0 (procs s3 (proc_ptr s3 q))"
    "\<And>x. existing ?s2 x \<Longrightarrow> procs s3 (proc_ptr s3 x) = procs ?s2 (proc_ptr ?s2 x)"
    "active_procs s3 = active_procs ?s2 + 1" "cpid s3 = cpid ?s2" "enable_scheduler s3 = enable_scheduler ?s2"
    by (rule kfork_pages [OF inv2(1) q1 inv2(2), of eflags' "eshell_fp I" 0 0]) (rule that; assumption)
  have p: "existing ?s2 p" "procs ?s2 (proc_ptr ?s2 p) = procs s1 (proc_ptr s1 p)"
    using existing_same [OF same] s1(3) same by (simp_all add: same_procs_def)
  have "kmain_processes I eflags eflags' s = Some (ucast q, s3)"
    using s1(1) s3(1) by (simp add: kmain_processes_def)
  moreover have "p \<noteq> q" using s3(2) p(1) by auto
  moreover have "existing s3 x \<longleftrightarrow> x = p \<or> x = q" for x using s3(4) existing_same [OF same] s1(3) by simp
  moreover have "active_procs s3 = active_procs s + 2" using s3(7) s1(5) same by (simp add: same_procs_def)
  moreover have "cpid s3 = cpid s" "enable_scheduler s3 = enable_scheduler s"
    using s3(8,9) s1(7,8) same by (simp_all add: same_procs_def)
  ultimately show ?thesis using s3(3,5) s3(6) [OF p(1)] p(2) s1(4) by (intro exI [of _ p] exI [of _ q] exI [of _ s3]) simp
qed

text \<open>With five free pages and an empty process list the kernel's entry makes exactly two processes,
  the idle loop and the shell, each a kernel process that starts at its function with the flags
  it was made with, and keeps the process list's invariant.\<close>

theorem kmain_processes_made:
  assumes "sched_inv s" and "\<forall>p. \<not> existing s p" and "5 \<le> free_count (mmgr s)"
  shows "\<exists>p q s'. kmain_processes I eflags eflags' s = Some (ucast q, s') \<and> p \<noteq> q
    \<and> (\<forall>x. existing s' x \<longleftrightarrow> x = p \<or> x = q)
    \<and> forked eflags (idle_fp I) 0 (procs s' (proc_ptr s' p)) \<and> forked eflags' (eshell_fp I) 0 (procs s' (proc_ptr s' q))
    \<and> sched_inv s' \<and> active_procs s' = active_procs s + 2"
  using kmain_processes_spec [OF assms, of I eflags eflags'] by blast

text \<open>Claim C14: then the shell starts: counting from the end of the kernel's entry, the first or the
  second timer interrupt resumes the shell, at its start and with its flags, whatever is in memory at each
  interrupt.\<close>

theorem shell_starts:
  assumes "sched_inv s" and "\<forall>p. \<not> existing s p" and "5 \<le> free_count (mmgr s)"
    and "enable_scheduler s \<noteq> 0" and "active_procs s = 0" and "cpid s = 0"
  shows "\<exists>q s' n. kmain_processes I eflags eflags' s = Some (ucast q, s') \<and> (n = 1 \<or> n = 2)
    \<and> (\<forall>es. length es = n \<longrightarrow> (\<exists>log u gp. run_ticks es s' = Some (log, u) \<and> last log = (q, gp)
        \<and> r_eip (load_regs (mem u) gp) = eshell_fp I \<and> r_eflags (load_regs (mem u) gp) = eflags'))"
proof -
  obtain p q s' where k: "kmain_processes I eflags eflags' s = Some (ucast q, s')"
    "\<forall>x. existing s' x \<longleftrightarrow> x = p \<or> x = q" "forked eflags' (eshell_fp I) 0 (procs s' (proc_ptr s' q))"
    "sched_inv s'" "active_procs s' = active_procs s + 2" "cpid s' = cpid s" "enable_scheduler s' = enable_scheduler s"
    using kmain_processes_spec [OF assms(1-3), of I eflags eflags'] by blast
  have q: "existing s' q" "cpid s' \<noteq> q" using k(2,6) assms(6) by (auto simp: existing_def)
  have sc: "scheduling s'" using k(5,7) assms(4,5) by (simp add: scheduling_def)
  let ?J = "{j. 0 < j \<and> j \<le> unat q \<and> existing s' (of_nat j)}"
  have "?J \<subseteq> {unat p, unat q}"
  proof
    fix j assume j: "j \<in> ?J"
    then have "unat (of_nat j :: u16) = j" using unat_lt_u16 [of q] by (simp add: unat_of_nat)
    then show "j \<in> {unat p, unat q}" using j k(2) by auto
  qed
  then have "card ?J \<le> card {unat p, unat q}" by (intro card_mono) auto
  also have "\<dots> \<le> 2" by (simp add: card_insert_if)
  finally have "turns_until s' q \<le> 2" using k(6) assms(6) by (simp add: turns_until_def)
  then have n: "turns_until s' q = 1 \<or> turns_until s' q = 2" using turns_until_self [OF q(1)] q(2) by auto
  have "\<exists>log u gp. run_ticks es s' = Some (log, u) \<and> last log = (q, gp)
      \<and> r_eip (load_regs (mem u) gp) = eshell_fp I \<and> r_eflags (load_regs (mem u) gp) = eflags'"
    if "length es = turns_until s' q" for es
    using forked_first_turn [OF k(4) sc _ q k(3) that] k(6) assms(6) by auto
  then show ?thesis using k(1) n by blast
qed

subsection \<open>From the start of the scheduler on\<close>

lemma same_procs_refl: "same_procs s s"
  by (simp add: same_procs_def)

lemma string_of_cstr: "cstr_at m a cs \<Longrightarrow> string_of m a = Some cs"
proof (induction cs arbitrary: a)
  case Nil
  then show ?case by (subst string_of.simps) (simp add: cstr_at_def)
next
  case (Cons c cs)
  then show ?case by (subst string_of.simps) (simp add: cstr_at_Cons)
qed

lemma init_scheduler_pages:
  assumes "sys_kmalloc 64 6 s = (a, s1)" and "a \<noteq> 0"
  obtains s2 where "init_scheduler (printf f as s) = Some s2" "mmgr s2 = mmgr s1" "mem s2 = mem s"
    "vga_buffer s2 = vga_buffer s"
  using assms by (auto simp: init_scheduler_def sys_kmalloc_def printf_def Let_def split: prod.splits intro: that)

text \<open>The number of seconds is printed by \<open>ltostr\<close>, whose digits must be there and not on the screen.\<close>

lemma kmain_scheduler_returns:
  assumes i: "init_scheduler (printf ''[      ] Initializing Scheduler'' [] s) = Some s1"
    and L: "statics_ok (img_statics I) (mem s1)" and ap: "apart (ltostr_arr (img_statics I)) 36 (vga_buffer s1) 4000"
  obtains s4 where "kmain_scheduler I s = Some s4" "same_procs s1 s4"
proof -
  let ?s2 = "printf (line ''finished'') [] (printf (CHR 0x0D # line ''[ DONE ]'') [] s1)"
  let ?s3 = "disp_str 40 13 (ascii ''Finished in Time:'') ?s2"
  have out: "mem ?s3 x = mem s1 x" if "\<not> in_region (vga_buffer s1) 4000 x" for x
  proof -
    have "length (ascii ''Finished in Time:'') = 17" by (simp add: ascii_def)
    then show ?thesis using that by (simp add: disp_str_def printf_def put_chars_outside)
  qed
  have "bytes_at (mem ?s3) (ltostr_arr (img_statics I)) ltostr_digits"
    using L ap out by (subst bytes_at_cong [where m = "mem s1"]) (auto simp: statics_ok_def apart_iff)
  then have L3: "statics_ok (img_statics I) (mem ?s3)" using L by (simp add: statics_ok_def)
  obtain p m cs where l: "ltostr (img_statics I) (seconds ?s3) 10 0 (mem ?s3) = Some (p, m)" "cstr_at m p cs"
    by (rule ltostr_digits_at [OF L3, of 10 0 "seconds ?s3"]) (use that in auto)
  let ?t = "disp_str (40 + 17 div 2 + 4) 13 cs (?s3\<lparr>mem := m\<rparr>)"
  have d: "disp_at (40 + 17 div 2 + 4) 13 p (?s3\<lparr>mem := m\<rparr>) = Some ?t"
    using string_of_cstr [OF l(2)] by (simp add: disp_at_def)
  let ?w = "disp_str 40 16 (ascii ''WARNING: Data may not be saved, no mounted filesystems!'') ?t"
  have "same_procs s1 ?t" "same_procs s1 ?w" by (intro same_procs_output(1,2,4) same_procs_refl)+
  then have "same_procs s1 (if get_fs_count ?t = 0 then ?w else ?t)" by simp
  moreover have "kmain_scheduler I s = Some (if get_fs_count ?t = 0 then ?w else ?t)"
    using i l(1) d by (simp add: kmain_scheduler_def Let_def)
  ultimately show thesis by (rule that [rotated])
qed

text \<open>Claim C12: when the scheduler's list can be allocated on a sound page table, the kernel's entry starts the
  scheduler and makes its two processes, and the state it ends in is reachable: everything proved of
  reachable states holds from there on.\<close>

theorem kmain_reachable:
  assumes "sys_kmalloc 64 6 s = (a, s1)" and "a \<noteq> 0" and "mm_inv (mmgr s1)"
    and "\<And>p. p \<noteq> 0 \<Longrightarrow> owners_used (mmgr s1) p" and "5 \<le> free_count (mmgr s1)" and "active_procs s = 0"
    and "statics_ok (img_statics I) (mem s)" and "apart (ltostr_arr (img_statics I)) 36 (vga_buffer s) 4000"
  shows "\<exists>s4 p s5. kmain_scheduler I s = Some s4 \<and> kmain_processes I eflags eflags' s4 = Some (p, s5)
    \<and> reachable s5 \<and> active_procs s5 = 2"
proof -
  obtain s2 where s2: "init_scheduler (printf ''[      ] Initializing Scheduler'' [] s) = Some s2"
    "mmgr s2 = mmgr s1" "mem s2 = mem s" "vga_buffer s2 = vga_buffer s"
    by (rule init_scheduler_pages [OF assms(1,2)])
  obtain s4 where s4: "kmain_scheduler I s = Some s4" "same_procs s2 s4"
    by (rule kmain_scheduler_returns [OF s2(1)]) (use assms(7,8) s2(3,4) in simp_all)
  have m: "mmgr s4 = mmgr s1" using s4(2) s2(2) by (simp add: same_procs_def)
  have "reachable s2"
    by (rule reachable.start [OF s2(1)]) (use assms(3,4,6) s2(2) in \<open>simp_all add: printf_def\<close>)
  then have r4: "reachable s4" by (rule reachable.step [OF _ other_step [OF s4(2)]])
  have e: "sched_inv s4" "\<forall>p. \<not> existing s4 p"
    using init_scheduler_empty [OF s2(1)] assms(3) s2(2) sched_inv_same [OF s4(2)] existing_same [OF s4(2)] by auto
  have free: "5 \<le> free_count (mmgr s4)" using assms(5) m by simp
  have zero: "active_procs s4 = 0" using active_procs_zero [OF reachable_invariant [OF r4]] e(2) by simp
  obtain p u where u: "kfork eflags (idle_fp I) 0 0 s4 = Some (ucast p, u)" "\<And>q. existing u q \<longleftrightarrow> q = p"
    "2 \<le> free_count (mmgr u)"
    by (rule kfork_first [OF e, of 3 eflags "idle_fp I"]) (use free that in simp_all)
  let ?v = "disp_str 40 15 (ascii ''Booting into emergency shell!'')
    (disp_str 40 14 (ascii ''Error: Cannot find lOSt.rc on any mounted filesystem'') u)"
  have same: "same_procs u ?v" by (intro same_procs_output(2) same_procs_refl)
  obtain q :: u16 and s5 where k: "kmain_processes I eflags eflags' s4 = Some (ucast q, s5)"
    "active_procs s5 = active_procs s4 + 2"
    using kmain_processes_spec [OF e free, of I eflags eflags'] by blast
  have v: "kfork eflags' (eshell_fp I) 0 0 ?v = Some (ucast q, s5)" using k(1) u(1) by (simp add: kmain_processes_def)
  obtain x where x: "entry_ptr s4 x = 0" using free_pid [of s4 0] e(2) by blast
  obtain y where y: "entry_ptr ?v y = 0" using free_pid [of ?v p] existing_same [OF same] u(2) by blast
  have "reachable u" using reachable.step [OF r4 kfork_step [OF u(1) x]] free by simp
  then have "reachable ?v" by (rule reachable.step [OF _ other_step [OF same]])
  moreover have "2 \<le> free_count (mmgr ?v)" using same u(3) by (simp add: same_procs_def)
  ultimately have "reachable s5" using reachable.step [OF _ kfork_step [OF v y]] by blast
  then show ?thesis using s4(1) k zero by auto
qed

subsection \<open>An interrupt in between\<close>

lemma tick_only:
  assumes "scheduling s" and "\<forall>x. existing s x \<longleftrightarrow> x = p"
  shows "\<exists>log u. run_ticks es s = Some (log, u) \<and> fst ` set log \<subseteq> {p}"
  using assms
proof (induction es arbitrary: s)
  case (Cons e es)
  obtain fp m where e: "e = (fp, m)" by fastforce
  have p: "existing s p" using Cons.prems(2) by simp
  obtain gp s' k where t: "irq0_timer_handler fp (s\<lparr>mem := m\<rparr>) = Some (gp, s')"
    "cpid s' = cpid s + of_nat k" "next_in_turn s k" "proc_list s' = proc_list s" "scheduling s'"
    by (rule tick_step [OF Cons.prems(1) p, of fp m]) (rule that; assumption)
  have "existing s (cpid s')" using t(2,3) by (simp add: next_in_turn_def existing_def)
  then have c: "cpid s' = p" using Cons.prems(2) by simp
  have "\<forall>x. existing s' x \<longleftrightarrow> x = p" using Cons.prems(2) existing_tick [OF t(4)] by simp
  then obtain log u where "run_ticks es s' = Some (log, u)" "fst ` set log \<subseteq> {p}"
    using Cons.IH [OF t(5)] by blast
  then show ?case using t(1) c by (simp add: e)
qed simp

text \<open>Claim C25: a timer interrupt between the two \<open>kfork\<close>s abandons the kernel's entry. It is not a
  process, so its registers are saved nowhere: the interrupt resumes the idle loop at its start and leaves
  every process structure as it is, and so does every later one, so the shell is never made.\<close>

theorem timer_abandons_kmain:
  assumes "sched_inv s" and "\<forall>p. \<not> existing s p" and "2 \<le> free_count (mmgr s)"
    and "enable_scheduler s \<noteq> 0" and "active_procs s = 0" and "cpid s = 0"
  shows "\<exists>p s1. kfork eflags fn 0 0 s = Some (ucast p, s1)
    \<and> (\<forall>fp m. \<exists>gp s2. irq0_timer_handler fp (s1\<lparr>mem := m\<rparr>) = Some (gp, s2) \<and> procs s2 = procs s1
        \<and> r_eip (load_regs (mem s2) gp) = fn)
    \<and> (\<forall>es. \<exists>log u. run_ticks es s1 = Some (log, u) \<and> fst ` set log \<subseteq> {p})"
proof -
  obtain p s1 where s1: "kfork eflags fn 0 0 s = Some (ucast p, s1)"
    "\<And>q. existing s1 q \<longleftrightarrow> q = p" "forked eflags fn 0 (procs s1 (proc_ptr s1 p))"
    "active_procs s1 = active_procs s + 1" "cpid s1 = cpid s" "enable_scheduler s1 = enable_scheduler s"
    by (rule kfork_first [OF assms(1,2), of 0 eflags fn]) (use assms(3) that in auto)
  have sc: "scheduling s1" using s1(4,6) assms(4,5) by (simp add: scheduling_def)
  have only: "\<forall>x. existing s1 x \<longleftrightarrow> x = p" using s1(2) by simp
  have "\<exists>gp s2. irq0_timer_handler fp (s1\<lparr>mem := m\<rparr>) = Some (gp, s2) \<and> procs s2 = procs s1
      \<and> r_eip (load_regs (mem s2) gp) = fn" for fp m
  proof -
    obtain gp s2 k where t: "irq0_timer_handler fp (s1\<lparr>mem := m\<rparr>) = Some (gp, s2)"
      "cpid s2 = cpid s1 + of_nat k" "next_in_turn s1 k" "plist s2 = plist s1" "proc_list s2 = proc_list s1"
      "procs s2 = (if cpid s1 \<noteq> 0
        then (procs s1)(proc_ptr s1 (cpid s1) := procs s1 (proc_ptr s1 (cpid s1))\<lparr>regs := load_regs m fp\<rparr>)
        else procs s1)"
      "load_regs (mem s2) gp = regs (procs s2 (proc_ptr s2 (cpid s2)))"
      by (rule tick_step [OF sc, of p fp m]) (use only that in auto)
    have "existing s1 (cpid s2)" using t(2,3) by (simp add: next_in_turn_def existing_def)
    then have "cpid s2 = p" using only by simp
    then show ?thesis using t s1(3,5) assms(6) by (simp add: forked_def)
  qed
  then show ?thesis using s1(1) tick_only [OF sc only] by blast
qed

subsection \<open>Interrupts and keyboard\<close>

lemma init_idt_frame:
  "master_pic_mask (init_idt st s) = 0xff" "slave_pic_mask (init_idt st s) = 0xff"
  "n \<noteq> 0x80 \<Longrightarrow> irq_handlers (init_idt st s) n = irq_handlers s n"
  by (simp_all add: init_idt_def int_install_handler_def irq_remap_def outb_def idt_set_def Let_def)

text \<open>Claim C34: with a working keyboard controller, after this part of the kernel's entry the timer's and the
  keyboard's handler serve the first two interrupt lines, whose gates lead to the two first stubs, the
  keyboard's driver passes its characters on, and the last thing sent to the interrupt controllers
  unmasks these two lines and no other.\<close>

theorem kmain_interrupts_ready:
  assumes "working_8042 cfg d" and "irq_handlers s 0x20 = 0" and "irq_handlers s 0x21 = 0"
  shows "\<exists>s' tr. kmain_interrupts I d s = Some s' \<and> irq_handlers s' 0x20 = timer_fp I \<and> irq_handlers s' 0x21 = ps2_fp I
    \<and> ps2_listener s' = kb_fp I
    \<and> gate_to (irq0 (img_stubs I)) (idt_entries s' 0x20) \<and> gate_to (irq1 (img_stubs I)) (idt_entries s' 0x21)
    \<and> trace s' = Outb 0xa1 0xff # Outb 0x21 0xfc # tr"
proof -
  let ?t = "printf ''[      ] Loading IDT'' [] s"
  let ?s1 = "init_idt (img_stubs I) ?t"
  let ?s2 = "snd (irq_install_handler (timer_fp I) 0 ?s1)"
  let ?s3 = "printf (CHR 0x0D # line ''[ DONE ]'' @ ''[      ] Initializing 8042 Keyboard Controller'') []
            (?s2\<lparr>master_pic_mask := master_pic_mask ?s2 AND NOT 1\<rparr>)"
  note g = init_idt_gates_lemma [OF refl, of "img_stubs I" ?t, THEN conjunct1]
  have gates: "gate_to (irq0 (img_stubs I)) (idt_entries ?s1 0x20)" "gate_to (irq1 (img_stubs I)) (idt_entries ?s1 0x21)"
    using g [THEN spec, of "0x20"] g [THEN spec, of "0x21"] by simp_all
  have s2: "irq_handlers ?s2 = (irq_handlers ?s1)(0x20 := timer_fp I)" "idt_entries ?s2 = idt_entries ?s1"
    "master_pic_mask ?s2 = 0xff" "slave_pic_mask ?s2 = 0xff"
    using assms(2) init_idt_frame(3) [of "0x20" "img_stubs I" ?t]
    by (simp_all add: irq_install_handler_def init_idt_frame(1,2) printf_def)
  obtain s4 where s4: "init_8042 (kb_fp I) d ?s3 = Some (0, s4)" "ps2_listener s4 = kb_fp I"
    using init_8042_never_writes_configuration [OF assms(1), of "kb_fp I" ?s3] by blast
  note e = init_8042_frame [OF s4(1)]
  have "irq_handlers s4 = irq_handlers ?s3 \<and> idt_entries s4 = idt_entries ?s3
      \<and> master_pic_mask s4 = master_pic_mask ?s3 \<and> slave_pic_mask s4 = slave_pic_mask ?s3"
    using arg_cong [OF e, of irq_handlers] arg_cong [OF e, of idt_entries]
      arg_cong [OF e, of master_pic_mask] arg_cong [OF e, of slave_pic_mask] by simp
  then have f4: "irq_handlers s4 = (irq_handlers ?s1)(0x20 := timer_fp I)" "idt_entries s4 = idt_entries ?s1"
    "master_pic_mask s4 = 0xfe" "slave_pic_mask s4 = 0xff"
    using s2 by (simp_all add: printf_def)
  have h: "irq_handlers ?s1 0x21 = 0" using init_idt_frame(3) [of "0x21" "img_stubs I" ?t] assms(3) by (simp add: printf_def)
  let ?s5 = "snd (irq_install_handler (ps2_fp I) 1 (s4\<lparr>master_pic_mask := master_pic_mask s4 AND NOT 2\<rparr>))"
  let ?s' = "pic_remask (printf (CHR 0x0D # line ''[ DONE ]'') [] ?s5)"
  have "kmain_interrupts I d s = Some ?s'"
    using s4(1) by (simp add: kmain_interrupts_def Let_def)
  moreover have "irq_handlers ?s' 0x20 = timer_fp I \<and> irq_handlers ?s' 0x21 = ps2_fp I \<and> ps2_listener ?s' = kb_fp I
      \<and> idt_entries ?s' = idt_entries ?s1 \<and> (\<exists>tr. trace ?s' = Outb 0xa1 0xff # Outb 0x21 0xfc # tr)"
    using f4 h s4(2) by (simp add: irq_install_handler_def pic_remask_def printf_def outb_def)
  ultimately show ?thesis using gates by metis
qed

end
