(* ===== verification/RoundRobin.thy ===== *)
theory RoundRobin
  imports Lifecycle
begin

text \<open>
  The scheduler (\<open>schedule\<close> in \<open>kernel/proc/scheduler.c\<close>, called by the timer interrupt) implements a
  queue: the abstract state is the list of the processes in the order of their turns, the current one
  last. The theory relates the array of entries and the wrapping 16-bit index to that list.
\<close>

section \<open>The queue\<close>

definition pid_count :: nat where "pid_count = 2 ^ 16"

text \<open>The indexes after \<open>c\<close>, around the ring, for which \<open>P\<close> holds.\<close>

definition ring :: "(u16 \<Rightarrow> bool) \<Rightarrow> u16 \<Rightarrow> u16 list" where
  "ring P c = filter P (map (\<lambda>j. c + of_nat j) [1..<Suc pid_count])"

definition turn_queue :: "'a sched_scheme \<Rightarrow> u16 list" where
  "turn_queue s = ring (existing s) (cpid s)"

lemma pid_count_word [simp]: "(of_nat pid_count :: u16) = 0"
  by (simp add: pid_count_def)

text \<open>Turning the ring of indexes so that it begins after the first one for which \<open>P\<close> holds.\<close>

lemma ring_turn:
  fixes c :: u16
  assumes k: "0 < k" "k \<le> pid_count" and P: "P (c + of_nat k)"
    and no: "\<And>j. 0 < j \<Longrightarrow> j < k \<Longrightarrow> \<not> P (c + of_nat j)"
  shows "ring P c = (c + of_nat k) # filter P (map (\<lambda>j. c + of_nat j) [Suc k..<Suc pid_count])"
    and "ring P (c + of_nat k) = rotate1 (ring P c)"
proof -
  let ?f = "\<lambda>j. c + of_nat j"
  have none: "filter P (map ?f [1..<k]) = []" using no by (auto simp: filter_empty_conv)
  have "[1..<Suc pid_count] = [1..<k] @ k # [Suc k..<Suc pid_count]"
    using k upt_add_eq_append [of 1 k "Suc pid_count - k"] by (simp add: upt_conv_Cons del: upt_Suc)
  then show one: "ring P c = (c + of_nat k) # filter P (map ?f [Suc k..<Suc pid_count])"
    unfolding ring_def using none P by (simp del: upt_Suc)
  have "map (\<lambda>j. c + of_nat k + of_nat j) [1..<Suc pid_count] = map ?f [Suc k..<Suc pid_count + k]"
    by (rule nth_equalityI) (simp_all add: ac_simps del: upt_Suc)
  also have "[Suc k..<Suc pid_count + k] = [Suc k..<Suc pid_count] @ [Suc pid_count..<Suc pid_count + k]"
    using k upt_add_eq_append [of "Suc k" "Suc pid_count" k] by (simp del: upt_Suc)
  finally have two: "map (\<lambda>j. c + of_nat k + of_nat j) [1..<Suc pid_count] =
      map ?f [Suc k..<Suc pid_count] @ map ?f [Suc pid_count..<Suc pid_count + k]" by (simp del: upt_Suc)
  have "map ?f [Suc pid_count..<Suc pid_count + k] = map ?f [1..<Suc k]"
    by (rule nth_equalityI) (simp_all del: upt_Suc)
  also have "[1..<Suc k] = [1..<k] @ [k]" using k(1) by (cases k) simp_all
  finally have "filter P (map ?f [Suc pid_count..<Suc pid_count + k]) = [c + of_nat k]"
    using none P by simp
  then show "ring P (c + of_nat k) = rotate1 (ring P c)" unfolding one by (simp only: ring_def two filter_append rotate1.simps)
qed

lemma set_turn_queue: "set (turn_queue s) = {p. existing s p}"
proof -
  have "\<exists>j. 0 < j \<and> j < Suc pid_count \<and> p = cpid s + of_nat j" for p
  proof (cases "p = cpid s")
    case True
    then show ?thesis by (intro exI [of _ pid_count]) (simp add: pid_count_def)
  next
    case False
    then have "0 < unat (p - cpid s)" by (simp add: unat_gt_0)
    then show ?thesis using unat_lt_u16 [of "p - cpid s"]
      by (intro exI [of _ "unat (p - cpid s)"]) (simp add: pid_count_def)
  qed
  then show ?thesis by (fastforce simp: turn_queue_def ring_def simp del: upt_Suc)
qed

lemma distinct_turn_queue: "distinct (turn_queue s)"
proof -
  have inj: "j = i" if "(of_nat j :: u16) = of_nat i" "j < pid_count" "i < pid_count" for i j
    using arg_cong [OF that(1), of unat] that(2,3) by (simp add: pid_count_def unat_of_nat)
  have "j = i" if "(of_nat j :: u16) = of_nat i" "0 < j" "j < Suc pid_count" "0 < i" "i < Suc pid_count" for i j
    using that inj [of "j - 1" "i - 1"] by (cases j; cases i) simp_all
  then have "inj_on (\<lambda>j. cpid s + of_nat j) (set [1..<Suc pid_count])" by (auto simp: inj_on_def simp del: upt_Suc)
  then show ?thesis by (simp add: turn_queue_def ring_def distinct_map del: upt_Suc)
qed

lemma next_in_turn_bound:
  assumes "next_in_turn s k"
  shows "k \<le> pid_count"
proof (rule ccontr)
  assume "\<not> k \<le> pid_count"
  then have "0 < k - pid_count" "k - pid_count < k" by (simp_all add: pid_count_def)
  then have "\<not> existing s (cpid s + of_nat (k - pid_count))"
    using assms unfolding next_in_turn_def existing_def by blast
  moreover have "(of_nat (k - pid_count) :: u16) = of_nat k"
    using \<open>\<not> k \<le> pid_count\<close> by (simp add: of_nat_diff)
  ultimately show False using assms by (simp add: next_in_turn_def existing_def)
qed

lemma turn_queue_step:
  assumes "next_in_turn s k" and "cpid s' = cpid s + of_nat k" and "proc_list s' = proc_list s"
  shows "cpid s' = hd (turn_queue s)" and "turn_queue s' = rotate1 (turn_queue s)"
proof -
  have k: "0 < k" "existing s (cpid s + of_nat k)" "\<And>j. 0 < j \<Longrightarrow> j < k \<Longrightarrow> \<not> existing s (cpid s + of_nat j)"
    using assms(1) by (auto simp: next_in_turn_def existing_def)
  note r = ring_turn [where P = "existing s" and c = "cpid s" and k = k, OF k(1) next_in_turn_bound [OF assms(1)] k(2) k(3)]
  show "cpid s' = hd (turn_queue s)" by (simp add: turn_queue_def r(1) assms(2) del: upt_Suc)
  have "existing s' = existing s" using assms(3) by (simp add: existing_def fun_eq_iff)
  then show "turn_queue s' = rotate1 (turn_queue s)" unfolding turn_queue_def assms(2) using r(2) by simp
qed

section \<open>The timer interrupt turns the queue\<close>

text \<open>One interrupt: the processes have left the memory \<open>m\<close>, the frame is at \<open>fp\<close>.\<close>

definition timer_event :: "ptr \<times> mem \<Rightarrow> 'a sched_scheme \<Rightarrow> 'a sched_scheme option" where
  "timer_event = (\<lambda>(fp, m) s. map_option snd (irq0_timer_handler fp (s\<lparr>mem := m\<rparr>)))"

definition serving :: "'a sched_scheme \<Rightarrow> bool" where
  "serving s \<longleftrightarrow> scheduling s \<and> (\<exists>p. existing s p)"

interpretation rr: round_robin serving turn_queue cpid timer_event
proof
  fix s :: "'a sched_scheme" and e :: "ptr \<times> mem"
  assume ok: "serving s"
  then obtain p where p: "scheduling s" "existing s p" by (auto simp: serving_def)
  then show "turn_queue s \<noteq> []" using set_turn_queue [of s] by auto
  obtain fp m where e: "e = (fp, m)" by fastforce
  obtain gp s' k where t: "irq0_timer_handler fp (s\<lparr>mem := m\<rparr>) = Some (gp, s')"
    "cpid s' = cpid s + of_nat k" "next_in_turn s k" "proc_list s' = proc_list s" "scheduling s'"
    by (rule tick_step [OF p, of fp m]) (rule that; assumption)
  have "serving s'" using t(4,5) p(2) by (auto simp: serving_def existing_def)
  then show "\<exists>s'. timer_event e s = Some s' \<and> serving s' \<and> turn_queue s' = rotate1 (turn_queue s)
      \<and> cpid s' = hd (turn_queue s)"
    using t(1) turn_queue_step [OF t(3,2,4)] by (simp add: timer_event_def e)
qed

lemma run_ticks_events:
  "run_ticks es s = Some (log, u) \<Longrightarrow> \<exists>ss. run_events timer_event es s = Some ss \<and> map cpid ss = map fst log"
proof (induction es arbitrary: s log)
  case (Cons e es)
  then show ?case by (cases e) (fastforce simp: timer_event_def split: Option.bind_splits)
qed simp

lemma run_events_ticks:
  "run_events timer_event es s = Some ss \<Longrightarrow> \<exists>log u. run_ticks es s = Some (log, u)"
proof (induction es arbitrary: s ss)
  case (Cons e es)
  then show ?case by (cases e) (fastforce simp: timer_event_def split: Option.bind_splits)
qed simp

text \<open>Claim C6: the timer interrupt implements a round-robin queue. The queue holds each process there is
  once; each interrupt resumes the process in front and moves it to the end; so a sequence of
  interrupts resumes the processes in the order of the queue, over and over.\<close>

theorem schedule_refines_round_robin:
  assumes "scheduling s" and "existing s p"
  shows "set (turn_queue s) = {q. existing s q} \<and> distinct (turn_queue s)
    \<and> (\<exists>gp s'. irq0_timer_handler fp (s\<lparr>mem := m\<rparr>) = Some (gp, s') \<and> cpid s' = hd (turn_queue s)
        \<and> turn_queue s' = rotate1 (turn_queue s))
    \<and> (\<exists>log u. run_ticks es s = Some (log, u)
        \<and> map fst log = map (\<lambda>i. turn_queue s ! (i mod length (turn_queue s))) [0..<length es])"
proof -
  have ok: "serving s" using assms by (auto simp: serving_def)
  obtain s' where s': "timer_event (fp, m) s = Some s'" "turn_queue s' = rotate1 (turn_queue s)" "cpid s' = hd (turn_queue s)"
    using rr.turn [OF ok] by blast
  obtain ss where ss: "run_events timer_event es s = Some ss"
    "map cpid ss = map (\<lambda>i. turn_queue s ! (i mod length (turn_queue s))) [0..<length es]"
    using rr.run_turns [OF ok] by blast
  obtain log u where run: "run_ticks es s = Some (log, u)" using run_events_ticks [OF ss(1)] by blast
  have "map fst log = map cpid ss" using run_ticks_events [OF run] ss(1) by auto
  then show ?thesis using set_turn_queue [of s] distinct_turn_queue [of s] s' ss(2) run by (auto simp: timer_event_def)
qed

text \<open>The exit of a process takes it out of the queue and leaves the order of the others.\<close>

theorem exit_leaves_queue:
  assumes "exit_proc c (ucast p) s = Some s'"
  shows "turn_queue s' = removeAll p (turn_queue s)"
proof -
  note e = exit_proc_frame [OF assms]
  have "existing s' q \<longleftrightarrow> existing s q \<and> q \<noteq> p" for q
    using e(1) by (auto simp: existing_def ucast_u16_u32_inj)
  then have "existing s' = (\<lambda>q. existing s q \<and> q \<noteq> p)" by auto
  then show ?thesis
    using e(4) by (simp add: turn_queue_def ring_def removeAll_filter_not_eq eq_commute [of p] del: upt_Suc)
qed

end
