(* ===== verification/Floppy.thy ===== *)
theory Floppy
  imports Interrupts
begin

text \<open>
  \<open>kernel/drivers/floppy.c\<close> and \<open>kernel/drivers/dma.c\<close>: the floppy controller and the DMA channel it
  uses. Whether the drive raises its interrupt while the processor waits for it is the parameter
  \<open>raises\<close>, asked with the trace of all accesses so far; other interrupts during the wait are left out.
\<close>

section \<open>The code\<close>

record floppy = intr +
  irq_hit :: u8
  locked_cal :: u8
  dma_data_ptr :: ptr

definition DIGITAL_OUTPUT :: u16 where "DIGITAL_OUTPUT = 0x3f2"
definition MSR :: u16 where "MSR = 0x3f4"
definition DATA_FIFO :: u16 where "DATA_FIFO = 0x3f5"
definition CONFIG_CONTROL :: u16 where "CONFIG_CONTROL = 0x3f7"

definition SPECIFY :: u8 where "SPECIFY = 3"
definition READ_DATA :: u8 where "READ_DATA = 6"
definition RECALIBRATE :: u8 where "RECALIBRATE = 7"
definition SENSE_INTERRUPT :: u8 where "SENSE_INTERRUPT = 8"
definition VERSION :: u8 where "VERSION = 16"
definition CONFIG :: u8 where "CONFIG = 19"
definition LOCK :: u8 where "LOCK = 20"

lemmas floppy_regs = DIGITAL_OUTPUT_def MSR_def DATA_FIFO_def CONFIG_CONTROL_def

text \<open>The division of C, which rounds towards 0.\<close>

definition lba_to_chs :: "int \<Rightarrow> int \<times> int \<times> int" where
  "lba_to_chs lba = (lba sdiv (2 * 18), lba smod (2 * 18) sdiv 18, (lba smod (2 * 18)) smod 18 + 1)"

subsection \<open>dma.c\<close>

definition SINGLE_CHANNEL_MASK :: u16 where "SINGLE_CHANNEL_MASK = 10"
definition FLIP_FLOP_RESET :: u16 where "FLIP_FLOP_RESET = 12"
definition CHANNEL_2_PAGE :: u16 where "CHANNEL_2_PAGE = 0x81"

lemmas dma_regs = SINGLE_CHANNEL_MASK_def FLIP_FLOP_RESET_def CHANNEL_2_PAGE_def

definition mask_dma :: "u8 \<Rightarrow> u8 \<Rightarrow> 'a io_scheme \<Rightarrow> 'a io_scheme" where
  "mask_dma msk channel s = outb (SINGLE_CHANNEL_MASK + (if sint channel > 3 then 0xc0 else 0)) msk s"

definition init_floppy_dma :: "'a machine_scheme \<Rightarrow> ptr \<times> 'a machine_scheme" where
  "init_floppy_dma s =
     (let (p, s1) = sys_kmalloc 4 (4 OR 2) s
      in (p, fold (\<lambda>(port, byte). outb port byte)
           [(SINGLE_CHANNEL_MASK, 0x6), (FLIP_FLOP_RESET, 0xff),
            (4, ucast (p AND 0xff)), (4, ucast (drop_bit 8 (p AND 0xff00))),
            (FLIP_FLOP_RESET, 0xff), (5, 0xff), (5, 0x23),
            (CHANNEL_2_PAGE, ucast (drop_bit 16 (p AND 0xff0000))), (SINGLE_CHANNEL_MASK, 0x2)] s1))"

subsection \<open>The controller\<close>

definition floppy_irq_handler :: "'a floppy_scheme \<Rightarrow> 'a floppy_scheme" where
  "floppy_irq_handler s = s\<lparr>irq_hit := 1\<rparr>"

definition wait_irq :: "(io_event list \<Rightarrow> bool) \<Rightarrow> 'a floppy_scheme \<Rightarrow> 'a floppy_scheme option" where
  "wait_irq raises s =
     (if irq_hit s \<noteq> 0 then Some s
      else if raises (trace s) then Some (floppy_irq_handler s) else None)"

definition sense_interupt :: "device \<Rightarrow> 'a io_scheme \<Rightarrow> 'a io_scheme" where
  "sense_interupt d s = snd (inb d DATA_FIFO (snd (inb d DATA_FIFO (outb DATA_FIFO SENSE_INTERRUPT s))))"

text \<open>\<open>reset_controller\<close>, \<open>recal_fdc\<close> (from round \<open>i\<close> of its loop on) and the loop that waits for the
  controller and resets it as long as it is not ready call one another: one function with the
  caller's wish as its argument.\<close>

datatype fdc_job = Reset | Recal nat | Ready

partial_function (option) fdc ::
    "device \<Rightarrow> (io_event list \<Rightarrow> bool) \<Rightarrow> fdc_job \<Rightarrow> 'a floppy_scheme \<Rightarrow> 'a floppy_scheme option" where
  "fdc d raises j s =
     (case j of
        Reset \<Rightarrow> do {
          let (val, s1) = inb d DIGITAL_OUTPUT (s\<lparr>irq_hit := 0\<rparr>);
          s2 \<leftarrow> wait_irq raises (outb DIGITAL_OUTPUT 0x0C (outb DIGITAL_OUTPUT 0 s1));
          if locked_cal s2 = 0 then fdc d raises (Recal 0) s2 else Some s2 }
      | Recal i \<Rightarrow>
          if i < 2 then do {
            let (dor, s1) = inb d DIGITAL_OUTPUT s;
            s2 \<leftarrow> fdc d raises Ready (outb DIGITAL_OUTPUT ((dor AND 0xfc) + of_nat i) s1);
            s3 \<leftarrow> fdc d raises Ready (outb DATA_FIFO RECALIBRATE s2);
            fdc d raises (Recal (Suc i)) (outb DATA_FIFO RECALIBRATE s3) }
          else Some s
      | Ready \<Rightarrow>
          let (status, s1) = inb d MSR s
          in if status AND 0xc0 \<noteq> 0x80 then do { s2 \<leftarrow> fdc d raises Reset s1; fdc d raises Ready s2 }
             else Some s1)"

definition reset_controller ::
    "device \<Rightarrow> (io_event list \<Rightarrow> bool) \<Rightarrow> 'a floppy_scheme \<Rightarrow> 'a floppy_scheme option" where
  "reset_controller d raises = fdc d raises Reset"

definition recal_fdc ::
    "device \<Rightarrow> (io_event list \<Rightarrow> bool) \<Rightarrow> 'a floppy_scheme \<Rightarrow> 'a floppy_scheme option" where
  "recal_fdc d raises = fdc d raises (Recal 0)"

text \<open>The three other ways \<open>init_floppy\<close> waits: for the request bit alone; with the command in the loop.\<close>

partial_function (option) wait_rqm :: "device \<Rightarrow> 'a io_scheme \<Rightarrow> 'a io_scheme option" where
  "wait_rqm d s = (let (status, s1) = inb d MSR s in if status AND 0x80 = 0 then wait_rqm d s1 else Some s1)"

partial_function (option) specify_loop ::
    "device \<Rightarrow> (io_event list \<Rightarrow> bool) \<Rightarrow> 'a floppy_scheme \<Rightarrow> 'a floppy_scheme option" where
  "specify_loop d raises s =
     (let (status, s1) = inb d MSR s
      in if status AND 0xc0 \<noteq> 0x80 then do {
           s2 \<leftarrow> reset_controller d raises s1;
           specify_loop d raises (outb DATA_FIFO SPECIFY s2) }
         else Some s1)"

text \<open>\<open>fp\<close> is the address of \<open>floppy_irq_handler\<close>. The result is 0 in any case.\<close>

definition init_floppy ::
    "device \<Rightarrow> (io_event list \<Rightarrow> bool) \<Rightarrow> ptr \<Rightarrow> 'a floppy_scheme \<Rightarrow> (u32 \<times> 'a floppy_scheme) option" where
  "init_floppy d raises fp s = do {
     let s1 = snd (irq_install_handler fp 6 s);
     s2 \<leftarrow> fdc d raises Ready (pic_remask (s1\<lparr>master_pic_mask := master_pic_mask s1 AND NOT 0x40\<rparr>));
     s3 \<leftarrow> wait_rqm d (outb DIGITAL_OUTPUT 0x3c (outb CONFIG_CONTROL 0 s2));
     s4 \<leftarrow> wait_rqm d (outb DATA_FIFO VERSION s3);
     let (version, s5) = inb d DATA_FIFO s4;
     if version \<noteq> 0x90 then Some (0, printf (CHR 0x09 # line ''Aborting!'') [] s5)
     else do {
       s6 \<leftarrow> fdc d raises Ready s5;
       s7 \<leftarrow> wait_rqm d (outb DATA_FIFO CONFIG s6);
       s8 \<leftarrow> wait_rqm d (outb DATA_FIFO 0 s7);
       s9 \<leftarrow> wait_rqm d (outb DATA_FIFO 0x48 s8);
       s10 \<leftarrow> specify_loop d raises (outb DATA_FIFO 0 s9);
       s11 \<leftarrow> fdc d raises Ready (outb DATA_FIFO 0xa (outb DATA_FIFO 0x80 s10));
       s12 \<leftarrow> recal_fdc d raises s11;
       s13 \<leftarrow> reset_controller d raises ((outb DATA_FIFO (LOCK OR 0x80) s12)\<lparr>locked_cal := 1\<rparr>);
       let (p, s14) = init_floppy_dma s13;
       let (dor, s15) = inb d DIGITAL_OUTPUT (s14\<lparr>dma_data_ptr := p\<rparr>);
       Some (0, printf (line ''DMA PTR: 0x%x!'') [PInt p] (outb DIGITAL_OUTPUT (dor AND 0xfc) s15)) } }"

definition floppy_mot_on :: "device \<Rightarrow> u8 \<Rightarrow> 'a io_scheme \<Rightarrow> 'a io_scheme" where
  "floppy_mot_on d drive s =
     (let (dor, s1) = inb d DIGITAL_OUTPUT s
      in outb DIGITAL_OUTPUT (dor AND 0x0f OR push_bit (nat (4 + sint drive smod 4)) 1) s1)"

text \<open>The wait before each byte of a command: \<open>False\<close> when three seconds have passed.\<close>

partial_function (option) wait_byte :: "device \<Rightarrow> 'a timer_scheme \<Rightarrow> (bool \<times> 'a timer_scheme) option" where
  "wait_byte d s =
     (let (status, s1) = inb d MSR s
      in if status AND 0xc0 \<noteq> 0x80 then
           let (r, s2) = poll_wait_secs d 0 s1
           in if r \<noteq> 0 then Some (False, s2) else wait_byte d s2
         else Some (True, s1))"

fun send_command ::
    "device \<Rightarrow> (io_event list \<Rightarrow> bool) \<Rightarrow> u8 list \<Rightarrow> 'a floppy_scheme \<Rightarrow> (bool \<times> 'a floppy_scheme) option" where
  "send_command d raises [] s = Some (True, s)"
| "send_command d raises (b # bs) s = do {
     (ok, s1) \<leftarrow> wait_byte d (snd (poll_wait_secs d 3 s));
     if \<not> ok then map_option (Pair False) (reset_controller d raises s1)
     else send_command d raises bs (outb DATA_FIFO b s1) }"

partial_function (option) print_fifo :: "device \<Rightarrow> 'a io_scheme \<Rightarrow> 'a io_scheme option" where
  "print_fifo d s =
     (let (status, s1) = inb d MSR s
      in if status AND 0x90 \<noteq> 0 then
           let (byte, s2) = inb d DATA_FIFO s1 in print_fifo d (printf ''%x '' [PInt (ucast byte)] s2)
         else Some s1)"

text \<open>The bytes of a read command, each cut to eight bits.\<close>

definition read_command :: "int \<Rightarrow> u8 \<Rightarrow> u8 list" where
  "read_command lba drive =
     (let (cyl, head, sector) = lba_to_chs lba
      in [word_of_int (head * 4) OR drive, word_of_int cyl, word_of_int (head * 4) OR drive,
          word_of_int sector, 2, 18, 0x1b, 0xff])"

definition floppy_read ::
    "device \<Rightarrow> (io_event list \<Rightarrow> bool) \<Rightarrow> int \<Rightarrow> u8 \<Rightarrow> 'a floppy_scheme \<Rightarrow> (ptr \<times> 'a floppy_scheme) option" where
  "floppy_read d raises lba drive s = do {
     let (dor, s1) = inb d DIGITAL_OUTPUT (s\<lparr>irq_hit := 0\<rparr>);
     let s2 = outb CONFIG_CONTROL 0 (outb DIGITAL_OUTPUT (dor AND 0x0c OR word_of_int (sint drive smod 4)) s1);
     s3 \<leftarrow> fdc d raises Ready (floppy_mot_on d drive s2);
     (ok, s4) \<leftarrow> send_command d raises (read_command lba drive) (outb DATA_FIFO (READ_DATA OR 0x80 OR 0x40) s3);
     if \<not> ok then Some (0, s4)
     else do { s5 \<leftarrow> print_fifo d s4; Some (dma_data_ptr s5, s5) } }"

section \<open>Properties\<close>

subsection \<open>Addresses of sectors\<close>

lemma sdiv_nonneg: "0 \<le> a \<Longrightarrow> 0 < b \<Longrightarrow> a sdiv b = a div b" "0 \<le> a \<Longrightarrow> 0 < b \<Longrightarrow> a smod b = a mod b" for a b :: int
  by (cases "a = 0"; simp add: signed_divide_int_def signed_modulo_int_def)+

lemma lba_to_chs_nonneg:
  "0 \<le> lba \<Longrightarrow> lba_to_chs lba = (lba div 36, lba mod 36 div 18, lba mod 18 + 1)"
  by (simp add: lba_to_chs_def sdiv_nonneg mod_mod_cancel)

lemma lba_parts:
  fixes lba :: int
  assumes "0 \<le> lba" and "lba < 2880"
  shows "0 \<le> lba div 36" "lba div 36 < 80" "0 \<le> lba mod 36 div 18" "lba mod 36 div 18 < 2"
    "0 \<le> lba mod 18" "lba mod 18 \<le> 17" "(lba div 36 * 2 + lba mod 36 div 18) * 18 + lba mod 18 = lba"
proof -
  have "lba mod 36 = 18 * (lba mod 36 div 18) + lba mod 36 mod 18" by simp
  also have "lba mod 36 mod 18 = lba mod 18" by (simp add: mod_mod_cancel)
  finally have "36 * (lba div 36) + (18 * (lba mod 36 div 18) + lba mod 18) = lba"
    using mult_div_mod_eq [of 36 lba] by simp
  then show "(lba div 36 * 2 + lba mod 36 div 18) * 18 + lba mod 18 = lba" by (simp add: algebra_simps)
  show "lba mod 18 \<le> 17" using pos_mod_bound [of 18 lba] by linarith
  show "lba div 36 < 80" "lba mod 36 div 18 < 2"
    using assms pos_mod_bound [of 36 lba] by (simp_all add: div_less_iff_less_mult)
qed (use assms in \<open>simp_all add: pos_imp_zdiv_nonneg_iff\<close>)

lemma lba_to_chs_parts:
  assumes "0 \<le> lba" and "lba < 2880"
  shows "\<exists>c h k. lba_to_chs lba = (c, h, k) \<and> 0 \<le> c \<and> c < 80 \<and> 0 \<le> h \<and> h < 2 \<and> 1 \<le> k \<and> k \<le> 18
    \<and> (c * 2 + h) * 18 + (k - 1) = lba"
proof -
  define c h k where "c = lba div 36" "h = lba mod 36 div 18" "k = lba mod 18"
  note parts = lba_parts [OF assms, folded this]
  have "lba_to_chs lba = (c, h, k + 1)"
    unfolding \<open>c = _\<close> \<open>h = _\<close> \<open>k = _\<close> by (rule lba_to_chs_nonneg [OF assms(1)])
  with parts show ?thesis by (intro exI [of _ c] exI [of _ h] exI [of _ "k + 1"]) simp
qed

text \<open>The cylinder, head and sector of a block are within the geometry of a 1.44 MB disk (80
  cylinders, 2 heads, 18 sectors counted from 1), and they determine the block.\<close>

theorem lba_to_chs_inverse:
  assumes "0 \<le> lba" and "lba < 2880"
  shows "\<exists>c h k. lba_to_chs lba = (c, h, k) \<and> 0 \<le> c \<and> c < 80 \<and> 0 \<le> h \<and> h < 2 \<and> 1 \<le> k \<and> k \<le> 18
    \<and> (c * 2 + h) * 18 + (k - 1) = lba"
  by (rule lba_to_chs_parts [OF assms])

subsection \<open>The DMA channel\<close>

text \<open>The bytes written to a port, oldest first.\<close>

fun written :: "u16 \<Rightarrow> io_event list \<Rightarrow> u8 list" where
  "written p [] = []"
| "written p (e # tr) = written p tr @ (case e of Outb q b \<Rightarrow> if q = p then [b] else [] | _ \<Rightarrow> [])"

lemma three_bytes:
  "uint (ucast (p AND 0xff) :: u8) + 256 * uint (ucast (drop_bit 8 (p AND 0xff00)) :: u8)
    + 65536 * uint (ucast (drop_bit 16 (p AND 0xff0000)) :: u8) = uint p mod 2 ^ 24" for p :: u32
proof -
  have m: "(0xff :: u32) = mask 8" "(0xff00 :: u32) = push_bit 8 (mask 8)" "(0xff0000 :: u32) = push_bit 16 (mask 8)"
    by (simp_all add: mask_eq_exp_minus_1 push_bit_eq_mult)
  have "ucast (drop_bit 8 (p AND 0xff00)) = (ucast (drop_bit 8 p) :: u8)"
    "ucast (drop_bit 16 (p AND 0xff0000)) = (ucast (drop_bit 16 p) :: u8)"
    "ucast (p AND 0xff) = (ucast p :: u8)"
    unfolding m by (auto intro!: bit_word_eqI simp: bit_simps)
  then have "uint (ucast (p AND 0xff) :: u8) = uint p mod 256"
    "uint (ucast (drop_bit 8 (p AND 0xff00)) :: u8) = uint p div 256 mod 256"
    "uint (ucast (drop_bit 16 (p AND 0xff0000)) :: u8) = uint p div 256 div 256 mod 256"
    by (simp_all add: unsigned_ucast_eq unsigned_drop_bit_eq take_bit_eq_mod drop_bit_eq_div uint_div
      zdiv_zmult2_eq [of 256 _ 256, simplified])
  moreover have "uint p mod (256 * (256 * 256)) = 256 * (256 * (uint p div 256 div 256 mod 256) + uint p div 256 mod 256) + uint p mod 256"
    by (simp only: zmod_zmult2_eq)
  ultimately show ?thesis by simp
qed

text \<open>The channel is programmed for one track of 18 sectors at the block the allocator gave,
  of whose address the controller gets the low 24 bits.\<close>

theorem init_floppy_dma_programs:
  assumes "init_floppy_dma s = (p, s')"
  shows "\<exists>b0 b1 b2. written 4 (trace s') = written 4 (trace s) @ [b0, b1]
    \<and> written 0x81 (trace s') = written 0x81 (trace s) @ [b2]
    \<and> uint b0 + 256 * uint b1 + 65536 * uint b2 = uint p mod 2 ^ 24
    \<and> (\<exists>n0 n1. written 5 (trace s') = written 5 (trace s) @ [n0, n1] \<and> uint n0 + 256 * uint n1 + 1 = 18 * 512)"
  using assms three_bytes [of p]
  by (auto simp: init_floppy_dma_def dma_regs sys_kmalloc_def split: prod.splits)

subsection \<open>A controller that takes commands\<close>

text \<open>The controller asks for a byte whenever it is looked at, until the last byte of a read command,
  0xff, has just been written; then it is done.\<close>

definition command_end :: "io_event list \<Rightarrow> bool" where
  "command_end tr = (case tr of Outb p b # _ \<Rightarrow> p = DATA_FIFO \<and> b = 0xff | _ \<Rightarrow> False)"

definition accepts :: "device \<Rightarrow> bool" where
  "accepts d \<longleftrightarrow> (\<forall>tr. if command_end tr then dev_inb d tr MSR AND 0x90 = 0 else dev_inb d tr MSR AND 0xc0 = 0x80)"

lemma accepts_ready:
  assumes "accepts d" and "\<not> command_end (trace s)"
  shows "fdc d raises Ready s = Some (snd (inb d MSR s))"
  using assms by (subst fdc.simps) (simp add: accepts_def in_unfold)

lemma fdc_simps:
  "fdc d raises Reset s = do {
     s2 \<leftarrow> wait_irq raises (outb DIGITAL_OUTPUT 0x0C (outb DIGITAL_OUTPUT 0 (snd (inb d DIGITAL_OUTPUT (s\<lparr>irq_hit := 0\<rparr>)))));
     if locked_cal s2 = 0 then fdc d raises (Recal 0) s2 else Some s2 }"
  "fdc d raises (Recal i) s = (if i < 2 then do {
     s2 \<leftarrow> fdc d raises Ready (outb DIGITAL_OUTPUT ((fst (inb d DIGITAL_OUTPUT s) AND 0xfc) + of_nat i) (snd (inb d DIGITAL_OUTPUT s)));
     s3 \<leftarrow> fdc d raises Ready (outb DATA_FIFO RECALIBRATE s2);
     fdc d raises (Recal (Suc i)) (outb DATA_FIFO RECALIBRATE s3) } else Some s)"
  "fdc d raises Ready s = (if fst (inb d MSR s) AND 0xc0 \<noteq> 0x80
     then do { s2 \<leftarrow> fdc d raises Reset (snd (inb d MSR s)); fdc d raises Ready s2 } else Some (snd (inb d MSR s)))"
  by (subst fdc.simps, simp add: split_def Let_def)+

text \<open>The state after a step that only reads ports, writes ports or asks the clock.\<close>

lemma not_command_end [simp]:
  "\<not> command_end (Inb p b # tr)" "\<not> command_end (Seconds v # tr)" "command_end []  \<longleftrightarrow> False"
  "command_end (Outb p b # tr) \<longleftrightarrow> p = DATA_FIFO \<and> b = 0xff"
  by (simp_all add: command_end_def)

lemma written_in [simp]:
  "written p (trace (snd (inb d q s))) = written p (trace s)"
  "written p (trace (snd (poll_wait_secs d c t))) = written p (trace t)"
  by simp_all

lemma send_command_accepts:
  assumes "accepts d"
  shows "\<exists>s'. send_command d raises bs s = Some (True, s') \<and> dma_data_ptr s' = dma_data_ptr s
    \<and> outputs (trace s') = outputs (trace s) @ map (Outb DATA_FIFO) bs
    \<and> (bs \<noteq> [] \<longrightarrow> command_end (trace s') = (last bs = 0xff))"
proof (induction bs arbitrary: s)
  case (Cons b bs)
  let ?s1 = "snd (poll_wait_secs d 3 s)"
  let ?s2 = "outb DATA_FIFO b (snd (inb d MSR ?s1))"
  have "wait_byte d ?s1 = Some (True, snd (inb d MSR ?s1))"
    using assms(1) by (subst wait_byte.simps) (simp add: accepts_def in_unfold)
  then have "send_command d raises (b # bs) s = send_command d raises bs ?s2" by simp
  moreover have "dma_data_ptr ?s2 = dma_data_ptr s"
    by (simp add: outb_def inb_def poll_wait_secs_def wait_secs_def Let_def)
  ultimately show ?case using Cons.IH [of ?s2] by (cases bs) (auto simp del: send_command.simps(2))
qed simp



subsection \<open>Recalibration\<close>

text \<open>Recalibration writes the command's code where its parameter, the drive, is due: the bytes
  sent are the code four times, for both drives.\<close>

theorem recal_fdc_sends_no_drive:
  assumes "accepts d"
  shows "\<exists>s'. recal_fdc d raises s = Some s' \<and> written DATA_FIFO (trace s') = written DATA_FIFO (trace s) @ [7, 7, 7, 7]"
proof -
  note r = accepts_ready [OF assms]
  show ?thesis
    by (simp add: recal_fdc_def fdc_simps(2) r floppy_regs RECALIBRATE_def)
qed

lemma wait_irq_locked: "wait_irq raises s = Some s2 \<Longrightarrow> locked_cal s2 = locked_cal s"
  by (auto simp: wait_irq_def floppy_irq_handler_def split: if_splits)

text \<open>As long as the controller is not ready and calibration is not locked, none of the driver's
  waits ends: a reset recalibrates, recalibration waits, and waiting resets.\<close>

theorem fdc_never_ready:
  assumes "\<And>tr. dev_inb d tr MSR AND 0xc0 \<noteq> 0x80" and "locked_cal s = 0"
  shows "fdc d raises Ready s = None \<and> reset_controller d raises s = None \<and> recal_fdc d raises s = None"
proof -
  let ?P = "\<lambda>d raises j s r. (\<forall>tr. dev_inb d tr MSR AND 0xc0 \<noteq> 0x80) \<longrightarrow> locked_cal s = 0
      \<longrightarrow> (case j of Recal i \<Rightarrow> 2 \<le> i | _ \<Rightarrow> False)"
  have "?P d raises j s r" if "fdc d raises j s = Some r" for j s r
  proof (rule fdc.raw_induct [where P = ?P, OF _ that], goal_cases)
    case (1 fdc d raises j s r)
    note IH = 1(1) and eq = 1(2)
    show ?case
    proof (intro impI)
      assume a: "\<forall>tr. dev_inb d tr MSR AND 0xc0 \<noteq> 0x80" "locked_cal s = 0"
      note IH' = IH [rule_format, OF _ a(1) [rule_format]]
      show "case j of Recal i \<Rightarrow> 2 \<le> i | _ \<Rightarrow> False"
      proof (cases j)
        case Reset
        obtain s2 where s2: "wait_irq raises (outb DIGITAL_OUTPUT 0x0C (outb DIGITAL_OUTPUT 0
            (snd (inb d DIGITAL_OUTPUT (s\<lparr>irq_hit := 0\<rparr>))))) = Some s2"
          "(if locked_cal s2 = 0 then fdc d raises (Recal 0) s2 else Some s2) = Some r"
          using eq unfolding Reset by (auto simp: split_def Let_def split: Option.bind_splits)
        have "locked_cal s2 = 0" using wait_irq_locked [OF s2(1)] a(2) by (simp add: outb_def inb_def Let_def)
        then show ?thesis using IH' [of raises "Recal 0" s2 r] s2(2) by simp
      next
        case (Recal i)
        then show ?thesis
          using eq a(2) IH' [of raises Ready "outb DIGITAL_OUTPUT ((fst (inb d DIGITAL_OUTPUT s) AND 0xfc) + of_nat i)
              (snd (inb d DIGITAL_OUTPUT s))"]
          by (auto simp: split_def Let_def outb_def inb_def split: Option.bind_splits if_splits)
      next
        case Ready
        then show ?thesis
          using eq a IH' [of raises Reset "snd (inb d MSR s)"]
          by (auto simp: in_unfold split: Option.bind_splits if_splits)
      qed
    qed
  qed
  then have "fdc d raises j s = None" if "\<not> (case j of Recal i \<Rightarrow> 2 \<le> i | _ \<Rightarrow> False)" for j
    using that assms by (cases "fdc d raises j s") auto
  then show ?thesis by (simp add: reset_controller_def recal_fdc_def)
qed

subsection \<open>Start of the controller\<close>

text \<open>From \<open>s\<close> to \<open>s'\<close> the bytes \<open>bs\<close> were sent to the controller, no command ended, and nothing but
  the ports and the interrupt's flag was touched.\<close>

definition stepped :: "'a floppy_scheme \<Rightarrow> u8 list \<Rightarrow> 'a floppy_scheme \<Rightarrow> bool" where
  "stepped s bs s' \<longleftrightarrow> s'\<lparr>trace := [], irq_hit := 0\<rparr> = s\<lparr>trace := [], irq_hit := 0\<rparr>
     \<and> written DATA_FIFO (trace s') = written DATA_FIFO (trace s) @ bs \<and> \<not> command_end (trace s')"

lemma stepped_out:
  "stepped t bs s \<Longrightarrow> b \<noteq> 0xff \<Longrightarrow> stepped t (bs @ [b]) (outb DATA_FIFO b s)"
  "stepped t bs s \<Longrightarrow> p \<noteq> DATA_FIFO \<Longrightarrow> stepped t bs (outb p b s)"
  by (simp_all add: stepped_def outb_def)

lemma stepped_in: "stepped t bs s \<Longrightarrow> stepped t bs (snd (inb d p s))"
  by (simp add: stepped_def in_unfold)

lemma stepped_ready:
  assumes "accepts d" and "stepped t bs s"
  shows "\<exists>s'. fdc d raises Ready s = Some s' \<and> stepped t bs s'" and "\<exists>s'. wait_rqm d s = Some s' \<and> stepped t bs s'"
    and "\<exists>s'. specify_loop d raises s = Some s' \<and> stepped t bs s'"
proof -
  have c: "\<not> command_end (trace s)" using assms(2) by (auto simp: stepped_def)
  then have v: "dev_inb d (trace s) MSR AND 0xc0 = 0x80" using assms(1) by (simp add: accepts_def)
  have "(dev_inb d (trace s) MSR AND 0xc0) AND 0x80 = 0x80" unfolding v by simp
  then have w: "dev_inb d (trace s) MSR AND 0x80 \<noteq> 0" by (auto simp: and.assoc)
  note s = stepped_in [OF assms(2), of d MSR]
  show "\<exists>s'. fdc d raises Ready s = Some s' \<and> stepped t bs s'"
    using s accepts_ready [OF assms(1) c] by simp
  show "\<exists>s'. wait_rqm d s = Some s' \<and> stepped t bs s'" "\<exists>s'. specify_loop d raises s = Some s' \<and> stepped t bs s'"
    using s w v by (subst wait_rqm.simps specify_loop.simps, simp add: in_unfold)+
qed

lemma stepped_recal:
  assumes d: "accepts d" and "stepped t bs s"
  shows "\<exists>s'. recal_fdc d raises s = Some s' \<and> stepped t (bs @ [7, 7, 7, 7]) s'"
proof -
  have out: "DIGITAL_OUTPUT \<noteq> DATA_FIFO" "(7 :: u8) \<noteq> 0xff" by (simp_all add: floppy_regs)
  have "\<exists>s'. fdc d raises (Recal i) s = fdc d raises (Recal (Suc i)) s' \<and> stepped t (cs @ [7, 7]) s'"
    if st: "stepped t cs s" and i: "i < 2" for i s cs
  proof -
    obtain s1 where s1: "fdc d raises Ready (outb DIGITAL_OUTPUT ((fst (inb d DIGITAL_OUTPUT s) AND 0xfc) + of_nat i)
        (snd (inb d DIGITAL_OUTPUT s))) = Some s1" "stepped t cs s1"
      using stepped_ready(1) [OF d stepped_out(2) [OF stepped_in [OF st] out(1)]] by blast
    obtain s2 where s2: "fdc d raises Ready (outb DATA_FIFO 7 s1) = Some s2" "stepped t (cs @ [7]) s2"
      using stepped_ready(1) [OF d stepped_out(1) [OF s1(2) out(2)]] by blast
    have "fdc d raises (Recal i) s = fdc d raises (Recal (Suc i)) (outb DATA_FIFO 7 s2)"
      using s1(1) s2(1) i by (subst fdc_simps(2)) (simp add: RECALIBRATE_def)
    then show ?thesis using stepped_out(1) [OF s2(2) out(2)] by auto
  qed
  note round = this
  obtain s1 where s1: "fdc d raises (Recal 0) s = fdc d raises (Recal 1) s1" "stepped t (bs @ [7, 7]) s1"
    using round [OF assms(2), of 0] by auto
  obtain s2 where s2: "fdc d raises (Recal 1) s1 = fdc d raises (Recal 2) s2" "stepped t ((bs @ [7, 7]) @ [7, 7]) s2"
    using round [OF s1(2), of 1] by (auto simp: numeral_2_eq_2)
  have "fdc d raises (Recal 2) s2 = Some s2" by (subst fdc_simps(2)) simp
  then show ?thesis using s1(1) s2 by (simp add: recal_fdc_def)
qed

lemma stepped_reset:
  assumes "\<And>tr. raises tr" and "stepped t bs s" and "locked_cal s \<noteq> 0"
  shows "\<exists>s'. reset_controller d raises s = Some s' \<and> stepped t bs s'"
proof -
  have "stepped t bs (s\<lparr>irq_hit := 0\<rparr>)" using assms(2) by (simp add: stepped_def)
  then have "stepped t bs (outb DIGITAL_OUTPUT 0x0C (outb DIGITAL_OUTPUT 0 (snd (inb d DIGITAL_OUTPUT (s\<lparr>irq_hit := 0\<rparr>)))))"
    (is "stepped t bs ?s1") by (intro stepped_out stepped_in) (simp_all add: floppy_regs)
  then have "stepped t bs (floppy_irq_handler ?s1)"
    by (simp add: stepped_def floppy_irq_handler_def)
  moreover have "wait_irq raises ?s1 = Some (floppy_irq_handler ?s1)"
    using assms(1) by (simp add: wait_irq_def outb_def inb_def Let_def)
  moreover have "locked_cal (floppy_irq_handler ?s1) \<noteq> 0"
    using assms(3) by (simp add: floppy_irq_handler_def outb_def inb_def Let_def)
  ultimately show ?thesis by (simp add: reset_controller_def fdc_simps(1))
qed

lemma stepped_locked:
  assumes "stepped t bs s"
  shows "stepped (t\<lparr>locked_cal := v\<rparr>) bs (s\<lparr>locked_cal := v\<rparr>)"
proof -
  have swap: "x\<lparr>locked_cal := v, trace := [], irq_hit := 0\<rparr> = x\<lparr>trace := [], irq_hit := 0, locked_cal := v\<rparr>"
    for x :: "'a floppy_scheme" by simp
  have "s\<lparr>trace := [], irq_hit := 0\<rparr> = t\<lparr>trace := [], irq_hit := 0\<rparr>" using assms by (simp add: stepped_def)
  then show ?thesis using assms by (simp add: stepped_def swap)
qed

lemma stepped_locked_cal: "stepped t bs s \<Longrightarrow> locked_cal s = locked_cal t"
  unfolding stepped_def by (drule conjunct1 [THEN arg_cong [where f = locked_cal]]) simp

lemma init_floppy_dma_keeps:
  "locked_cal (snd (init_floppy_dma s)) = locked_cal s"
  "written DATA_FIFO (trace (snd (init_floppy_dma s))) = written DATA_FIFO (trace s)"
  by (simp_all add: init_floppy_dma_def dma_regs floppy_regs sys_kmalloc_def outb_def split_def Let_def)

text \<open>With such a controller, of version 0x90, and a drive that raises its interrupt, \<open>init_floppy\<close>
  returns. The bytes it sends are the version and configuration commands, then the two parameters of
  the command \<open>SPECIFY\<close> without the command itself (which is only sent while the controller is not
  ready), the recalibration and the lock.\<close>

theorem init_floppy_never_specifies:
  assumes d: "accepts d" and v: "\<And>tr. dev_inb d tr DATA_FIFO = 0x90" and r: "\<And>tr. raises tr"
  shows "\<exists>s'. init_floppy d raises fp s = Some (0, s') \<and> locked_cal s' = 1
    \<and> written DATA_FIFO (trace s') = written DATA_FIFO (trace s) @ [16, 19, 0, 0x48, 0, 0x80, 0x0a, 7, 7, 7, 7, 0x94]"
proof -
  let ?t = "snd (irq_install_handler fp 6 s)"
  let ?u = "pic_remask (?t\<lparr>master_pic_mask := master_pic_mask ?t AND NOT 0x40\<rparr>)"
  have tr: "trace ?t = trace s" by (simp add: irq_install_handler_def)
  have out: "CONFIG_CONTROL \<noteq> DATA_FIFO" "DIGITAL_OUTPUT \<noteq> DATA_FIFO" by (simp_all add: floppy_regs)
  have "stepped ?u [] ?u" by (simp add: stepped_def pic_remask_def floppy_regs)
  then obtain s2 where s2: "fdc d raises Ready ?u = Some s2" "stepped ?u [] s2"
    using stepped_ready(1) [OF d] by blast
  obtain s3 where s3: "wait_rqm d (outb DIGITAL_OUTPUT 0x3c (outb CONFIG_CONTROL 0 s2)) = Some s3" "stepped ?u [] s3"
    using stepped_ready(2) [OF d stepped_out(2) [OF stepped_out(2) [OF s2(2) out(1)] out(2)]] by blast
  obtain s4 where s4: "wait_rqm d (outb DATA_FIFO VERSION s3) = Some s4" "stepped ?u [16] s4"
    using stepped_ready(2) [OF d stepped_out(1) [OF s3(2)], of 16] by (auto simp: VERSION_def)
  obtain s6 where s6: "fdc d raises Ready (snd (inb d DATA_FIFO s4)) = Some s6" "stepped ?u [16] s6"
    using stepped_ready(1) [OF d stepped_in [OF s4(2)]] by blast
  obtain s7 where s7: "wait_rqm d (outb DATA_FIFO CONFIG s6) = Some s7" "stepped ?u [16, 19] s7"
    using stepped_ready(2) [OF d stepped_out(1) [OF s6(2)], of 19] by (auto simp: CONFIG_def)
  obtain s8 where s8: "wait_rqm d (outb DATA_FIFO 0 s7) = Some s8" "stepped ?u [16, 19, 0] s8"
    using stepped_ready(2) [OF d stepped_out(1) [OF s7(2)], of 0] by auto
  obtain s9 where s9: "wait_rqm d (outb DATA_FIFO 0x48 s8) = Some s9" "stepped ?u [16, 19, 0, 0x48] s9"
    using stepped_ready(2) [OF d stepped_out(1) [OF s8(2)], of "0x48"] by auto
  obtain s10 where s10: "specify_loop d raises (outb DATA_FIFO 0 s9) = Some s10" "stepped ?u [16, 19, 0, 0x48, 0] s10"
    using stepped_ready(3) [OF d stepped_out(1) [OF s9(2)], of 0] by auto
  have "stepped ?u [16, 19, 0, 0x48, 0, 0x80, 0x0a] (outb DATA_FIFO 0x0a (outb DATA_FIFO 0x80 s10))"
    using stepped_out(1) [OF stepped_out(1) [OF s10(2)], of "0x80" "0x0a"] by simp
  then obtain s11 s12 where s11: "fdc d raises Ready (outb DATA_FIFO 0x0a (outb DATA_FIFO 0x80 s10)) = Some s11"
    and s12: "recal_fdc d raises s11 = Some s12" "stepped ?u [16, 19, 0, 0x48, 0, 0x80, 0x0a, 7, 7, 7, 7] s12"
    using stepped_ready(1) [OF d] stepped_recal [OF d] by fastforce
  let ?s12 = "(outb DATA_FIFO 0x94 s12)\<lparr>locked_cal := 1\<rparr>"
  have "stepped (?u\<lparr>locked_cal := 1\<rparr>) [16, 19, 0, 0x48, 0, 0x80, 0x0a, 7, 7, 7, 7, 0x94] ?s12"
    using stepped_locked [OF stepped_out(1) [OF s12(2)], of "0x94" 1] by simp
  then obtain s13 where s13: "reset_controller d raises ?s12 = Some s13"
    "stepped (?u\<lparr>locked_cal := 1\<rparr>) [16, 19, 0, 0x48, 0, 0x80, 0x0a, 7, 7, 7, 7, 0x94] s13"
    using stepped_reset [OF r] by fastforce
  have w: "locked_cal s13 = 1" "written DATA_FIFO (trace s13) = written DATA_FIFO (trace s)
      @ [16, 19, 0, 0x48, 0, 0x80, 0x0a, 7, 7, 7, 7, 0x94]"
    using stepped_locked_cal [OF s13(2)] s13(2) by (simp_all add: stepped_def pic_remask_def floppy_regs tr)
  have ver: "fst (inb d DATA_FIFO s4) = 0x90" by (simp add: in_unfold v)
  have keep: "locked_cal (printf f as (outb DIGITAL_OUTPUT b (snd (inb d p (x\<lparr>dma_data_ptr := q\<rparr>))))) = locked_cal x"
    for f as b p q and x :: "'b floppy_scheme" by (simp add: printf_def outb_def in_unfold)
  show ?thesis
    using s2(1) s3(1) s4(1) s6(1) s7(1) s8(1) s9(1) s10(1) s11 s12(1) s13(1) w
    by (simp add: init_floppy_def Let_def split_def ver LOCK_def keep init_floppy_dma_keeps out)
qed

end
