(* ===== verification/Sprintf.thy ===== *)
theory Sprintf
  imports Serial
begin

text \<open>
  \<open>ksprintf\<close> (\<open>kernel/memory/string.c\<close>): the format of \<open>kprintf\<close>, into a block of memory. \<open>dash\<close> is
  the address of the literal \<open>"-"\<close>, \<open>loc\<close> that of the local arrays of a character and a zero; the
  arguments are the words \<open>va_arg\<close> yields, as in \<open>Serial\<close>.
\<close>

section \<open>The code\<close>

definition sprint_cat :: "ptr \<Rightarrow> ptr \<Rightarrow> 'a machine_scheme \<Rightarrow> 'a machine_scheme option" where
  "sprint_cat fin src s = map_option (\<lambda>m. s\<lparr>mem := m\<rparr>) (kstrcat fin fin src (mem s))"

definition sprint_char :: "ptr \<Rightarrow> ptr \<Rightarrow> u8 \<Rightarrow> 'a machine_scheme \<Rightarrow> 'a machine_scheme option" where
  "sprint_char loc fin c s = sprint_cat fin loc (s\<lparr>mem := (mem s)(loc := c, loc + 1 := 0)\<rparr>)"

text \<open>What precedes a conversion that adds \<open>k\<close> characters: when the block is too small a larger one
  is allocated and the text copied into it, and then the pointer to it is dropped.\<close>

definition sprint_grow :: "ptr \<Rightarrow> u32 \<Rightarrow> u32 \<Rightarrow> 'a machine_scheme \<Rightarrow> (u32 \<times> 'a machine_scheme) option" where
  "sprint_grow fin k pages s = do {
     n \<leftarrow> kstrlen (mem s) fin;
     if sint (n + k) \<ge> sint (4096 * pages) then do {
       let (tmp, s1) = sys_kmalloc (sint (pages + 1)) 6 s;
       n' \<leftarrow> kstrlen (mem s1) fin;
       Some (pages + 1, s1\<lparr>mem := kmemcpy fin tmp n' (mem s1)\<rparr>) }
     else Some (pages, s) }"

definition sprint_number ::
    "statics \<Rightarrow> ptr \<Rightarrow> u32 \<Rightarrow> u32 \<Rightarrow> u32 \<Rightarrow> 'a machine_scheme \<Rightarrow> (u32 \<times> 'a machine_scheme) option" where
  "sprint_number L fin base i pages s = do {
     (p, m) \<leftarrow> ltostr L i base 0 (mem s);
     k \<leftarrow> kstrlen m p;
     (pages', s1) \<leftarrow> sprint_grow fin k pages (s\<lparr>mem := m\<rparr>);
     (p', m') \<leftarrow> ltostr L i base 0 (mem s1);
     s2 \<leftarrow> sprint_cat fin p' (s1\<lparr>mem := m'\<rparr>);
     Some (pages', s2) }"

definition sprint_conv ::
    "statics \<Rightarrow> ptr \<Rightarrow> ptr \<Rightarrow> ptr \<Rightarrow> u8 \<Rightarrow> u32 list \<Rightarrow> u32 \<Rightarrow> 'a machine_scheme
      \<Rightarrow> (u32 list \<times> u32 \<times> 'a machine_scheme) option" where
  "sprint_conv L dash loc fin c args pages s =
     (if c \<in> {99, 100, 120, 111, 115} then
        (case args of [] \<Rightarrow> None
         | i # args' \<Rightarrow> do {
             (pages', s') \<leftarrow> (
               if c = 99 then do {
                 (pages1, s1) \<leftarrow> sprint_grow fin 1 pages s;
                 s2 \<leftarrow> sprint_char loc fin (ucast i) s1;
                 Some (pages1, s2) }
               else if c = 100 then
                 if sint i < 0 then do {
                   s1 \<leftarrow> sprint_cat fin dash s;
                   sprint_number L fin 10 (- i) pages s1 }
                 else sprint_number L fin 10 i pages s
               else if c = 120 then sprint_number L fin 16 i pages s
               else if c = 111 then sprint_number L fin 8 i pages s
               else do {
                 k \<leftarrow> kstrlen (mem s) i;
                 (pages1, s1) \<leftarrow> sprint_grow fin k pages s;
                 s2 \<leftarrow> sprint_cat fin i s1;
                 Some (pages1, s2) });
             Some (args', pages', s') })
      else Some (args, pages, s))"

partial_function (option) sprint_plain ::
    "ptr \<Rightarrow> ptr \<Rightarrow> ptr \<Rightarrow> 'a machine_scheme \<Rightarrow> (ptr option \<times> 'a machine_scheme) option" where
  "sprint_plain loc fin fmt s =
     (if mem s fmt \<noteq> 37 then
        if mem s fmt = 0 then Some (None, s)
        else do { s1 \<leftarrow> sprint_char loc fin (mem s fmt) s; sprint_plain loc fin (fmt + 1) s1 }
      else Some (Some fmt, s))"

partial_function (option) sprint_loop ::
    "statics \<Rightarrow> ptr \<Rightarrow> ptr \<Rightarrow> ptr \<Rightarrow> ptr \<Rightarrow> u32 list \<Rightarrow> u32 \<Rightarrow> 'a machine_scheme \<Rightarrow> 'a machine_scheme option" where
  "sprint_loop L dash loc fin fmt args pages s =
     (if mem s fmt \<noteq> 0 then do {
        (p, s1) \<leftarrow> sprint_plain loc fin fmt s;
        case p of
          None \<Rightarrow> Some s1
        | Some f \<Rightarrow> do {
            (args', pages', s2) \<leftarrow> sprint_conv L dash loc fin (mem s1 (f + 1)) args pages s1;
            sprint_loop L dash loc fin (f + 2) args' pages' s2 } }
      else Some s)"

definition ksprintf ::
    "statics \<Rightarrow> ptr \<Rightarrow> ptr \<Rightarrow> ptr \<Rightarrow> u32 list \<Rightarrow> 'a machine_scheme \<Rightarrow> (ptr \<times> 'a machine_scheme) option" where
  "ksprintf L dash loc fmt args s = do {
     n \<leftarrow> kstrlen (mem s) fmt;
     let pages = word_of_int (sint n sdiv 4096 + 1);
     let (fin, s1) = sys_kmalloc (sint pages) 6 s;
     s2 \<leftarrow> sprint_loop L dash loc fin fmt args pages s1;
     Some (fin, s2) }"

section \<open>Properties\<close>

subsection \<open>What the function writes\<close>

text \<open>\<open>scratch\<close> is the memory \<open>ksprintf\<close> uses itself: the block, the local array and the buffer of
  \<open>ltostr\<close>. Everything it reads must be apart from that.\<close>

definition scratch :: "statics \<Rightarrow> ptr \<Rightarrow> ptr \<Rightarrow> nat \<Rightarrow> ptr \<Rightarrow> bool" where
  "scratch L loc fin N x \<longleftrightarrow> in_region fin N x \<or> in_region loc 2 x \<or> in_region (ltostr_buffer L) 50 x"

definition unchanged :: "(ptr \<Rightarrow> bool) \<Rightarrow> mem \<Rightarrow> mem \<Rightarrow> bool" where
  "unchanged R m m' \<longleftrightarrow> (\<forall>x. \<not> R x \<longrightarrow> m' x = m x)"

definition text_at :: "(ptr \<Rightarrow> bool) \<Rightarrow> mem \<Rightarrow> ptr \<Rightarrow> u8 list \<Rightarrow> bool" where
  "text_at R m a cs \<longleftrightarrow> cstr_at m a cs \<and> (\<forall>x. in_region a (Suc (length cs)) x \<longrightarrow> \<not> R x)"

fun farg_at :: "(ptr \<Rightarrow> bool) \<Rightarrow> mem \<Rightarrow> farg \<Rightarrow> u32 \<Rightarrow> bool" where
  "farg_at R m (FNum n) v \<longleftrightarrow> v = n"
| "farg_at R m (FStr cs) v \<longleftrightarrow> text_at R m v cs"

lemma unchanged_refl [simp]: "unchanged R m m"
  by (simp add: unchanged_def)

lemma unchanged_trans: "unchanged R m m1 \<Longrightarrow> unchanged R m1 m2 \<Longrightarrow> unchanged R m m2"
  by (simp add: unchanged_def)

lemma text_at_unchanged: "unchanged R m m' \<Longrightarrow> text_at R m a cs \<Longrightarrow> text_at R m' a cs"
  unfolding text_at_def by (subst cstr_at_cong [where m = m]) (auto simp: unchanged_def dest: cstr_at_short)

lemma farg_at_unchanged: "unchanged R m m' \<Longrightarrow> farg_at R m a v \<Longrightarrow> farg_at R m' a v"
  by (cases a) (auto intro: text_at_unchanged)

lemma text_at_tail:
  assumes "text_at R m a (c # cs)"
  shows "m a = c" "c \<noteq> 0" "text_at R m (a + 1) cs"
proof -
  have cs: "cstr_at m a (c # cs)" using assms by (simp add: text_at_def)
  then show "m a = c" "c \<noteq> 0" by (simp_all add: cstr_at_Cons)
  have "in_region a (Suc (length (c # cs))) x" if "in_region (a + of_nat 1) (Suc (length cs)) x" for x
    by (rule in_subregion [OF that]) (use cstr_at_short [OF cs] in simp_all)
  then show "text_at R m (a + 1) cs" using cs assms by (simp add: text_at_def cstr_at_Cons)
qed

text \<open>The layout, and the text so far.\<close>

record sprint =
  sp_statics :: statics
  sp_dash :: ptr
  sp_loc :: ptr
  sp_fin :: ptr
  sp_size :: nat

abbreviation used_by :: "sprint \<Rightarrow> ptr \<Rightarrow> bool" where
  "used_by P \<equiv> scratch (sp_statics P) (sp_loc P) (sp_fin P) (sp_size P)"

definition layout_ok :: "sprint \<Rightarrow> mem \<Rightarrow> bool" where
  "layout_ok P m \<longleftrightarrow> text_at (used_by P) m (sp_dash P) [45]
     \<and> bytes_at m (ltostr_arr (sp_statics P)) ltostr_digits
     \<and> (\<forall>x. in_region (ltostr_arr (sp_statics P)) 36 x \<longrightarrow> \<not> used_by P x)
     \<and> apart (sp_fin P) (sp_size P) (sp_loc P) 2 \<and> apart (sp_fin P) (sp_size P) (ltostr_buffer (sp_statics P)) 50
     \<and> sp_size P < 2 ^ 31"

definition text_so_far :: "sprint \<Rightarrow> mem \<Rightarrow> u8 list \<Rightarrow> bool" where
  "text_so_far P m cs \<longleftrightarrow> layout_ok P m \<and> holds m (sp_fin P) (sp_size P) cs"

lemma layout_unchanged: "unchanged (used_by P) m m' \<Longrightarrow> layout_ok P m \<Longrightarrow> layout_ok P m'"
  unfolding layout_ok_def
  by (subst bytes_at_cong [where m = m]) (auto simp: unchanged_def intro: text_at_unchanged [unfolded unchanged_def])

lemma layout_statics: "layout_ok P m \<Longrightarrow> statics_ok (sp_statics P) m"
  by (auto simp: layout_ok_def statics_ok_def apart_iff scratch_def)

text \<open>Appending a text that is apart from the block.\<close>

lemma sprint_cat_text:
  assumes t: "text_so_far P (mem s) cs" and ys: "cstr_at (mem s) src ys"
    and ap: "apart (sp_fin P) (sp_size P) src (Suc (length ys))" and room: "length cs + length ys < sp_size P"
  shows "\<exists>m'. sprint_cat (sp_fin P) src s = Some (s\<lparr>mem := m'\<rparr>) \<and> text_so_far P m' (cs @ ys)
    \<and> unchanged (used_by P) (mem s) m'"
proof -
  have N: "sp_size P \<le> 2 ^ 32 - 1" using t by (simp add: text_so_far_def layout_ok_def)
  obtain m' where m': "kstrcat (sp_fin P) (sp_fin P) src (mem s) = Some m'" "holds m' (sp_fin P) (sp_size P) (cs @ ys)"
    "\<And>x. \<not> in_region (sp_fin P) (sp_size P) x \<Longrightarrow> m' x = mem s x"
    using holds_append [OF _ ys room N ap] t by (auto simp: text_so_far_def)
  have u: "unchanged (used_by P) (mem s) m'" using m'(3) by (simp add: unchanged_def scratch_def)
  then show ?thesis using m'(1,2) t layout_unchanged [OF u] by (auto simp: sprint_cat_def text_so_far_def)
qed

lemma sprint_char_text:
  assumes t: "text_so_far P (mem s) cs" and "c \<noteq> 0" and room: "Suc (length cs) < sp_size P"
  shows "\<exists>m'. sprint_char (sp_loc P) (sp_fin P) c s = Some (s\<lparr>mem := m'\<rparr>) \<and> text_so_far P m' (cs @ [c])
    \<and> unchanged (used_by P) (mem s) m'"
proof -
  let ?m = "(mem s)(sp_loc P := c, sp_loc P + 1 := 0)"
  have two: "Suc (length [c]) = 2" by simp
  have loc: "in_region (sp_loc P) 2 (sp_loc P)" "in_region (sp_loc P) 2 (sp_loc P + 1)" by (simp_all add: in_region_def)
  then have u: "unchanged (used_by P) (mem s) ?m" by (auto simp: unchanged_def scratch_def)
  have ap: "apart (sp_fin P) (sp_size P) (sp_loc P) 2" "sp_size P \<le> 2 ^ 32"
    using t by (simp_all add: text_so_far_def layout_ok_def)
  have "x \<noteq> sp_loc P \<and> x \<noteq> sp_loc P + 1" if "in_region (sp_fin P) (sp_size P) x" for x
    using apartD [OF ap(1) that] loc by auto
  then have "holds ?m (sp_fin P) (sp_size P) cs"
    by (intro holds_cong [where m = "mem s" and m' = ?m]) (use t ap(2) in \<open>simp_all add: text_so_far_def\<close>)
  then have "text_so_far P (mem (s\<lparr>mem := ?m\<rparr>)) cs" using t layout_unchanged [OF u] by (simp add: text_so_far_def)
  moreover have "cstr_at (mem (s\<lparr>mem := ?m\<rparr>)) (sp_loc P) [c]" using assms(2) by (simp add: cstr_at_Cons)
  ultimately show ?thesis
    using sprint_cat_text [of P "s\<lparr>mem := ?m\<rparr>" cs "sp_loc P" "[c]", unfolded two] ap(1) room unchanged_trans [OF u]
    by (auto simp: sprint_char_def)
qed

lemma sprint_grow_fits:
  assumes t: "text_so_far P (mem s) cs" and N: "sp_size P = 4096 * unat pages" and room: "length cs + unat k < sp_size P"
  shows "sprint_grow (sp_fin P) k pages s = Some (pages, s)"
proof -
  have n: "kstrlen (mem s) (sp_fin P) = Some (of_nat (length cs))"
    using t holds_cstr by (auto simp: text_so_far_def)
  have lt: "sp_size P < 2 ^ 31" using t by (simp add: text_so_far_def layout_ok_def)
  have "of_nat (length cs) + k = of_nat (length cs + unat k)" "4096 * pages = of_nat (4096 * unat pages)" by simp_all
  then have "sint (of_nat (length cs) + k) = int (length cs + unat k)" "sint (4096 * pages) = int (sp_size P)"
    using sint_of_nat_u32 [of "length cs + unat k"] sint_of_nat_u32 [of "sp_size P"] room lt N by (simp_all only:)
  then have "\<not> sint (4096 * pages) \<le> sint (of_nat (length cs) + k)" using room by linarith
  then show ?thesis using n by (simp add: sprint_grow_def)
qed

lemma unchanged_buffer: "same_but_buffer (sp_statics P) m m' \<Longrightarrow> unchanged (used_by P) m m'"
  by (simp add: same_but_buffer_def unchanged_def scratch_def)

text \<open>The digits of a number, in \<open>ltostr\<close>'s buffer.\<close>

lemma ltostr_text:
  assumes t: "text_so_far P m cs" and base: "base \<in> {8, 10, 16}"
  obtains p m' where "ltostr (sp_statics P) n base 0 m = Some (p, m')" "cstr_at m' p (digits (unat base) 0 n)"
    "apart (sp_fin P) (sp_size P) p (Suc (length (digits (unat base) 0 n)))" "text_so_far P m' cs"
    "unchanged (used_by P) m m'"
proof -
  have lay: "layout_ok P m" and h: "holds m (sp_fin P) (sp_size P) cs" using t by (simp_all add: text_so_far_def)
  then have ap: "apart (sp_fin P) (sp_size P) (ltostr_buffer (sp_statics P)) 50" "sp_size P \<le> 2 ^ 32"
    by (simp_all add: layout_ok_def)
  obtain i m' where l: "ltostr (sp_statics P) n base 0 m = Some (ltostr_buffer (sp_statics P) + of_nat i, m')"
    "i + Suc (length (digits (unat base) 0 n)) = 50"
    "cstr_at m' (ltostr_buffer (sp_statics P) + of_nat i) (digits (unat base) 0 n)"
    "same_but_buffer (sp_statics P) m m'"
    by (rule ltostr_digits_at [OF layout_statics [OF lay] base, of 0 n]) (use that in auto)
  have u: "unchanged (used_by P) m m'" by (rule unchanged_buffer [OF l(4)])
  have "holds m' (sp_fin P) (sp_size P) cs"
    by (rule holds_cong [OF h _ ap(2)]) (use l(4) apartD [OF ap(1)] in \<open>auto simp: same_but_buffer_def\<close>)
  then have "text_so_far P m' cs" using layout_unchanged [OF u lay] by (simp add: text_so_far_def)
  moreover have "apart (sp_fin P) (sp_size P) (ltostr_buffer (sp_statics P) + of_nat i)
      (Suc (length (digits (unat base) 0 n)))"
    by (rule apart_sub [OF ap(1)]) (use l(2) in simp_all)
  ultimately show thesis using that l(1,3) u by blast
qed

lemma sprint_number_text:
  assumes t: "text_so_far P (mem s) cs" and base: "base \<in> {8, 10, 16}" and N: "sp_size P = 4096 * unat pages"
    and room: "length cs + length (digits (unat base) 0 n) < sp_size P"
  shows "\<exists>m'. sprint_number (sp_statics P) (sp_fin P) base n pages s = Some (pages, s\<lparr>mem := m'\<rparr>)
    \<and> text_so_far P m' (cs @ digits (unat base) 0 n) \<and> unchanged (used_by P) (mem s) m'"
proof -
  let ?ds = "digits (unat base) 0 n"
  obtain p m1 where 1: "ltostr (sp_statics P) n base 0 (mem s) = Some (p, m1)" "cstr_at m1 p ?ds"
    "text_so_far P m1 cs" "unchanged (used_by P) (mem s) m1"
    by (rule ltostr_text [OF t base, of n]) (rule that; assumption)
  have len: "unat (of_nat (length ?ds) :: u32) = length ?ds" using cstr_at_short [OF 1(2)] by simp
  have grow: "sprint_grow (sp_fin P) (of_nat (length ?ds)) pages (s\<lparr>mem := m1\<rparr>) = Some (pages, s\<lparr>mem := m1\<rparr>)"
    using sprint_grow_fits [of P "s\<lparr>mem := m1\<rparr>" cs pages "of_nat (length ?ds)"] 1(3) N room len by simp
  obtain p2 m2 where 2: "ltostr (sp_statics P) n base 0 m1 = Some (p2, m2)" "cstr_at m2 p2 ?ds"
    "apart (sp_fin P) (sp_size P) p2 (Suc (length ?ds))" "text_so_far P m2 cs" "unchanged (used_by P) m1 m2"
    by (rule ltostr_text [OF 1(3) base, of n]) (rule that; assumption)
  obtain m3 where 3: "sprint_cat (sp_fin P) p2 (s\<lparr>mem := m2\<rparr>) = Some (s\<lparr>mem := m3\<rparr>)" "text_so_far P m3 (cs @ ?ds)"
    "unchanged (used_by P) m2 m3"
    using sprint_cat_text [of P "s\<lparr>mem := m2\<rparr>" cs p2 ?ds] 2(2-4) room by auto
  have "sprint_number (sp_statics P) (sp_fin P) base n pages s = Some (pages, s\<lparr>mem := m3\<rparr>)"
    using 1(1,2) 2(1) 3(1) grow by (simp add: sprint_number_def)
  then show ?thesis using 3(2) unchanged_trans [OF unchanged_trans [OF 1(4) 2(5)] 3(3)] by blast
qed

text \<open>One conversion.\<close>

lemma sprint_conv_text:
  assumes t: "text_so_far P (mem s) cs" and N: "sp_size P = 4096 * unat pages"
    and d: "d \<in> {99, 100, 120, 111, 115}" and r: "rendered_arg 0 d a = Some out" and v: "farg_at (used_by P) (mem s) a v"
    and out: "0 \<notin> set out" and room: "length cs + length out < sp_size P"
  shows "\<exists>m'. sprint_conv (sp_statics P) (sp_dash P) (sp_loc P) (sp_fin P) d (v # vs) pages s = Some (vs, pages, s\<lparr>mem := m'\<rparr>)
    \<and> text_so_far P m' (cs @ out) \<and> unchanged (used_by P) (mem s) m'"
proof (cases a)
  case (FStr ys)
  then have d: "d = 115" "out = ys" "cstr_at (mem s) v ys" "\<And>x. in_region v (Suc (length ys)) x \<Longrightarrow> \<not> used_by P x"
    using r v by (auto simp: text_at_def split: if_splits)
  have len: "unat (of_nat (length ys) :: u32) = length ys" using cstr_at_short [OF d(3)] by simp
  have ap: "apart (sp_fin P) (sp_size P) v (Suc (length ys))" using d(4) by (auto simp: apart_iff scratch_def)
  have "sprint_grow (sp_fin P) (of_nat (length ys)) pages s = Some (pages, s)"
    by (rule sprint_grow_fits [OF t N]) (use room len d(2) in simp)
  then show ?thesis using sprint_cat_text [OF t d(3) ap] room d(1-3) by (auto simp: sprint_conv_def)
next
  case (FNum n)
  then have v: "v = n" using v by simp
  note num = sprint_number_text [OF t _ N]
  consider "d = 99" "out = [ucast n]" | "d = 100" "sint n < 0" "out = 45 # digits 10 0 (- n)"
    | "d = 100" "\<not> sint n < 0" "out = digits 10 0 n" | "d = 120" "out = digits 16 0 n"
    | "d = 111" "out = digits 8 0 n"
    using r FNum by (auto split: if_splits)
  then show ?thesis
  proof cases
    case 1
    have "sprint_grow (sp_fin P) 1 pages s = Some (pages, s)"
      by (rule sprint_grow_fits [OF t N]) (use room 1 in simp)
    then show ?thesis using sprint_char_text [OF t, of "ucast n"] 1 v out room by (auto simp: sprint_conv_def)
  next
    case 2
    have dash: "cstr_at (mem s) (sp_dash P) [45]" "apart (sp_fin P) (sp_size P) (sp_dash P) (Suc (length [45 :: u8]))"
      using t by (auto simp: text_so_far_def layout_ok_def text_at_def apart_iff scratch_def)
    obtain m1 where 1: "sprint_cat (sp_fin P) (sp_dash P) s = Some (s\<lparr>mem := m1\<rparr>)" "text_so_far P m1 (cs @ [45])"
      "unchanged (used_by P) (mem s) m1"
      using sprint_cat_text [OF t dash] room 2(3) by auto
    from sprint_number_text [of P "s\<lparr>mem := m1\<rparr>" "cs @ [45]" 10 pages "- n"] 1(2) N room 2(3)
    obtain m2 where "sprint_number (sp_statics P) (sp_fin P) 10 (- n) pages (s\<lparr>mem := m1\<rparr>) = Some (pages, s\<lparr>mem := m2\<rparr>)"
      "text_so_far P m2 (cs @ out)" "unchanged (used_by P) m1 m2" by auto
    then show ?thesis using 1(1) 2(1,2) v unchanged_trans [OF 1(3)] by (auto simp: sprint_conv_def)
  next
    case 3
    with num [of 10 n] v room show ?thesis by (auto simp: sprint_conv_def)
  next
    case 4
    with num [of 16 n] v room show ?thesis by (auto simp: sprint_conv_def)
  next
    case 5
    with num [of 8 n] v room show ?thesis by (auto simp: sprint_conv_def)
  qed
qed

subsection \<open>The format loop\<close>

lemma sprint_loop_char:
  assumes "mem s f = c" and "c \<noteq> 37" and "c \<noteq> 0" and "sprint_char loc fin c s = Some s1"
  shows "sprint_loop L dash loc fin f args pages s = sprint_loop L dash loc fin (f + 1) args pages s1"
proof (cases "mem s1 (f + 1) = 0")
  case True
  have "sprint_plain loc fin f s = Some (None, s1)"
    using assms True by (subst sprint_plain.simps, simp, subst sprint_plain.simps) simp
  then show ?thesis
    using assms True by (simp add: sprint_loop.simps [of L dash loc fin f] sprint_loop.simps [of L dash loc fin "f + 1"])
next
  case False
  have "sprint_plain loc fin f s = sprint_plain loc fin (f + 1) s1"
    using assms by (subst sprint_plain.simps) simp
  then show ?thesis
    using assms False by (simp add: sprint_loop.simps [of L dash loc fin f] sprint_loop.simps [of L dash loc fin "f + 1"])
qed

lemma sprint_loop_end: "mem s f = 0 \<Longrightarrow> sprint_loop L dash loc fin f args pages s = Some s"
  by (subst sprint_loop.simps) simp

lemma sprint_loop_percent:
  "mem s f = 37 \<Longrightarrow> sprint_loop L dash loc fin f args pages s =
    do { (args', pages', s2) \<leftarrow> sprint_conv L dash loc fin (mem s (f + 1)) args pages s;
         sprint_loop L dash loc fin (f + 2) args' pages' s2 }"
  by (subst sprint_loop.simps, subst sprint_plain.simps) simp

lemma sprint_loop_text:
  assumes N: "sp_size P = 4096 * unat pages"
  shows "rendered 0 cs xs = Some out \<Longrightarrow> text_so_far P (mem s) pre \<Longrightarrow> text_at (used_by P) (mem s) f cs \<Longrightarrow>
    list_all2 (farg_at (used_by P) (mem s)) xs vs \<Longrightarrow> 0 \<notin> set out \<Longrightarrow> length pre + length out < sp_size P \<Longrightarrow>
    \<exists>m'. sprint_loop (sp_statics P) (sp_dash P) (sp_loc P) (sp_fin P) f vs pages s = Some (s\<lparr>mem := m'\<rparr>)
      \<and> text_so_far P m' (pre @ out) \<and> unchanged (used_by P) (mem s) m'"
proof (induction "0 :: u32" cs xs arbitrary: f vs s pre out rule: rendered.induct)
  case (1 xs)
  then show ?case by (subst sprint_loop_end) (auto simp: text_at_def cstr_at_def intro: exI [of _ "mem s"])
next
  case (2 c xs)
  then have c: "c \<noteq> 37" "mem s f = c" "c \<noteq> 0" "out = [c]" "text_at (used_by P) (mem s) (f + 1) []"
    using text_at_tail [OF "2.prems"(3)] by (auto split: if_splits)
  obtain m1 where m1: "sprint_char (sp_loc P) (sp_fin P) c s = Some (s\<lparr>mem := m1\<rparr>)" "text_so_far P m1 (pre @ [c])"
    "unchanged (used_by P) (mem s) m1"
    using sprint_char_text [OF "2.prems"(2) c(3)] "2.prems"(6) c(4) by auto
  have "m1 (f + 1) = 0" using text_at_unchanged [OF m1(3) c(5)] by (simp add: text_at_def)
  then show ?case using m1 c(4) by (auto simp: sprint_loop_char [OF c(2,1,3) m1(1)] sprint_loop_end)
next
  case (3 c d cs xs)
  note f = text_at_tail [OF "3.prems"(3)]
  note f1 = text_at_tail [OF f(3)]
  show ?case
  proof (cases "c = 37")
    case False
    obtain out' where out: "rendered 0 (d # cs) xs = Some out'" "out = c # out'"
      using "3.prems"(1) False by auto
    obtain m1 where m1: "sprint_char (sp_loc P) (sp_fin P) c s = Some (s\<lparr>mem := m1\<rparr>)" "text_so_far P m1 (pre @ [c])"
      "unchanged (used_by P) (mem s) m1"
      using sprint_char_text [OF "3.prems"(2) f(2)] "3.prems"(6) out(2) by auto
    have "list_all2 (farg_at (used_by P) m1) xs vs"
      using "3.prems"(4) by (rule list_all2_mono) (rule farg_at_unchanged [OF m1(3)])
    then obtain m2 where m2: "sprint_loop (sp_statics P) (sp_dash P) (sp_loc P) (sp_fin P) (f + 1) vs pages (s\<lparr>mem := m1\<rparr>)
        = Some (s\<lparr>mem := m2\<rparr>)" "text_so_far P m2 (pre @ out)" "unchanged (used_by P) m1 m2"
      using "3.hyps"(1) [OF False out(1), of "s\<lparr>mem := m1\<rparr>" "pre @ [c]" "f + 1" vs] m1(2)
        text_at_unchanged [OF m1(3) f(3)] "3.prems"(5,6) out(2) by auto
    then show ?thesis using sprint_loop_char [OF f(1) False f(2) m1(1)] unchanged_trans [OF m1(3) m2(3)] by auto
  next
    case percent: True
    show ?thesis
    proof (cases "d \<in> {99, 100, 120, 111, 115}")
      case False
      have "rendered 0 cs xs = Some out" using "3.prems"(1) percent False by auto
      from "3.hyps"(3) [OF _ False this "3.prems"(2) _ "3.prems"(4,5,6), of "f + 2"] f1(3) percent
      show ?thesis using f(1) f1(1) False
        by (subst sprint_loop_percent) (simp_all add: sprint_conv_def add.assoc)
    next
      case True
      obtain a xs' o1 o2 where a: "xs = a # xs'" "rendered_arg 0 d a = Some o1"
        "rendered 0 cs xs' = Some o2" "out = o1 @ o2"
        using "3.prems"(1) percent True by (auto split: list.splits option.splits)
      obtain v vs' where v: "vs = v # vs'" "farg_at (used_by P) (mem s) a v"
        "list_all2 (farg_at (used_by P) (mem s)) xs' vs'"
        using "3.prems"(4) a(1) by (auto simp: list_all2_Cons1)
      obtain m1 where m1: "sprint_conv (sp_statics P) (sp_dash P) (sp_loc P) (sp_fin P) d (v # vs') pages s
          = Some (vs', pages, s\<lparr>mem := m1\<rparr>)" "text_so_far P m1 (pre @ o1)" "unchanged (used_by P) (mem s) m1"
        using sprint_conv_text [OF "3.prems"(2) N True a(2) v(2), of vs'] "3.prems"(5,6) a(4) by auto
      have "list_all2 (farg_at (used_by P) m1) xs' vs'" using v(3) by (rule list_all2_mono) (rule farg_at_unchanged [OF m1(3)])
      moreover have "text_at (used_by P) m1 (f + 2) cs"
        using text_at_unchanged [OF m1(3) f1(3)] by (simp add: add.assoc)
      ultimately obtain m2 where m2: "sprint_loop (sp_statics P) (sp_dash P) (sp_loc P) (sp_fin P) (f + 2) vs' pages
          (s\<lparr>mem := m1\<rparr>) = Some (s\<lparr>mem := m2\<rparr>)" "text_so_far P m2 ((pre @ o1) @ o2)" "unchanged (used_by P) m1 m2"
        using "3.hyps"(2) [OF _ True a(1) a(2) a(3), of "s\<lparr>mem := m1\<rparr>" "pre @ o1" "f + 2" vs'] percent m1(2) "3.prems"(5,6) a(4)
        by auto
      have "sprint_loop (sp_statics P) (sp_dash P) (sp_loc P) (sp_fin P) f vs pages s = Some (s\<lparr>mem := m2\<rparr>)"
        using f(1) f1(1) percent m1(1) m2(1) by (subst sprint_loop_percent) (simp_all add: v(1))
      with m2(2) unchanged_trans [OF m1(3) m2(3)] show ?thesis by (auto simp: a(4))
    qed
  qed
qed

subsection \<open>The whole function\<close>

text \<open>The block is as many pages as the format needs, and one more.\<close>

lemma ksprintf_text:
  assumes al: "sys_kmalloc (int (length cs div 4096) + 1) 6 s = (sp_fin P, s1)"
    and size: "sp_size P = 4096 * (length cs div 4096 + 1)" and t: "text_so_far P (mem s) []"
    and fmt: "text_at (used_by P) (mem s) f cs" and vs: "list_all2 (farg_at (used_by P) (mem s)) xs vs"
    and r: "rendered 0 cs xs = Some out" and out: "0 \<notin> set out" "length out < sp_size P"
  shows "\<exists>s'. ksprintf (sp_statics P) (sp_dash P) (sp_loc P) f vs s = Some (sp_fin P, s')
    \<and> cstr_at (mem s') (sp_fin P) out \<and> unchanged (used_by P) (mem s) (mem s')"
proof -
  let ?n = "length cs div 4096 + 1"
  have lt: "sp_size P < 2 ^ 31" using t by (simp add: text_so_far_def layout_ok_def)
  have "length cs < sp_size P" unfolding size using dividend_less_div_times [of 4096 "length cs"] by simp
  then have cs: "length cs < 2 ^ 31" using lt by linarith
  have n: "kstrlen (mem s) f = Some (of_nat (length cs))" using fmt by (simp add: text_at_def)
  have sd: "int (length cs) sdiv 4096 = int (length cs div 4096)" by (cases "cs = []") (simp_all add: signed_divide_int_def zdiv_int)
  have "?n < 2 ^ 31" using size lt by simp
  then have p: "unat (of_nat ?n :: u32) = ?n" "sint (of_nat ?n :: u32) = int ?n"
    using sint_of_nat_u32 [of ?n] by (simp_all del: of_nat_add of_nat_Suc)
  have mem: "mem s1 = mem s" using al by (auto simp: sys_kmalloc_def split: prod.splits)
  obtain m' where m': "sprint_loop (sp_statics P) (sp_dash P) (sp_loc P) (sp_fin P) f vs (of_nat ?n) s1 = Some (s1\<lparr>mem := m'\<rparr>)"
    "text_so_far P m' out" "unchanged (used_by P) (mem s) m'"
    using sprint_loop_text [of P "of_nat ?n" cs xs out s1 "[]" f vs] size p(1) r t fmt vs out mem by auto
  have "ksprintf (sp_statics P) (sp_dash P) (sp_loc P) f vs s = Some (sp_fin P, s1\<lparr>mem := m'\<rparr>)"
    using n al m'(1) p(2) sint_of_nat_u32 [OF cs] by (simp add: ksprintf_def sd Let_def add.commute)
  then show ?thesis using m'(2,3) holds_cstr by (auto simp: text_so_far_def)
qed


end
