(* ===== verification/Panic.thy ===== *)
theory Panic
  imports Screen
begin

text \<open>
  The handling of processor faults (\<open>panic\<close> and \<open>_fhandler\<close> of \<open>kernel/cpu/idt.c\<close>). Both end in a
  loop that nothing leaves, so their value is the state in which that loop starts. What lies behind
  the table of exception names is the parameter \<open>beyond\<close>.
\<close>

section \<open>The code\<close>

definition exceptions :: "string list" where
  "exceptions = [
     ''Divide by 0'', ''Reserved'', ''NMI Interrupt'', ''Breakpoint'', ''Overflow'',
     ''Bounds range exceeded'', ''Invalid Opcode'', ''Device not Available'', ''Double Fault'',
     ''Coprocessor Segment Overrun'', ''Invalid TSS'', ''Segment not Present'', ''Stack-segment'',
     ''General Protection'', ''Page Fault'', ''Reserved'', ''x87 FPU error'', ''Alignment Check'',
     ''Machine Check'', ''SIMD FP'', ''Reserved'', ''Reserved'', ''Reserved'', ''Reserved'',
     ''Reserved'', ''Reserved'', ''Reserved'', ''Reserved'', ''Reserved'', ''Reserved'',
     ''Reserved'', ''Software Panic!'']"

definition opcodes :: "string list" where
  "opcodes = [
     ''ADD'', ''ADD'', ''ADD'', ''ADD'', ''ADD AL, '', ''ADD EAX, '', ''PUSH ES'', ''POP ES'',
     ''OR'', ''OR'', ''OR'', ''OR'', ''OR AL, '', ''OR EAX, '', ''PUSH CS'', ''0x0F'', ''ADC'',
     ''ADC'', ''ADC'', ''ADC'', ''ADC AL,'', ''ADC EAX, '', ''PUSH SS'', ''POP SS'', ''SBB'',
     ''SBB'', ''SBB'', ''SBB'', ''SBB AL,'', ''SBB EAX,'', ''PUSH DS'', ''POP DS'', ''AND'',
     ''AND'', ''AND'', ''AND'', ''AND AL,'', ''AND EAX,'', ''ES:'', ''DAA'', ''SUB'', ''SUB'',
     ''SUB'', ''SUB'', ''SUB AL,'', ''SUB EAX,'', ''CS:'', ''DAS'', ''XOR'', ''XOR'', ''XOR'',
     ''XOR'', ''XOR AL,'', ''XOR EAX,'', ''SS:'', ''AAA'', ''CMP'', ''CMP'', ''CMP'', ''CMP'',
     ''CMP AL, '', ''CMP EAX,'', ''DS:'', ''AAS'', ''INC EAX'', ''INC ECX'', ''INC EDX'',
     ''INC EBX'', ''INC ESP'', ''INC EBP'', ''INC ESI'', ''INC EDI'', ''DEC EAX'', ''DEC ECX'',
     ''DEC EDX'', ''DEC EBX'', ''DEC ESP'', ''DEC EBP'', ''DEC ESP'', ''DEC EDI'', ''PUSH EAX'',
     ''PUSH ECX'', ''PUSH EDX'', ''PUSH EBX'', ''PUSH ESP'', ''PUSH EBP'', ''PUSH ESI'',
     ''PUSH EDI'', ''POP EAX'', ''POP ECX'', ''POP EDX'', ''POP EBX'', ''POP ESP'', ''POP EBP'',
     ''POP ESI'', ''POP EDI'', ''PUSHA'', ''POPA'', ''BOUND'', ''ARPL'', ''FS:'', ''GS:'',
     ''OPSIZE:'', ''ADSIZE'', ''PUSH'', ''IMUL'', ''PUSH'', ''IMUL'', ''INSB'', ''INSW'',
     ''OUTSB'', ''OUTSW'', ''JO'', ''JNO'', ''JB'', ''JNB'', ''JZ'', ''JNZ'', ''JBE'', ''JA'',
     ''JS'', ''JNS'', ''JP'', ''JNP'', ''JL'', ''JNL'', ''JLE'', ''JNLE'', ''ADD'', ''ADD'',
     ''SUB'', ''SUB'', ''TEST'', ''TEST'', ''XCHG'', ''XCHG'', ''MOV'', ''MOV'', ''MOV'', ''MOV'',
     ''MOV'', ''LEA'', ''MOV'', ''POP'', ''NOP'', ''XCHG EAX, ECX'', ''XCHG EAX, EDX'',
     ''XCHG EAX, EBX'', ''XCHG EAX, ESP'', ''XCHG EAX, EBP'', ''XCHG EAX, ESI'', ''XCHG EAX, EDI'',
     ''CBW'', ''CWD'', ''CALL'', ''WAIT'', ''PUSHF'', ''POPF'', ''SAHF'', ''LAHF'', ''MOV AL,'',
     ''MOV EAX'', ''MOV X, AL'', ''MOV X, EAX'', ''MOVSB'', ''MOVSW'', ''CMPSB'', ''CMPSW'',
     ''TEST AL, '', ''TEST EAX'', ''STOSB'', ''STOSW'', ''LODSB'', ''LODSW'', ''SCASB'', ''SCASW'',
     ''MOV AL,'', ''MOV CL,'', ''MOV DL,'', ''MOV BL,'', ''MOV AH,'', ''MOV CH,'', ''MOV DH, '',
     ''MOV BH,'', ''MOV EAX,'', ''MOV ECX, '', ''MOV EDX, '', ''MOV EBX,'', ''MOV ESP,'',
     ''MOV EBP,'', ''MOV ESI,'', ''MOV EDI,'', ''N/A'', ''N/A'', ''RETN'', ''RETN'', ''LES'',
     ''LDS'', ''MOV'', ''MOV'', ''ENTER'', ''LEAVE'', ''RETF'', ''RETF'', ''INT3'', ''INT'',
     ''INTO'', ''IRET'', ''N/A'', ''N/A'', ''N/A'', ''N/A'', ''AAM'', ''AAD'', ''SALC'', ''XLAT'',
     ''ESC'', ''ESC'', ''ESC'', ''ESC'', ''ESC'', ''ESC'', ''ESC'', ''ESC'', ''LOOPNZ'', ''LOOPZ'',
     ''LOOP'', ''JCXZ'', ''IN AL'', ''IN EAX'', ''OUT AL'', ''OUT EAX'', ''CALL'', ''JMP'',
     ''JMP'', ''JMP'', ''IN AL, DX'', ''IN EAX, DX'', ''OUT DX, AL'', ''OUT DX, EAX'', ''LOCK'',
     ''INT1'', ''REPNE:'', ''REP:'', ''HLT'', ''CMC'', ''N/A'', ''N/A'', ''CLC'', ''STC'', ''CLI'',
     ''STI'', ''CLD'', ''STD'', ''N/A'', ''N/A'']"

definition exception_name :: "(nat \<Rightarrow> string) \<Rightarrow> nat \<Rightarrow> string" where
  "exception_name beyond n = (if n < 32 then exceptions ! n else beyond n)"

definition EBP :: nat where "EBP = 6"
definition ESP :: nat where "ESP = 7"
definition DS :: nat where "DS = 3"
definition ERR_CODE :: nat where "ERR_CODE = 13"
definition EIP :: nat where "EIP = 14"
definition CS :: nat where "CS = 15"
definition KERNEL_SS :: nat where "KERNEL_SS = 17"

definition panic :: "(nat \<Rightarrow> string) \<Rightarrow> ptr \<Rightarrow> 'a screen_scheme \<Rightarrow> 'a screen_scheme" where
  "panic beyond r s =
     (let eip = get_reg EIP r s;
          s1 = printf (line ''f0und: Kernel panic!'' @ line (''Message: I'' @ CHR 0x27 # ''m sorry, your computer ran into an exception '' @
                 ''while running. Please be patient while we attempt to fetch information about what went wrong.'')) []
               (clear_screen (set_color 0x1f s));
          s2 = printf (line ''Exception: %s Exception!'')
                 [PStr (exception_name beyond (unat (get_reg INT_NO r s AND 0xff)))] s1;
          s3 = printf (line ''Occured at:    %x'') [PInt eip] (s2\<lparr>padding := 8\<rparr>);
          s4 = printf (line ''Base Pointer:  %x'') [PInt (get_reg EBP r s)] s3;
          s5 = printf (line ''Stack Pointer: %x'') [PInt (get_reg ESP r s)] s4;
          s6 = printf (line ''Opcode: %x (%s)| CS: %x | DS: %x | SS: %x'')
                 [PInt (load32 (mem s) eip), PStr (opcodes ! unat (mem s eip)), PInt (get_reg CS r s),
                  PInt (get_reg DS r s), PInt (if get_reg KERNEL_SS r s = 0x10 then 1 else 0)] s5;
          s7 = printf (line (''When you are ready, please restart your computer to continue. Any data from before '' @
                 ''the exception unfortuantely may be lost.'')) [] s6;
          s8 = printf (line ''f0und: End Kernel Panic! Result: Critical Exception. Restart.'' @ line ''Code: %x%x'')
                 [PInt (get_reg INT_NO r s), PInt (get_reg ERR_CODE r s)] s7
      in printf ''Uptime: %ds'' [PInt (seconds s8)] s8)"

text \<open>What follows the call of \<open>panic\<close> is never reached.\<close>

definition fhandler :: "(nat \<Rightarrow> string) \<Rightarrow> ptr \<Rightarrow> 'a screen_scheme \<Rightarrow> 'a screen_scheme" where
  "fhandler beyond r s = panic beyond r (s\<lparr>kernel_mode := 1\<rparr>)"

section \<open>Properties\<close>

text \<open>A fault is reported and then nothing else happens: the name of the exception is printed, but the
  faulting process is not ended, the process list, the memory and the page table stay as they
  are, and nothing is sent to any port, not even the acknowledgement of an interrupt.\<close>

theorem fault_only_reports:
  assumes "get_reg INT_NO r s < 32" and "fhandler beyond r s = s'"
  shows "s'\<lparr>trace := trace s\<rparr> = s\<lparr>kernel_mode := 1, base_color := 0x1f, buffer_index := 0, padding := 8\<rparr>
    \<and> outputs (trace s') = outputs (trace s)
    \<and> Printf (line ''Exception: %s Exception!'') [PStr (exceptions ! unat (get_reg INT_NO r s))] \<in> set (trace s')"
proof -
  have n: "unat (get_reg INT_NO r s) < 32" using assms(1) by (simp add: word_less_nat_alt)
  have "(0xff :: u32) = mask 8" by (simp add: mask_eq_exp_minus_1)
  then have "get_reg INT_NO r s AND 0xff = take_bit 8 (get_reg INT_NO r s)" by (simp only: take_bit_eq_mask)
  then have m: "unat (get_reg INT_NO r s AND 0xff) = unat (get_reg INT_NO r s)"
    using n by (simp add: unsigned_take_bit_eq take_bit_nat_eq_self)
  have g: "get_reg i r (s\<lparr>kernel_mode := 1\<rparr>) = get_reg i r s" for i by (simp add: get_reg_def)
  note defs = fhandler_def panic_def printf_def set_color_def clear_screen_def Let_def
  have "s'\<lparr>trace := trace s\<rparr> = s\<lparr>kernel_mode := 1, base_color := 0x1f, buffer_index := 0, padding := 8\<rparr>"
    unfolding assms(2) [symmetric] by (simp add: defs)
  moreover have "outputs (trace s') = outputs (trace s)" unfolding assms(2) [symmetric] by (simp add: defs)
  moreover have "Printf (line ''Exception: %s Exception!'') [PStr (exceptions ! unat (get_reg INT_NO r s))] \<in> set (trace s')"
    unfolding assms(2) [symmetric] using n by (simp add: defs exception_name_def m g)
  ultimately show ?thesis by blast
qed

text \<open>The operand the processor encodes in the low three bits of many one-byte instructions.\<close>

definition operand :: "nat \<Rightarrow> string" where
  "operand i = [''EAX'', ''ECX'', ''EDX'', ''EBX'', ''ESP'', ''EBP'', ''ESI'', ''EDI''] ! i"

text \<open>The table of instruction names has an entry for each byte and names the right register for
  the one-byte \<open>INC\<close>, \<open>DEC\<close>, \<open>PUSH\<close>, \<open>POP\<close> and \<open>XCHG\<close> instructions, but for \<open>DEC ESI\<close>, which it
  calls \<open>DEC ESP\<close>.\<close>

theorem opcodes_operands:
  "length opcodes = 256 \<and> (\<forall>i < 8. opcodes ! (0x40 + i) = ''INC '' @ operand i
    \<and> opcodes ! (0x48 + i) = ''DEC '' @ (if i = 6 then ''ESP'' else operand i)
    \<and> opcodes ! (0x50 + i) = ''PUSH '' @ operand i \<and> opcodes ! (0x58 + i) = ''POP '' @ operand i
    \<and> (i \<noteq> 0 \<longrightarrow> opcodes ! (0x90 + i) = ''XCHG EAX, '' @ operand i))"
  by code_simp

end
