(* ===== verification/BootExamples.thy ===== *)
theory BootExamples
  imports Boot RoundRobin Floppy Sprintf Panic ShellExamples
begin

text \<open>The properties of the kernel's entry, of the floppy driver, of \<open>ksprintf\<close> and of the fault
  handler at concrete states.\<close>

subsection \<open>Floppy drive\<close>

theorem lba_to_chs_inverse_witness:
  "\<exists>c h k. lba_to_chs 1000 = (c, h, k) \<and> c < 80 \<and> h < 2 \<and> 1 \<le> k \<and> k \<le> 18 \<and> (c * 2 + h) * 18 + (k - 1) = 1000"
  using lba_to_chs_inverse [of 1000] by auto

theorem init_floppy_dma_programs_witness:
  "\<exists>p s' b0 b1. init_floppy_dma machine0 = (p, s') \<and> written 4 (trace s') = [b0, b1]"
proof -
  obtain p s' where i: "init_floppy_dma machine0 = (p, s')" by fastforce
  from init_floppy_dma_programs [OF i] i show ?thesis by (auto simp: machine0_def)
qed

definition floppy0 :: floppy where
  "floppy0 = intr.extend intr0 (floppy.fields 0 0 0x100000)"

lemma floppy0_sel [simp]: "locked_cal floppy0 = 0" "dma_data_ptr floppy0 = 0x100000" "trace floppy0 = []"
  by (simp_all add: floppy0_def intr0_def no_process_def floppy.defs intr.defs sched.defs)

text \<open>A controller that takes commands, and one that never does.\<close>

definition fdc_device :: device where
  "fdc_device = \<lparr>dev_inb = (\<lambda>tr p. if p = MSR then if command_end tr then 0 else 0x80 else 0x90),
     dev_inw = (\<lambda>_ _. 0), dev_seconds = (\<lambda>_. 0)\<rparr>"

lemma fdc_device_accepts: "accepts fdc_device"
  by (simp add: accepts_def fdc_device_def)


theorem recal_fdc_sends_no_drive_witness:
  "\<exists>s'. recal_fdc fdc_device (\<lambda>_. True) floppy0 = Some s' \<and> written DATA_FIFO (trace s') = [7, 7, 7, 7]"
  using recal_fdc_sends_no_drive [OF fdc_device_accepts, of "\<lambda>_. True" floppy0] by simp

theorem fdc_never_ready_witness:
  "reset_controller (fdc_device\<lparr>dev_inb := \<lambda>_ _. 0\<rparr>) (\<lambda>_. True) floppy0 = None"
  using fdc_never_ready [of "fdc_device\<lparr>dev_inb := \<lambda>_ _. 0\<rparr>" floppy0 "\<lambda>_. True"] by simp

theorem init_floppy_never_specifies_witness:
  "\<exists>s'. init_floppy fdc_device (\<lambda>_. True) 0x9000 floppy0 = Some (0, s')
    \<and> written DATA_FIFO (trace s') = [16, 19, 0, 0x48, 0, 0x80, 0x0a, 7, 7, 7, 7, 0x94]"
proof -
  have "dev_inb fdc_device tr DATA_FIFO = 0x90" for tr by (simp add: fdc_device_def floppy_regs)
  from init_floppy_never_specifies [OF fdc_device_accepts this, of "\<lambda>_. True" "0x9000" floppy0]
  show ?thesis by auto
qed

subsection \<open>Kernel entry\<close>

definition cpu0 :: cpu where
  "cpu0 = shell.extend shell0 (cpu.fields [] 0 0 0)"

lemma cpu0_sel [simp]:
  "mmgr cpu0 = empty_table" "cpid cpu0 = 0" "active_procs cpu0 = 0" "enable_scheduler cpu0 = 1"
  "proc_list cpu0 = (\<lambda>_. 0)(0 := - 1)" "vga_buffer cpu0 = 0xB8000" "irq_handlers cpu0 = (\<lambda>_. 0)" "trace cpu0 = []"
  by (simp_all add: cpu0_def shell0_defs cpu.defs intr0_def no_process_def sched.defs)

lemma cpu0_inv: "sched_inv cpu0" "\<not> existing cpu0 p"
  by (simp_all add: sched_inv_def existing_def)

lemma free_count_empty: "free_count empty_table = 256"
proof -
  have "{i :: int. 256 \<le> i \<and> i < 512} = {256 ..< 512}" by auto
  then show ?thesis by (simp add: free_count_def)
qed

definition image0 :: image where
  "image0 = \<lparr>lit = \<lambda>_. 0x700, img_statics = demo_statics, catstr = 0x800,
     img_stubs = \<lparr>isr0 = 0x1000, isr1 = 0x1010, irq0 = 0x2000, irq1 = 0x2010, softint = 0x3000, idt_base = 0x4000\<rparr>,
     timer_fp = 0x9000, ps2_fp = 0x9100, kb_fp = 0x9200, idle_fp = 0x9300, eshell_fp = 0x9400, kernel_size = 0x8000\<rparr>"

theorem kmain_processes_made_witness:
  "\<exists>p q s'. kmain_processes image0 0x202 0x202 cpu0 = Some (ucast q, s') \<and> p \<noteq> q
    \<and> (\<forall>x. existing s' x \<longleftrightarrow> x = p \<or> x = q) \<and> active_procs s' = 2"
  using kmain_processes_made [OF cpu0_inv(1), of image0 "0x202" "0x202"]
  by (auto simp: cpu0_inv(2) free_count_empty)

theorem kmain_reachable_witness:
  "\<exists>s4 p s5. kmain_scheduler image0 (cpu0\<lparr>mem := digits_mem\<rparr>) = Some s4
    \<and> kmain_processes image0 0x202 0x202 s4 = Some (p, s5) \<and> reachable s5 \<and> active_procs s5 = 2"
proof -
  let ?s = "cpu0\<lparr>mem := digits_mem\<rparr>"
  obtain m where m: "kumalloc 64 6 0 empty_table = (0x100000, m)" "mm_inv m" "\<And>p. p \<noteq> 0 \<Longrightarrow> owners_used m p"
    "192 \<le> free_count m" by (rule process_list_pages) (rule that; assumption)
  have al: "sys_kmalloc 64 6 ?s = (0x100000, ?s\<lparr>mmgr := m\<rparr>)"
    using m(1) by (simp add: sys_kmalloc_def kmalloc_eq_kumalloc)
  have L: "statics_ok (img_statics image0) (mem ?s)" "apart (ltostr_arr (img_statics image0)) 36 (vga_buffer ?s) 4000"
    using digits_statics_ok by (simp_all add: image0_def demo_statics_def apart_def)
  show ?thesis using kmain_reachable [OF al, of image0 "0x202" "0x202"] m(2-4) L by simp
qed

theorem timer_abandons_kmain_witness:
  "\<exists>p s1. kfork 0x202 0x9300 0 0 cpu0 = Some (ucast p, s1)
    \<and> (\<exists>log u. run_ticks [(0x7000, \<lambda>_. 0), (0x7000, \<lambda>_. 0)] s1 = Some (log, u) \<and> fst ` set log \<subseteq> {p})"
proof -
  have "\<forall>p. \<not> existing cpu0 p" "2 \<le> free_count (mmgr cpu0)" "enable_scheduler cpu0 \<noteq> 0"
    "active_procs cpu0 = 0" "cpid cpu0 = 0" by (simp_all add: cpu0_inv(2) free_count_empty)
  from timer_abandons_kmain [OF cpu0_inv(1) this, of "0x202" "0x9300"] show ?thesis by blast
qed

theorem shell_starts_witness:
  "\<exists>q s' es log u gp. kmain_processes image0 0x202 0x202 cpu0 = Some (ucast q, s') \<and> run_ticks es s' = Some (log, u)
    \<and> last log = (q, gp) \<and> r_eip (load_regs (mem u) gp) = 0x9400"
proof -
  have "\<forall>p. \<not> existing cpu0 p" "5 \<le> free_count (mmgr cpu0)" "enable_scheduler cpu0 \<noteq> 0"
    "active_procs cpu0 = 0" "cpid cpu0 = 0" by (simp_all add: cpu0_inv(2) free_count_empty)
  from shell_starts [OF cpu0_inv(1) this, of image0 "0x202" "0x202"]
  obtain q s' n where s: "kmain_processes image0 0x202 0x202 cpu0 = Some (ucast q, s')"
    and run: "\<forall>es. length es = n \<longrightarrow> (\<exists>log u gp. run_ticks es s' = Some (log, u) \<and> last log = (q, gp)
        \<and> r_eip (load_regs (mem u) gp) = eshell_fp image0 \<and> r_eflags (load_regs (mem u) gp) = 0x202)" by blast
  have "length (replicate n (0x7000 :: ptr, (\<lambda>_. 0) :: mem)) = n" by simp
  then obtain log u gp where "run_ticks (replicate n (0x7000, \<lambda>_. 0)) s' = Some (log, u)" "last log = (q, gp)"
    "r_eip (load_regs (mem u) gp) = eshell_fp image0" using run by blast
  then show ?thesis using s by (auto simp: image0_def)
qed

subsection \<open>Life of processes\<close>

text \<open>The scheduler has started, and a process was made.\<close>

lemma reachable_example:
  obtains s :: sched and p where "reachable s" "\<And>q. existing s q \<longleftrightarrow> q = p"
proof -
  obtain s0 where s0: "init_scheduler no_process = Some s0" "mm_inv (mmgr s0)"
    "\<And>p. p \<noteq> 0 \<Longrightarrow> owners_used (mmgr s0) p" "192 \<le> free_count (mmgr s0)"
    by (rule init_scheduler_no_process) (rule that; assumption)
  have r: "reachable s0" by (rule reachable.start [OF s0(1-3)]) simp_all
  note e = init_scheduler_empty [OF s0(1,2)]
  obtain p s where s: "kfork 0x202 0x9000 0 0 s0 = Some (ucast p, s)" "\<And>q. existing s q \<longleftrightarrow> q = p"
    by (rule kfork_first [of s0 0 "0x202" "0x9000"]) (use e s0(4) that in auto)
  have "kernel_step s0 (Kfork 0x202 0x9000 0 0) s"
    unfolding kernel_step_simps using s(1) s0(4) free_pid [of s0 0] e by auto
  then show thesis using that reachable.step [OF r] s(2) by blast
qed



theorem schedule_refines_round_robin_witness:
  "\<exists>gp s' log u. irq0_timer_handler 0x7000 ((two_processes 0)\<lparr>mem := \<lambda>_. 0\<rparr>) = Some (gp, s')
    \<and> turn_queue s' = rotate1 (turn_queue (two_processes 0)) \<and> set (turn_queue (two_processes 0)) = {1, 2}
    \<and> run_ticks [(0x7000, \<lambda>_. 0)] (two_processes 0) = Some (log, u)"
proof -
  have "existing (two_processes 0) 1" "{q. existing (two_processes 0) q} = {1, 2}" by (auto simp: existing_two)
  with schedule_refines_round_robin [OF two_processes_sel(3) this(1), of "0x7000" "\<lambda>_. 0" "[(0x7000, \<lambda>_. 0)]"]
  show ?thesis by auto
qed

theorem exit_leaves_queue_witness:
  "\<exists>s'. exit_proc 0 1 (two_processes 1) = Some s' \<and> turn_queue s' = removeAll 1 (turn_queue (two_processes 1))"
proof -
  obtain s' where s': "exit_proc 0 (ucast (1 :: u16)) (two_processes 1) = Some s'"
    using exit_proc_removes [OF two_processes_inv _ two_processes_kernel_owned, of 1 1 0]
      two_processes_owners [of 1] by (auto simp: existing_two blank_proc_def)
  from exit_leaves_queue [OF this] s' show ?thesis by simp
qed

text \<open>Process 1 frees the list entry of process 2.\<close>

definition free_call :: intr where
  "free_call = (running_intr 0x80 10 0)
     \<lparr>mem := store_regs 0x7000 (no_regs\<lparr>r_eax := 10, r_ebx := 0x103000, r_int_no := 0x80\<rparr>) (\<lambda>_. 0)\<rparr>"

lemma free_call_regs: "get_reg EAX 0x7000 free_call = 10" "get_reg EBX 0x7000 free_call = 0x103000"
  using load_regs_fields [where s = free_call and r = "0x7000"] by (simp_all add: free_call_def)

lemma free_call_inv: "sched_inv free_call" "existing free_call 2"
proof -
  have "mmgr free_call = mmgr (two_processes 1)" "proc_list free_call = proc_list (two_processes 1)"
    "\<And>x. process (plist free_call x) = process (plist (two_processes 1) x)"
    "\<And>x. pl_pid (plist free_call x) = pl_pid (plist (two_processes 1) x)"
    by (simp_all add: free_call_def running_intr_def sched.defs intr.defs)
  then show "sched_inv free_call" "existing free_call 2"
    using two_processes_inv [of 1] existing_two [of 1 2] by (simp_all add: sched_inv_def existing_def)
qed

theorem sys_free_takes_process_entry_witness:
  "\<exists>s'. native_irq disk_device 0 undefined 0x7000 free_call = Some s' \<and> existing s' 2 \<and> \<not> sched_inv s'"
proof -
  have "get_reg EBX 0x7000 free_call = entry_ptr free_call 2"
    by (simp add: free_call_regs) (simp add: free_call_def)
  from sys_free_takes_process_entry [OF free_call_inv free_call_regs(1) this, of disk_device 0 undefined]
  show ?thesis by blast
qed

subsection \<open>Interrupts\<close>

theorem kmain_interrupts_ready_witness:
  "\<exists>s'. kmain_interrupts image0 controller cpu0 = Some s' \<and> irq_handlers s' 0x20 = 0x9000 \<and> irq_handlers s' 0x21 = 0x9100
    \<and> ps2_listener s' = 0x9200"
proof -
  have "working_8042 0x65 controller" by (simp add: working_8042_def controller_def)
  from kmain_interrupts_ready [OF this, of cpu0 image0] show ?thesis by (auto simp: image0_def)
qed

theorem call_cpuid_reads_witness:
  "Printf (line ''CPU Vendor: %s'') [PStr ''GenuineIntel'']
    \<in> set (trace (call_cpuid (\<lambda>_. (0, 0x756E6547, 0x6C65746E, 0x49656E69)) cpu0))"
proof -
  have "word_chars [0x756E6547, 0x49656E69, 0x6C65746E] = ''GenuineIntel''" by code_simp
  then show ?thesis
    using call_cpuid_reads [of "\<lambda>_. (0, 0x756E6547, 0x6C65746E, 0x49656E69)", OF refl refl refl, of cpu0] by simp
qed

subsection \<open>Text in memory\<close>

text \<open>The format \<open>%d\<close> with a line feed at 0x500, \<open>"-"\<close> at 0x510, the local arrays at 0x520.\<close>

definition sprint0 :: sprint where
  "sprint0 = \<lparr>sp_statics = demo_statics, sp_dash = 0x510, sp_loc = 0x520, sp_fin = 0x100000, sp_size = 4096\<rparr>"

definition sprint_console :: serial where
  "sprint_console = console\<lparr>mem := digits_mem(0x500 := 37, 0x501 := 100, 0x502 := 10, 0x510 := 45), padding := 0\<rparr>"

lemma sprint_console_sel [simp]:
  "mem sprint_console = digits_mem(0x500 := 37, 0x501 := 100, 0x502 := 10, 0x510 := 45)"
  "padding sprint_console = 0" "quiet sprint_console"
  using quiet_console by (simp_all add: sprint_console_def quiet_def)

lemma used_by_sprint0:
  "used_by sprint0 x \<longleftrightarrow> in_region 0x100000 4096 x \<or> in_region 0x520 2 x \<or> in_region 0x6000 50 x"
  by (simp add: scratch_def sprint0_def demo_statics_def)

lemma text_at_sprint0:
  assumes "cstr_at m a cs" and "apart a (Suc (length cs)) 0x100000 4096"
    and "apart a (Suc (length cs)) 0x520 2" and "apart a (Suc (length cs)) 0x6000 50"
  shows "text_at (used_by sprint0) m a cs"
  using assms by (auto simp: text_at_def used_by_sprint0 apart_iff)

lemma sprint_console_layout: "text_so_far sprint0 (mem sprint_console) []"
proof -
  let ?m = "mem sprint_console"
  have z: "digits_mem 0x511 = 0" by (simp add: digits_mem_def)
  have "text_at (used_by sprint0) ?m 0x510 [45]"
    by (rule text_at_sprint0) (simp_all add: cstr_at_Cons z apart_def)
  moreover have "bytes_at ?m 0x5000 ltostr_digits"
    using digits_statics_ok by (subst bytes_at_cong [where m = digits_mem])
      (auto simp: statics_ok_def demo_statics_def in_region_def)
  moreover have "apart 0x5000 36 0x100000 4096" "apart 0x5000 36 0x520 2" "apart (0x5000 :: ptr) 36 0x6000 50"
    by (simp_all add: apart_def)
  then have "\<not> used_by sprint0 x" if "in_region 0x5000 36 x" for x
    using that unfolding used_by_sprint0 apart_iff by blast
  ultimately have "layout_ok sprint0 ?m" by (simp add: layout_ok_def sprint0_def demo_statics_def apart_def)
  moreover have "?m (0x100000 + of_nat j) = 0" if "j < 4096" for j
  proof -
    have "unat (0x100000 + of_nat j :: u32) = 0x100000 + j" using that by (simp add: unat_word_ariths unat_of_nat)
    moreover have "unat (0x100000 + of_nat j - 0x5000 :: u32) = 0xFB000 + j"
      using that by (simp add: unat_word_ariths unat_of_nat)
    ultimately show ?thesis by (auto simp: digits_mem_def word_unat_eq_iff)
  qed
  ultimately show ?thesis by (simp add: text_so_far_def holds_def sprint0_def)
qed

lemma rendered_example_unpadded: "rendered 0 [37, 100, 10] [FNum 42] = Some [52, 50, 10]"
proof -
  have "ltostr_out 10 42 0 = [4, 2]" by (simp add: ltostr_out.simps)
  then show ?thesis by (simp add: digits_def digit_char_def)
qed


subsection \<open>Faults\<close>

text \<open>The frame of a page fault at 0x7000.\<close>

definition faulted :: screen where
  "faulted = (screen0 1)\<lparr>mem := store_regs 0x7000 (no_regs\<lparr>r_int_no := 14\<rparr>) (\<lambda>_. 0)\<rparr>"

lemma faulted_int_no: "get_reg INT_NO 0x7000 faulted = 14"
  using load_regs_fields(3) [where s = faulted and r = "0x7000"] by (simp add: faulted_def)

theorem fault_only_reports_witness:
  "\<exists>s'. fhandler (\<lambda>_. []) 0x7000 faulted = s' \<and> Printf (line ''Exception: %s Exception!'') [PStr ''Page Fault''] \<in> set (trace s')"
  using fault_only_reports [OF _ refl, of "0x7000" faulted "\<lambda>_. []"] by (simp add: faulted_int_no exceptions_def)

end
