(* ===== verification/Stubs.thy ===== *)
theory Stubs
  imports Lifecycle
begin

text \<open>
  The interrupt stubs of \<open>kernel/cpu/idt.s\<close>: the instructions between the processor's entry into an
  interrupt and the C functions, as a list of instructions on the registers of the processor and the
  stack in memory. The stubs are straight-line code, so the instruction pointer is followed only where
  the processor itself saves and restores it. The kernel runs in ring 0 throughout, so no interrupt
  changes the stack.

  What the architecture leaves open is a parameter: a selector pushed as 32 bits is extended with zeros
  if \<open>z\<close> holds, and otherwise leaves the upper half of its place as it was.
\<close>

section \<open>The processor\<close>

record core =
  c_eax :: u32
  c_ecx :: u32
  c_edx :: u32
  c_ebx :: u32
  c_esp :: u32
  c_ebp :: u32
  c_esi :: u32
  c_edi :: u32
  c_ds :: u16
  c_es :: u16
  c_fs :: u16
  c_gs :: u16
  c_cs :: u16
  c_eip :: u32
  c_eflags :: u32

datatype sreg = Ds | Es | Fs | Gs

datatype instr = Cli | Xchg_bx_bx | Push_byte u8 | Pusha | Popa | Push_seg sreg | Pop_seg sreg
  | Mov_ax u16 | Mov_seg_ax sreg | Mov_eax_esp | Mov_esp_eax | Mov_eax u32 | Push_eax | Pop_eax
  | Add_esp u32

fun seg :: "sreg \<Rightarrow> core \<Rightarrow> u16" where
  "seg Ds c = c_ds c"
| "seg Es c = c_es c"
| "seg Fs c = c_fs c"
| "seg Gs c = c_gs c"

fun set_seg :: "sreg \<Rightarrow> u16 \<Rightarrow> core \<Rightarrow> core" where
  "set_seg Ds v c = c\<lparr>c_ds := v\<rparr>"
| "set_seg Es v c = c\<lparr>c_es := v\<rparr>"
| "set_seg Fs v c = c\<lparr>c_fs := v\<rparr>"
| "set_seg Gs v c = c\<lparr>c_gs := v\<rparr>"

definition push32 :: "u32 \<Rightarrow> core \<times> mem \<Rightarrow> core \<times> mem" where
  "push32 v = (\<lambda>(c, m). (c\<lparr>c_esp := c_esp c - 4\<rparr>, store32 (c_esp c - 4) v m))"

definition top :: "core \<times> mem \<Rightarrow> u32" where
  "top = (\<lambda>(c, m). load32 m (c_esp c))"

definition drop_top :: "core \<times> mem \<Rightarrow> core \<times> mem" where
  "drop_top = (\<lambda>(c, m). (c\<lparr>c_esp := c_esp c + 4\<rparr>, m))"

definition selector_word :: "bool \<Rightarrow> u16 \<Rightarrow> core \<times> mem \<Rightarrow> u32" where
  "selector_word z v = (\<lambda>(c, m).
     if z then ucast v else (load32 m (c_esp c - 4) AND 0xffff0000) OR ucast v)"

text \<open>\<open>pusha\<close> pushes the stack pointer it started with, \<open>popa\<close> ignores it. The arithmetic flags that
  \<open>add\<close> sets are left out: \<open>iret\<close> follows.\<close>

fun step :: "bool \<Rightarrow> instr \<Rightarrow> core \<times> mem \<Rightarrow> core \<times> mem" where
  "step z Cli x = (fst x\<lparr>c_eflags := c_eflags (fst x) AND NOT 0x200\<rparr>, snd x)"
| "step z Xchg_bx_bx x = x"
| "step z (Push_byte b) x = push32 (scast b) x"
| "step z Pusha x =
     (let c = fst x
      in push32 (c_edi c) (push32 (c_esi c) (push32 (c_ebp c) (push32 (c_esp c) (push32 (c_ebx c)
           (push32 (c_edx c) (push32 (c_ecx c) (push32 (c_eax c) x))))))))"
| "step z Popa x =
     (let (c, m) = x; a = c_esp c
      in (c\<lparr>c_edi := load32 m a, c_esi := load32 m (a + 4), c_ebp := load32 m (a + 8),
            c_ebx := load32 m (a + 16), c_edx := load32 m (a + 20), c_ecx := load32 m (a + 24),
            c_eax := load32 m (a + 28), c_esp := a + 32\<rparr>, m))"
| "step z (Push_seg r) x = push32 (selector_word z (seg r (fst x)) x) x"
| "step z (Pop_seg r) x = drop_top (set_seg r (ucast (top x)) (fst x), snd x)"
| "step z (Mov_ax v) x = (fst x\<lparr>c_eax := (c_eax (fst x) AND 0xffff0000) OR ucast v\<rparr>, snd x)"
| "step z (Mov_seg_ax r) x = (set_seg r (ucast (c_eax (fst x))) (fst x), snd x)"
| "step z Mov_eax_esp x = (fst x\<lparr>c_eax := c_esp (fst x)\<rparr>, snd x)"
| "step z Mov_esp_eax x = (fst x\<lparr>c_esp := c_eax (fst x)\<rparr>, snd x)"
| "step z (Mov_eax v) x = (fst x\<lparr>c_eax := v\<rparr>, snd x)"
| "step z Push_eax x = push32 (c_eax (fst x)) x"
| "step z Pop_eax x = drop_top (fst x\<lparr>c_eax := top x\<rparr>, snd x)"
| "step z (Add_esp v) x = (fst x\<lparr>c_esp := c_esp (fst x) + v\<rparr>, snd x)"

definition steps :: "bool \<Rightarrow> instr list \<Rightarrow> core \<times> mem \<Rightarrow> core \<times> mem" where
  "steps z is x = fold (step z) is x"

text \<open>An interrupt gate of ring 0, as \<open>init_idt\<close> makes them: the processor pushes the flags, the code
  segment and the instruction pointer, and an error code for the exceptions that have one; it clears
  the flags IF, TF, NT, RF and VM. \<open>iret\<close> takes three words back.\<close>

definition has_error_code :: "nat \<Rightarrow> bool" where
  "has_error_code n \<longleftrightarrow> n \<in> {8, 10, 11, 12, 13, 14, 17}"

definition accept :: "bool \<Rightarrow> core \<times> mem \<Rightarrow> core \<times> mem" where
  "accept z x =
     (let x1 = push32 (c_eflags (fst x)) x;
          x2 = push32 (selector_word z (c_cs (fst x)) x1) x1;
          (c, m) = push32 (c_eip (fst x)) x2
      in (c\<lparr>c_cs := 8, c_eflags := c_eflags c AND NOT 0x34300\<rparr>, m))"

definition iret :: "core \<times> mem \<Rightarrow> core \<times> mem" where
  "iret = (\<lambda>(c, m). let a = c_esp c in
     (c\<lparr>c_eip := load32 m a, c_cs := ucast (load32 m (a + 4)), c_eflags := load32 m (a + 8), c_esp := a + 12\<rparr>, m))"

section \<open>The stubs\<close>

text \<open>Exceptions 0 to 31, interrupt lines 0 to 15, and the system call.\<close>

definition isr_stub :: "nat \<Rightarrow> instr list" where
  "isr_stub n = Cli # (if n = 6 then [Xchg_bx_bx] else []) @ [Push_byte 0, Push_byte (of_nat n)]"

definition irq_stub :: "nat \<Rightarrow> instr list" where
  "irq_stub n = [Cli, Push_byte 0, Push_byte (of_nat (32 + n))]"

definition softint_stub :: "instr list" where
  "softint_stub = [Cli, Push_byte 0, Push_byte 0x80]"

text \<open>The common code up to the call of the C function at \<open>f\<close>, and from its return on.\<close>

definition kernel_data :: "u32 \<Rightarrow> instr list" where
  "kernel_data f = Mov_ax 0x10 # map Mov_seg_ax [Ds, Es, Fs, Gs] @ [Mov_eax_esp, Push_eax, Mov_eax f]"

definition isr_common_entry :: "u32 \<Rightarrow> instr list" where
  "isr_common_entry f = Pusha # map Push_seg [Fs, Gs, Ds, Es] @ kernel_data f"

definition isr_common_exit :: "instr list" where
  "isr_common_exit = Pop_eax # map Pop_seg [Es, Ds, Gs, Fs] @ [Popa, Add_esp 8]"

definition irq_common_entry :: "u32 \<Rightarrow> instr list" where
  "irq_common_entry f = Pusha # map Push_seg [Ds, Es, Fs, Gs] @ kernel_data f"

definition irq_common_exit :: "instr list" where
  "irq_common_exit = [Pop_eax, Mov_esp_eax] @ map Pop_seg [Gs, Fs, Es, Ds] @ [Popa, Add_esp 8]"

text \<open>From the interrupted program to the first instruction of the C function: the call has pushed the
  return address \<open>ret\<close>. From the C function's return, which has taken it back, to the program.\<close>

definition enter :: "bool \<Rightarrow> instr list \<Rightarrow> instr list \<Rightarrow> u32 \<Rightarrow> core \<times> mem \<Rightarrow> core \<times> mem" where
  "enter z stub common ret x = push32 ret (steps z (stub @ common) (accept z x))"

definition irq_leave :: "bool \<Rightarrow> core \<times> mem \<Rightarrow> core \<times> mem" where
  "irq_leave z x = iret (steps z irq_common_exit x)"

definition isr_leave :: "bool \<Rightarrow> core \<times> mem \<Rightarrow> core \<times> mem" where
  "isr_leave z x = iret (steps z isr_common_exit x)"

text \<open>A fault: as an interrupt, with the error code on top where the exception has one.\<close>

definition enter_fault :: "bool \<Rightarrow> nat \<Rightarrow> u32 \<Rightarrow> u32 \<Rightarrow> u32 \<Rightarrow> core \<times> mem \<Rightarrow> core \<times> mem" where
  "enter_fault z n err f ret x =
     (let x1 = accept z x; x2 = (if has_error_code n then push32 err x1 else x1)
      in push32 ret (steps z (isr_stub n @ isr_common_entry f) x2))"

section \<open>Properties\<close>

subsection \<open>What is on the stack\<close>

text \<open>Since \<open>x0\<close> the words \<open>ws\<close> were pushed, the last one first, nothing else was written, and the
  other registers are those of \<open>c\<close>.\<close>

definition pushed :: "core \<times> mem \<Rightarrow> core \<Rightarrow> u32 list \<Rightarrow> core \<times> mem \<Rightarrow> bool" where
  "pushed x0 c ws x \<longleftrightarrow> (let sp = c_esp (fst x0) - 4 * of_nat (length ws)
     in fst x = c\<lparr>c_esp := sp\<rparr> \<and> load_words (snd x) sp (length ws) = ws
       \<and> (\<forall>a. \<not> in_region sp (4 * length ws) a \<longrightarrow> snd x a = snd x0 a))"

lemma pushed_refl: "pushed x (fst x) [] x"
  by (simp add: pushed_def)

lemma pushed_esp: "pushed x0 c ws x \<Longrightarrow> c_esp (fst x) = c_esp (fst x0) - 4 * of_nat (length ws)"
  by (simp add: pushed_def Let_def)

lemma pushed_push:
  assumes "pushed x0 c ws x" and "4 * Suc (length ws) \<le> 2 ^ 32"
  shows "pushed x0 c (v # ws) (push32 v x)"
proof -
  obtain c1 m where x: "x = (c1, m)" by fastforce
  let ?n = "length ws" and ?b = "c_esp (fst x0) - 4 * of_nat (length ws)"
  let ?a = "?b - 4"
  have words: "load_words m ?b ?n = ws" and frame: "\<forall>a. \<not> in_region ?b (4 * ?n) a \<longrightarrow> m a = snd x0 a"
    and c1: "c1 = c\<lparr>c_esp := ?b\<rparr>"
    using assms(1) by (simp_all add: pushed_def Let_def x)
  have up: "?a + of_nat 4 = ?b" by simp
  have "load_words (store32 ?a v m) ?b ?n = load_words m ?b ?n"
  proof (rule load_words_cong)
    fix y assume "in_region ?b (4 * ?n) y"
    moreover have "apart ?a 4 ?b (4 * ?n)" using apart_adjacent [of 4 "4 * ?n" ?a] assms(2) unfolding up by simp
    ultimately show "store32 ?a v m y = m y" by (intro store32_outside) (auto simp: apart_iff)
  qed (use assms(2) in simp)
  then have "load_words (store32 ?a v m) ?a (Suc ?n) = v # ws" using words by simp
  moreover have "store32 ?a v m y = snd x0 y" if "\<not> in_region ?a (4 * Suc ?n) y" for y
  proof -
    have "\<not> in_region ?a 4 y" using that in_region_mono [of ?a 4 y "4 * Suc ?n"] by auto
    moreover have "\<not> in_region ?b (4 * ?n) y"
      using that in_subregion [of ?a 4 "4 * ?n" y "4 * Suc ?n"] assms(2) unfolding up by auto
    ultimately show ?thesis using frame by (simp add: store32_outside)
  qed
  moreover have eq: "c_esp (fst x0) - 4 * of_nat (length (v # ws)) = ?a" by (simp add: algebra_simps)
  ultimately show ?thesis unfolding pushed_def Let_def eq by (simp add: push32_def x c1)
qed

lemma pushed_regs:
  assumes "pushed x0 c ws x" and "\<And>v. g (c\<lparr>c_esp := v\<rparr>) = c'\<lparr>c_esp := v\<rparr>"
  shows "pushed x0 c' ws (g (fst x), snd x)"
  using assms by (simp add: pushed_def Let_def)

lemma selector_word: "ucast (selector_word z v x) = (v :: u16)"
proof (rule bit_word_eqI)
  fix n assume n: "n < LENGTH(16)"
  have m: "(0xffff0000 :: u32) = NOT (mask 16)" by (simp add: mask_eq_exp_minus_1)
  show "bit (ucast (selector_word z v x) :: u16) n = bit v n"
    using n unfolding selector_word_def m
    by (auto simp: bit_ucast_iff bit_or_iff bit_and_iff bit_not_iff bit_mask_iff split: prod.splits)
qed

lemma pushed_segment:
  assumes "pushed x0 c ws x" and "length ws < 100" and "seg r (fst x) = v"
  shows "\<exists>w. ucast w = v \<and> pushed x0 c (w # ws) (step z (Push_seg r) x)"
  using pushed_push [OF assms(1)] selector_word [of z v x] assms(2,3) by auto

lemma pushed_all:
  assumes "pushed x0 c ws x" and "length ws < 100"
  shows "pushed x0 c (c_edi c # c_esi c # c_ebp c # (c_esp (fst x0) - 4 * of_nat (length ws)) # c_ebx c
    # c_edx c # c_ecx c # c_eax c # ws) (step z Pusha x)"
proof -
  have "fst x = c\<lparr>c_esp := c_esp (fst x0) - 4 * of_nat (length ws)\<rparr>" using assms(1) by (simp add: pushed_def Let_def)
  then show ?thesis using assms by (simp add: Let_def) (intro pushed_push; simp)
qed

text \<open>The selectors in the kernel, and the words a stub leaves below the error code.\<close>

definition in_kernel :: "u32 \<Rightarrow> core \<Rightarrow> core" where
  "in_kernel f c = c\<lparr>c_ds := 0x10, c_es := 0x10, c_fs := 0x10, c_gs := 0x10, c_eax := f\<rparr>"

lemma pushed_kernel_data:
  assumes "pushed x0 c ws x" and "length ws < 100"
  shows "pushed x0 (in_kernel f c) ((c_esp (fst x0) - 4 * of_nat (length ws)) # ws) (steps z (kernel_data f) x)"
proof -
  let ?sp = "c_esp (fst x0) - 4 * of_nat (length ws)"
  have x: "fst x = c\<lparr>c_esp := ?sp\<rparr>" using assms(1) by (simp add: pushed_def Let_def)
  have ax: "ucast (c_eax c AND 0xffff0000 OR 0x10) = (0x10 :: u16)"
  proof (rule bit_word_eqI)
    have m: "(0xffff0000 :: u32) = NOT (mask 16)" by (simp add: mask_eq_exp_minus_1)
    fix n assume n: "n < LENGTH(16)"
    show "bit (ucast (c_eax c AND 0xffff0000 OR 0x10) :: u16) n = bit (0x10 :: u16) n"
    proof -
      have "bit (0x10 :: u16) n = bit (ucast (0x10 :: u32) :: u16) n" by simp
      then show ?thesis using n unfolding m by (simp add: bit_ucast_iff bit_or_iff bit_and_iff bit_not_iff bit_mask_iff)
    qed
  qed
  have regs: "pushed x0 (c\<lparr>c_ds := 0x10, c_es := 0x10, c_fs := 0x10, c_gs := 0x10, c_eax := ?sp\<rparr>) ws
      (fst x\<lparr>c_ds := 0x10, c_es := 0x10, c_fs := 0x10, c_gs := 0x10, c_eax := ?sp\<rparr>, snd x)"
    by (rule pushed_regs [OF assms(1), of "\<lambda>c. c\<lparr>c_ds := 0x10, c_es := 0x10, c_fs := 0x10, c_gs := 0x10, c_eax := ?sp\<rparr>"]) simp
  let ?y = "push32 ?sp (fst x\<lparr>c_ds := 0x10, c_es := 0x10, c_fs := 0x10, c_gs := 0x10, c_eax := ?sp\<rparr>, snd x)"
  have y: "steps z (kernel_data f) x = (fst ?y\<lparr>c_eax := f\<rparr>, snd ?y)"
    by (simp add: steps_def kernel_data_def x ax)
  have "pushed x0 (in_kernel f c) (?sp # ws) (fst ?y\<lparr>c_eax := f\<rparr>, snd ?y)"
    by (rule pushed_regs [OF pushed_push [OF regs], of "\<lambda>c. c\<lparr>c_eax := f\<rparr>"]) (use assms(2) in \<open>simp_all add: in_kernel_def\<close>)
  then show ?thesis unfolding y .
qed

lemma steps_simps [simp]:
  "steps z [] x = x" "steps z (i # is) x = steps z is (step z i x)"
  "steps z (is @ js) x = steps z js (steps z is x)"
  by (simp_all add: steps_def)

lemma pushed_accept:
  obtains cs where "ucast cs = c_cs (fst x)"
    "pushed x (fst x\<lparr>c_cs := 8, c_eflags := c_eflags (fst x) AND NOT 0x34300\<rparr>)
      [c_eip (fst x), cs, c_eflags (fst x)] (accept z x)"
proof -
  let ?x1 = "push32 (c_eflags (fst x)) x"
  let ?w = "selector_word z (c_cs (fst x)) ?x1"
  let ?x2 = "push32 (c_eip (fst x)) (push32 ?w ?x1)"
  have "pushed x (fst x) [c_eip (fst x), ?w, c_eflags (fst x)] ?x2"
    using pushed_refl [of x] by (intro pushed_push) simp_all
  then have "pushed x (fst x\<lparr>c_cs := 8, c_eflags := c_eflags (fst x) AND NOT 0x34300\<rparr>)
      [c_eip (fst x), ?w, c_eflags (fst x)]
      ((\<lambda>c. c\<lparr>c_cs := 8, c_eflags := c_eflags (fst x) AND NOT 0x34300\<rparr>) (fst ?x2), snd ?x2)"
    by (rule pushed_regs) simp
  moreover have "accept z x = ((\<lambda>c. c\<lparr>c_cs := 8, c_eflags := c_eflags (fst x) AND NOT 0x34300\<rparr>) (fst ?x2), snd ?x2)"
    by (simp add: accept_def Let_def push32_def split: prod.splits)
  ultimately show thesis using that selector_word by metis
qed

lemma pushed_cli: "pushed x0 c ws x \<Longrightarrow> pushed x0 (c\<lparr>c_eflags := c_eflags c AND NOT 0x200\<rparr>) ws (step z Cli x)"
  using pushed_regs [of x0 c ws x "\<lambda>c. c\<lparr>c_eflags := c_eflags c AND NOT 0x200\<rparr>"
      "c\<lparr>c_eflags := c_eflags c AND NOT 0x200\<rparr>"] by simp

lemma pushed_byte: "pushed x0 c ws x \<Longrightarrow> length ws < 100 \<Longrightarrow> pushed x0 c (scast b # ws) (step z (Push_byte b) x)"
  using pushed_push [of x0 c ws x "scast b"] by simp

lemma seg_regs [simp]:
  "seg r (c\<lparr>c_esp := v\<rparr>) = seg r c" "seg r (c\<lparr>c_eflags := v\<rparr>) = seg r c" "seg r (c\<lparr>c_cs := w\<rparr>) = seg r c"
  by (cases r; simp)+

lemma pushed_segments:
  assumes "pushed x0 c ws x" and "length ws + length rs < 100"
  obtains sels where "map ucast sels = map (\<lambda>r. seg r c) (rev rs)"
    "pushed x0 c (sels @ ws) (steps z (map Push_seg rs) x)"
  using assms
proof (induction rs arbitrary: ws x thesis)
  case (Cons r rs)
  have "seg r (fst x) = seg r c" using Cons.prems(2) by (simp add: pushed_def Let_def)
  then obtain w where w: "ucast w = seg r c" "pushed x0 c (w # ws) (step z (Push_seg r) x)"
    using pushed_segment [OF Cons.prems(2), of r "seg r c" z] Cons.prems(3) by force
  obtain sels where s: "map ucast sels = map (\<lambda>r. seg r c) (rev rs)"
    "pushed x0 c (sels @ w # ws) (steps z (map Push_seg rs) (step z (Push_seg r) x))"
    using Cons.IH [OF _ w(2)] Cons.prems(3) by auto
  then show ?case using Cons.prems(1) [of "sels @ [w]"] w(1) by simp
qed simp

text \<open>The common part of both kinds of stub: interrupt number, general registers, selectors, the
  argument and the return address.\<close>

lemma pushed_stub:
  assumes p: "pushed x0 c ws x" and len: "length ws < 40" "length rs = 4" and xs: "\<And>y. steps z xs y = y"
  shows "\<exists>sels. map ucast sels = map (\<lambda>r. seg r c) (rev rs)
    \<and> pushed x0 (in_kernel f (c\<lparr>c_eflags := c_eflags c AND NOT 0x200\<rparr>))
      (ret # (c_esp (fst x0) - 4 * of_nat (length ws + 14)) # sels @ [c_edi c, c_esi c, c_ebp c,
        c_esp (fst x0) - 4 * of_nat (length ws + 2), c_ebx c, c_edx c, c_ecx c, c_eax c, scast b, 0] @ ws)
      (push32 ret (steps z ((Cli # xs @ [Push_byte 0, Push_byte b]) @ Pusha # map Push_seg rs @ kernel_data f) x))"
proof -
  let ?c = "c\<lparr>c_eflags := c_eflags c AND NOT 0x200\<rparr>"
  let ?x1 = "step z (Push_byte b) (step z (Push_byte 0) (step z Cli x))"
  have "pushed x0 ?c (scast b # scast (0 :: u8) # ws) ?x1"
    by (intro pushed_byte pushed_cli [OF p]) (use len in simp_all)
  from pushed_all [OF this, of z] len(1)
  have all: "pushed x0 ?c ([c_edi c, c_esi c, c_ebp c, c_esp (fst x0) - 4 * of_nat (length ws + 2), c_ebx c,
      c_edx c, c_ecx c, c_eax c, scast b, 0] @ ws) (step z Pusha ?x1)" by simp
  obtain sels where s: "map ucast sels = map (\<lambda>r. seg r ?c) (rev rs)"
    "pushed x0 ?c (sels @ [c_edi c, c_esi c, c_ebp c, c_esp (fst x0) - 4 * of_nat (length ws + 2), c_ebx c,
      c_edx c, c_ecx c, c_eax c, scast b, 0] @ ws) (steps z (map Push_seg rs) (step z Pusha ?x1))"
    by (rule pushed_segments [OF all, of rs z]) (use len in simp_all)
  have n: "length sels = 4" using arg_cong [OF s(1), of length] len(2) by simp
  have "length (sels @ [c_edi c, c_esi c, c_ebp c, c_esp (fst x0) - 4 * of_nat (length ws + 2), c_ebx c,
      c_edx c, c_ecx c, c_eax c, scast b, 0] @ ws) = length ws + 14" using n by simp
  from pushed_kernel_data [OF s(2), of f z, unfolded this] len(1)
  have k: "pushed x0 (in_kernel f ?c) ((c_esp (fst x0) - 4 * of_nat (length ws + 14)) # sels @ [c_edi c, c_esi c,
      c_ebp c, c_esp (fst x0) - 4 * of_nat (length ws + 2), c_ebx c, c_edx c, c_ecx c, c_eax c, scast b, 0] @ ws)
      (steps z (kernel_data f) (steps z (map Push_seg rs) (step z Pusha ?x1)))" by simp
  have "steps z ((Cli # xs @ [Push_byte 0, Push_byte b]) @ Pusha # map Push_seg rs @ kernel_data f) x
      = steps z (kernel_data f) (steps z (map Push_seg rs) (step z Pusha ?x1))"
    by (simp only: steps_simps xs)
  with pushed_push [OF k, of ret] n len(1) s(1) show ?thesis by (intro exI [of _ sels]) simp
qed

subsection \<open>Interrupts\<close>

text \<open>The frame holds the state of the interrupted program: the layout \<open>irq_registers_t\<close> without its
  last two words. The stack pointer in it is the one \<open>pusha\<close> saw, below the flags, the code segment,
  the instruction pointer and the two words of the stub.\<close>

definition saves :: "core \<Rightarrow> u32 \<Rightarrow> irq_registers \<Rightarrow> bool" where
  "saves c n r \<longleftrightarrow> ucast (r_gs r) = c_gs c \<and> ucast (r_fs r) = c_fs c \<and> ucast (r_es r) = c_es c
     \<and> ucast (r_ds r) = c_ds c \<and> r_edi r = c_edi c \<and> r_esi r = c_esi c \<and> r_ebp r = c_ebp c
     \<and> r_esp r = c_esp c - 20 \<and> r_ebx r = c_ebx c \<and> r_edx r = c_edx c \<and> r_ecx r = c_ecx c
     \<and> r_eax r = c_eax c \<and> r_int_no r = n \<and> r_err_code r = 0 \<and> r_eip r = c_eip c
     \<and> ucast (r_cs r) = c_cs c \<and> r_eflags r = c_eflags c"

lemma irq_enters:
  assumes "enter z [Cli, Push_byte 0, Push_byte b] (irq_common_entry f) ret (c, m) = (c1, m1)"
  shows "saves c (scast b) (load_regs m1 (c_esp c - 68))" and "c_esp c1 = c_esp c - 76"
    and "load32 m1 (c_esp c - 72) = c_esp c - 68" and "load32 m1 (c_esp c - 76) = ret"
    and "\<not> in_region (c_esp c - 76) 76 a \<Longrightarrow> m1 a = m a"
proof -
  let ?c = "c\<lparr>c_cs := 8, c_eflags := c_eflags c AND NOT 0x34300\<rparr>"
  obtain cs where cs: "ucast cs = c_cs c" "pushed (c, m) ?c [c_eip c, cs, c_eflags c] (accept z (c, m))"
    using pushed_accept [of "(c, m)" z] by auto
  have ent: "push32 ret (steps z ((Cli # [] @ [Push_byte 0, Push_byte b]) @ Pusha # map Push_seg [Ds, Es, Fs, Gs]
      @ kernel_data f) (accept z (c, m))) = (c1, m1)"
    using assms by (simp only: enter_def irq_common_entry_def append.simps)
  obtain sels where p: "map ucast sels = [c_gs c, c_fs c, c_es c, c_ds c]"
    "pushed (c, m) (in_kernel f (?c\<lparr>c_eflags := c_eflags ?c AND NOT 0x200\<rparr>))
      (ret # (c_esp c - 68) # sels @ [c_edi c, c_esi c, c_ebp c, c_esp c - 20, c_ebx c, c_edx c, c_ecx c,
        c_eax c, scast b, 0, c_eip c, cs, c_eflags c]) (c1, m1)"
    using pushed_stub [OF cs(2), where rs = "[Ds, Es, Fs, Gs]" and xs = "[]", of z f ret b] unfolding ent by force
  obtain gs fs es ds where sels: "sels = [gs, fs, es, ds]" "ucast gs = c_gs c" "ucast fs = c_fs c"
    "ucast es = c_es c" "ucast ds = c_ds c" using p(1) by (auto simp: map_eq_Cons_conv)
  note words = p(2) [unfolded sels pushed_def Let_def, simplified]
  show "c_esp c1 = c_esp c - 76" "load32 m1 (c_esp c - 72) = c_esp c - 68" "load32 m1 (c_esp c - 76) = ret"
    "\<not> in_region (c_esp c - 76) 76 a \<Longrightarrow> m1 a = m a"
    using words by simp_all
  show "saves c (scast b) (load_regs m1 (c_esp c - 68))"
    using cs(1) sels(2-5) words
    by (simp add: saves_def load_regs_def words_regs_def nth_load_words del: load_words.simps)
qed

text \<open>What the return makes of a frame at \<open>g\<close>.\<close>

definition restored :: "irq_registers \<Rightarrow> ptr \<Rightarrow> core" where
  "restored r g = \<lparr>c_eax = r_eax r, c_ecx = r_ecx r, c_edx = r_edx r, c_ebx = r_ebx r, c_esp = g + 68,
     c_ebp = r_ebp r, c_esi = r_esi r, c_edi = r_edi r, c_ds = ucast (r_ds r), c_es = ucast (r_es r),
     c_fs = ucast (r_fs r), c_gs = ucast (r_gs r), c_cs = ucast (r_cs r), c_eip = r_eip r, c_eflags = r_eflags r\<rparr>"

lemma irq_leaves:
  assumes "load32 m (c_esp c) = g"
  shows "irq_leave z (c, m) = (restored (load_regs m g) g, m)"
  using assms
  by (cases c) (simp add: irq_leave_def irq_common_exit_def iret_def drop_top_def top_def restored_def load_regs_def
      words_regs_def nth_load_words Let_def add.commute del: load_words.simps)

lemma saves_restored: "saves c n r \<Longrightarrow> restored r g = c\<lparr>c_esp := g + 68\<rparr>"
  by (simp add: saves_def restored_def)

lemma restored_cong:
  assumes "load_words m a 17 = load_words m' a 17"
  shows "restored (load_regs m a) g = restored (load_regs m' a) g"
proof -
  have "load_words m a 19 ! k = load_words m' a 19 ! k" if "k < 17" for k
    using arg_cong [OF assms, of "\<lambda>ws. ws ! k"] that by (simp add: nth_load_words del: load_words.simps)
  then show ?thesis by (simp add: restored_def load_regs_def words_regs_def del: load_words.simps)
qed

text \<open>Claim C7: an interrupt is invisible to the program it interrupts, when its handler returns the frame
  it was given: for every interrupt line, and for the system call, the processor's registers, flags,
  selectors and stack pointer are afterwards what they were, if the C code left the frame and its
  argument alone; and of memory the stub itself writes only the 76 bytes below the stack pointer.\<close>

theorem interrupt_returns_transparently:
  assumes "stub \<in> insert softint_stub (irq_stub ` {..<16})"
    and "enter z stub (irq_common_entry f) ret (c, m) = (c1, m1)"
    and "c_esp c2 = c_esp c1 + 4"
    and "\<And>a. in_region (c_esp c - 72) 72 a \<Longrightarrow> m2 a = m1 a"
  shows "irq_leave z (c2, m2) = (c, m2) \<and> (\<forall>a. \<not> in_region (c_esp c - 76) 76 a \<longrightarrow> m1 a = m a)"
proof -
  obtain b where "stub = [Cli, Push_byte 0, Push_byte b]"
    using assms(1) by (auto simp: softint_stub_def irq_stub_def)
  note e = irq_enters [OF assms(2) [unfolded this]]
  have up: "c_esp c - 72 + of_nat 4 = c_esp c - 68" by simp
  have "load32 m2 (c_esp c2) = load32 m1 (c_esp c - 72)"
  proof -
    have "c_esp c2 = c_esp c - 72" by (simp add: assms(3) e(2))
    moreover have "load32 m2 (c_esp c - 72) = load32 m1 (c_esp c - 72)"
      by (rule load32_cong) (rule assms(4), erule in_region_mono, simp)
    ultimately show ?thesis by simp
  qed
  moreover have "load_words m2 (c_esp c - 68) 17 = load_words m1 (c_esp c - 68) 17"
  proof (rule load_words_cong)
    fix a assume "in_region (c_esp c - 68) (4 * 17) a"
    then have "in_region (c_esp c - 72) 72 a"
      using in_subregion [of "c_esp c - 72" 4 68 a 72] unfolding up by simp
    then show "m2 a = m1 a" by (rule assms(4))
  qed simp
  ultimately have "irq_leave z (c2, m2) = (restored (load_regs m1 (c_esp c - 68)) (c_esp c - 68), m2)"
    using irq_leaves [of m2 c2 "c_esp c - 68" z] e(3) restored_cong [of m2 "c_esp c - 68" m1] by simp
  then show ?thesis using saves_restored [OF e(1)] e(5) by simp
qed

subsection \<open>Preemption\<close>

text \<open>Where the frame of a resumed kernel process is.\<close>

lemma tick_frame:
  assumes "scheduling s" "existing s q" and "irq0_timer_handler fp (s\<lparr>mem := m\<rparr>) = Some (gp, s')"
    and "ring0 (plist s (entry_ptr s (cpid s')))"
  shows "gp = r_esp (load_regs (mem s') gp) - 76"
proof -
  let ?s = "timer_tick (s\<lparr>mem := m\<rparr>)"
  obtain gp1 s1 k where r: "schedule fp ?s = Some (gp1, s1)" "resumes fp (saved fp ?s) s1 gp1"
    by (rule schedule_step [of ?s q fp]) (use assms(1,2) in \<open>auto simp: scheduling_def existing_def intro: that\<close>)
  then have "gp1 = gp" "s1 = s'" using assms(3) by (simp_all add: irq0_timer_handler_def)
  with resumes_ring0 [OF r(2)] resumes_frame(1,2) [OF r(2)] assms(4) show ?thesis
    by (simp add: saved_def set_proc_def frame_size_def)
qed

lemma run_ticks_last:
  assumes "scheduling s" "existing s q" "run_ticks es s = Some (log, s')" "es \<noteq> []"
    and "last log = (p, gp)" "ring0 (plist s (entry_ptr s p))"
  shows "plist s' = plist s \<and> proc_list s' = proc_list s \<and> cpid s' = p \<and> gp = r_esp (load_regs (mem s') gp) - 76"
  using assms
proof (induction es arbitrary: s log)
  case (Cons e es)
  obtain fp m where e: "e = (fp, m)" by fastforce
  obtain gp1 s1 where t: "irq0_timer_handler fp (s\<lparr>mem := m\<rparr>) = Some (gp1, s1)" "plist s1 = plist s"
    "proc_list s1 = proc_list s" "scheduling s1"
    by (rule tick_step [OF Cons.prems(1,2), of fp m]) (rule that; assumption)
  obtain log1 where run: "run_ticks es s1 = Some (log1, s')" "log = (cpid s1, gp1) # log1"
    using Cons.prems(3) t(1) by (auto simp: e split: Option.bind_splits)
  show ?case
  proof (cases "es = []")
    case True
    then have "s' = s1" "(p, gp) = (cpid s1, gp1)" using run Cons.prems(5) by auto
    then show ?thesis using tick_frame [OF Cons.prems(1,2) t(1)] t(2,3) Cons.prems(6) by auto
  next
    case False
    then have "log1 \<noteq> []" using run(1) by (cases es) (auto split: Option.bind_splits prod.splits)
    then show ?thesis
      using Cons.IH [OF t(4) _ run(1) False] Cons.prems(2,5,6) t(2,3) run(2) by (simp add: existing_def)
  qed
qed simp

lemma run_ticks_running:
  assumes "running s p" and "run_ticks es s = Some (log, s')"
  shows "running s' p"
  using assms
proof (induction es arbitrary: s log)
  case (Cons e es)
  obtain fp m where e: "e = (fp, m)" by fastforce
  obtain gp1 s1 where "irq0_timer_handler fp (s\<lparr>mem := m\<rparr>) = Some (gp1, s1)" "running s1 p"
    by (rule tick_running [OF Cons.prems(1), of fp m]) (rule that; assumption)
  then show ?case using Cons.IH [of s1] Cons.prems(2) by (auto simp: e split: Option.bind_splits)
qed simp

text \<open>A kernel process that is interrupted by the timer, and what it is resumed as when its turn comes
  again. \<open>m\<close> is memory at the interrupt; \<open>es\<close> are the interrupts of the other processes; \<open>m2\<close> is
  memory when the C code returns to the stub, with the new frame in the slot of its argument.\<close>

definition preempts ::
    "bool \<Rightarrow> u32 \<Rightarrow> u32 \<Rightarrow> u16 \<Rightarrow> core \<Rightarrow> 'a sched_scheme \<Rightarrow> core \<Rightarrow> 'a sched_scheme \<Rightarrow> bool" where
  "preempts z f ret p c s c' s' \<longleftrightarrow> (\<exists>m c1 m1 es log gp c2 m2.
     enter z (irq_stub 0) (irq_common_entry f) ret (c, m) = (c1, m1)
     \<and> run_ticks ((c_esp c - 68, m1) # es) s = Some (log, s')
     \<and> p \<notin> fst ` set (butlast log) \<and> last log = (p, gp)
     \<and> load32 m2 (c_esp c2) = gp \<and> load_words m2 gp 17 = load_words (mem s') gp 17
     \<and> c' = fst (irq_leave z (c2, m2)))"

lemma preempts_core:
  assumes run: "running s p" "cpid s = p" "ring0 (plist s (entry_ptr s p))" and pre: "preempts z f ret p c s c' s'"
  shows "c' = c\<lparr>c_esp := c_esp c - 28\<rparr> \<and> running s' p \<and> cpid s' = p \<and> ring0 (plist s' (entry_ptr s' p))"
proof -
  obtain m c1 m1 es log gp c2 m2 where e: "enter z (irq_stub 0) (irq_common_entry f) ret (c, m) = (c1, m1)"
    and t: "run_ticks ((c_esp c - 68, m1) # es) s = Some (log, s')" "p \<notin> fst ` set (butlast log)" "last log = (p, gp)"
    and l: "load32 m2 (c_esp c2) = gp" "load_words m2 gp 17 = load_words (mem s') gp 17" "c' = fst (irq_leave z (c2, m2))"
    using pre unfolding preempts_def by blast
  have on: "scheduling s" "existing s p" using run(1) by (simp_all add: running_def)
  note last = run_ticks_last [OF on t(1) _ t(3) run(3)]
  have kept: "load_regs (mem s') gp = load_regs m1 (c_esp c - 68)"
    by (rule interrupted_registers_kept [OF run(1,2) t])
  note saves = irq_enters(1) [OF e [unfolded irq_stub_def], folded kept]
  have "c' = restored (load_regs (mem s') gp) gp"
    using irq_leaves [OF l(1)] restored_cong [OF l(2)] l(3) by simp
  also have "\<dots> = c\<lparr>c_esp := gp + 68\<rparr>" by (rule saves_restored [OF saves])
  also have "gp + 68 = c_esp c - 28"
    using last saves by (simp add: saves_def)
  finally show ?thesis using last run_ticks_running [OF run(1) t(1)] run(3) by simp
qed

text \<open>There is such a turn of every process, whatever the others do.\<close>

lemma first_turn:
  assumes "running s p"
  obtains es log s' g where "run_ticks es s = Some (log, s')" "p \<notin> fst ` set (butlast ((cpid s, g1) # log))"
    "last ((cpid s, g1) # log) = (p, g)"
proof -
  have on: "scheduling s" "existing s p" using assms by (simp_all add: running_def)
  let ?es = "replicate (turns_until s p) (0x7000, \<lambda>_. 0)"
  obtain log s' where r: "run_ticks ?es s = Some (log, s')" "length log = length ?es"
    "?es \<noteq> [] \<longrightarrow> fst (last log) = p \<and> p \<notin> fst ` set (butlast log)"
    using run_ticks_first_turn [OF on, of ?es] by auto
  have "turns_until s p = 0 \<longleftrightarrow> p = cpid s" by (rule turns_until_self [OF on(2)])
  then show thesis
    using r by (intro that [OF r(1), of "snd (last ((cpid s, g1) # log))"]) (auto simp: prod_eq_iff)
qed

lemma slot_above_frame: "load_words (store32 (g + 100) g m) g 17 = load_words m g 17"
proof (rule load_words_cong)
  fix a assume a: "in_region g (4 * 17) a"
  have "\<not> in_region (g + 100) 4 a"
  proof
    assume "in_region (g + 100) 4 a"
    then have "unat (a - g - 100) < 4" by (simp add: in_region_def algebra_simps)
    moreover have "unat (a - g) < 68" using a by (simp add: in_region_def)
    ultimately show False by (simp add: unat_sub_if_size word_size split: if_splits)
  qed
  then show "store32 (g + 100) g m a = m a" by (rule store32_outside)
qed simp

lemma preempts_exists:
  assumes "running s p" "cpid s = p" "ring0 (plist s (entry_ptr s p))"
  shows "\<exists>c' s'. preempts z f ret p c s c' s'"
proof -
  obtain c1 m1 where e: "enter z (irq_stub 0) (irq_common_entry f) ret (c, \<lambda>_. 0) = (c1, m1)" by fastforce
  obtain g1 s1 where t: "irq0_timer_handler (c_esp c - 68) (s\<lparr>mem := m1\<rparr>) = Some (g1, s1)" "running s1 p"
    by (rule tick_running [OF assms(1), of "c_esp c - 68" m1]) (rule that; assumption)
  obtain es log s' g where r: "run_ticks es s1 = Some (log, s')"
    "p \<notin> fst ` set (butlast ((cpid s1, g1) # log))" "last ((cpid s1, g1) # log) = (p, g)"
    by (rule first_turn [OF t(2)])
  have "run_ticks ((c_esp c - 68, m1) # es) s = Some ((cpid s1, g1) # log, s')" using t(1) r(1) by simp
  with e r(2,3) slot_above_frame [of g "mem s'"]
  have "preempts z f ret p c s (fst (irq_leave z (c\<lparr>c_esp := g + 100\<rparr>, store32 (g + 100) g (mem s')))) s'"
    unfolding preempts_def
    by (intro exI [of _ "\<lambda>_. 0"] exI [of _ c1] exI [of _ m1] exI [of _ es] exI [of _ "(cpid s1, g1) # log"] exI [of _ g]
        exI [of _ "c\<lparr>c_esp := g + 100\<rparr>"] exI [of _ "store32 (g + 100) g (mem s')"]) simp
  then show ?thesis by blast
qed

text \<open>Claim C3: a preempted kernel process gets all its registers, its flags and its selectors back and
  goes on where it was, but with its stack pointer 28 bytes too low: the frame is restored 76 bytes, the
  size with the two words of a user frame, below the stack pointer \<open>pusha\<close> saved, which itself is 20
  bytes below the one of the process; the stub then takes only the 68 bytes of a kernel frame.\<close>

theorem preemption_lowers_stack:
  assumes "scheduling s" "sched_inv s" "existing s p" "cpid s = p" "ring0 (plist s (entry_ptr s p))"
    and "preempts z f ret p c s c' s'"
  shows "c' = c\<lparr>c_esp := c_esp c - 28\<rparr>"
proof -
  have "running s p" using assms(1-4) sched_inv_own_procs by (simp add: running_def)
  then show ?thesis using preempts_core assms(4-6) by blast
qed

text \<open>\<open>n\<close> turns of a process that does not touch its registers, as \<open>idle\<close>, which jumps to itself: it is
  interrupted each time as it was resumed.\<close>

inductive turns ::
    "bool \<Rightarrow> u32 \<Rightarrow> u32 \<Rightarrow> u16 \<Rightarrow> nat \<Rightarrow> core \<Rightarrow> 'a sched_scheme \<Rightarrow> core \<Rightarrow> 'a sched_scheme \<Rightarrow> bool"
  for z f ret p where
  no_turn: "turns z f ret p 0 c s c s"
| turn: "turns z f ret p n c s c1 s1 \<Longrightarrow> preempts z f ret p c1 s1 c2 s2 \<Longrightarrow> turns z f ret p (Suc n) c s c2 s2"

lemma turns_core:
  assumes "turns z f ret p n c s c' s'" and "running s p" "cpid s = p" "ring0 (plist s (entry_ptr s p))"
  shows "c' = c\<lparr>c_esp := c_esp c - 28 * of_nat n\<rparr> \<and> running s' p \<and> cpid s' = p \<and> ring0 (plist s' (entry_ptr s' p))"
  using assms
proof (induction rule: turns.induct)
  case (turn n c s c1 s1 c2 s2)
  then have "c1 = c\<lparr>c_esp := c_esp c - 28 * of_nat n\<rparr>" and on: "running s1 p" "cpid s1 = p"
    "ring0 (plist s1 (entry_ptr s1 p))" by blast+
  then show ?case using preempts_core [OF on turn.hyps(2)] by (simp add: algebra_simps)
qed simp

lemma turns_exists:
  assumes "running s p" "cpid s = p" "ring0 (plist s (entry_ptr s p))"
  shows "\<exists>c' s'. turns z f ret p n c s c' s'"
proof (induction n)
  case 0
  show ?case using no_turn by blast
next
  case (Suc n)
  then obtain c1 s1 where t: "turns z f ret p n c s c1 s1" by blast
  then have "running s1 p" "cpid s1 = p" "ring0 (plist s1 (entry_ptr s1 p))" using turns_core [OF t assms] by blast+
  then show ?case using preempts_exists turn [OF t] by blast
qed

text \<open>Claim C13: the idle process runs out of its stack. However high in its page of 4096 bytes the stack
  pointer starts, after 147 turns the next interrupt writes its frame outside the page.\<close>

theorem idle_leaves_its_stack:
  assumes "scheduling s" "sched_inv s" "existing s p" "cpid s = p" "ring0 (plist s (entry_ptr s p))"
    and "turns z f ret p n c s c' s'" and "147 \<le> n" "n < 10 ^ 6"
    and "0 < unat (c_esp c - base)" "unat (c_esp c - base) \<le> 4096"
  shows "c_esp c' = c_esp c - 28 * of_nat n \<and> \<not> in_region base 4096 (c_esp c' - 4)"
proof -
  have "running s p" using assms(1-4) sched_inv_own_procs by (simp add: running_def)
  then have esp: "c_esp c' = c_esp c - 28 * of_nat n" using turns_core [OF assms(6)] assms(4,5) by simp
  let ?d = "c_esp c - base" and ?k = "of_nat (28 * n + 4) :: u32"
  have k: "unat ?k = 28 * n + 4" by (rule unat_of_nat_u32) (use assms(8) in simp)
  have eq: "c_esp c' - 4 - base = ?d - ?k" by (simp add: esp algebra_simps)
  have far: "\<not> unat (?d - ?k) < 4096"
    using assms(7,8,10) k by (simp add: unat_sub_if_size word_size)
  show ?thesis
  proof
    show "\<not> in_region base 4096 (c_esp c' - 4)" unfolding in_region_def eq by (rule far)
  qed (rule esp)
qed

subsection \<open>System calls\<close>

lemma system_call_put_away:
  fixes s :: "'a intr_scheme"
  assumes on: "scheduling s" "sched_inv s" "existing s p" "cpid s = p"
    and proc: "ring0 (plist s (entry_ptr s p))" "abi (procs s (proc_ptr s p)) = 0"
    and enter: "enter z softint_stub (irq_common_entry f) ret (c, m) = (c1, mem s)"
    and al: "sys_kumalloc (sint (c_ebx c div 4096 + 1)) 6 (ucast p) s = (a, s0)"
    and ax: "(c_eax c, v) \<in> {(7, ucast p), (8, get_proc (c_ebx c) s), (9, a)}"
  obtains g1 s1 where "irq_handler call d slash dirent0 (c_esp c - 68) s = Some (g1, s1)" "running s1 p"
    "plist s1 = plist s" "proc_list s1 = proc_list s"
    "saves (c\<lparr>c_eax := v\<rparr>) (scast (0x80 :: u8)) (regs (procs s1 (proc_ptr s1 p)))"
    "load_regs (mem s1) g1 = regs (procs s1 (proc_ptr s1 (cpid s1)))"
    "ring0 (plist s (entry_ptr s (cpid s1))) \<Longrightarrow> g1 = r_esp (load_regs (mem s1) g1) - 76"
proof -
  let ?r = "c_esp c - 68"
  note saved = irq_enters(1) [OF enter [unfolded softint_stub_def]]
  have reg: "get_reg EAX ?r s = c_eax c" "get_reg EBX ?r s = c_ebx c" "(ucast (get_reg INT_NO ?r s) :: u8) = 0x80"
    using saved unfolding load_regs_fields [symmetric] by (simp_all add: saves_def)
  obtain g1 s1 where step: "irq_handler call d slash dirent0 ?r s = Some (g1, s1)"
    "procs s1 = (procs s)(proc_ptr s p := procs s (proc_ptr s p)\<lparr>regs := (load_regs (mem s) ?r)\<lparr>r_eax := v\<rparr>\<rparr>)"
    "plist s1 = plist s" "proc_list s1 = proc_list s" "scheduling s1" "existing s1 (cpid s1)"
    "load_regs (mem s1) g1 = regs (procs s1 (proc_ptr s1 (cpid s1)))"
    "ring0 (plist s (entry_ptr s (cpid s1))) \<Longrightarrow> g1 = r_esp (load_regs (mem s1) g1) - frame_size"
    by (rule system_call_step [of s ?r a s0 v call d slash dirent0]) (use on proc reg al ax in \<open>simp_all\<close>)
  have "running s1 p"
    using sched_inv_own_procs [OF on(2)] on(3) step(3-6) by (simp add: running_def own_procs_def existing_def)
  moreover have "saves (c\<lparr>c_eax := v\<rparr>) (scast (0x80 :: u8)) (regs (procs s1 (proc_ptr s1 p)))"
    using saved step(2-4) by (simp add: saves_def)
  ultimately show thesis using step that by (simp add: frame_size_def)
qed

text \<open>Claim C16: a system call from the instruction \<open>int 0x80\<close> to the one after it. A kernel process that asks
  for its pid, for the entry of the process \<open>ebx\<close> names or for memory is put away, and when its turn comes
  again, after whatever timer interrupts of the other processes, it goes on with the answer in
  \<open>eax\<close> and all its other registers, flags and selectors as they were, but for the stack pointer, which
  a system call lowers like a preemption.\<close>

theorem system_call_resumes:
  fixes s :: "'a intr_scheme"
  assumes on: "scheduling s" "sched_inv s" "existing s p" "cpid s = p"
    and proc: "ring0 (plist s (entry_ptr s p))" "abi (procs s (proc_ptr s p)) = 0"
    and enter: "enter z softint_stub (irq_common_entry f) ret (c, m) = (c1, mem s)"
    and al: "sys_kumalloc (sint (c_ebx c div 4096 + 1)) 6 (ucast p) s = (a, s0)"
    and ax: "(c_eax c, v) \<in> {(7, ucast p), (8, get_proc (c_ebx c) s), (9, a)}"
    and irq: "irq_handler call d slash dirent0 (c_esp c - 68) s = Some (g1, s1)"
    and run: "run_ticks es s1 = Some (log, s')"
    and turn: "p \<notin> fst ` set (butlast ((cpid s1, g1) # log))" "last ((cpid s1, g1) # log) = (p, g)"
    and left: "load32 m2 (c_esp c2) = g" "load_words m2 g 17 = load_words (mem s') g 17"
  shows "fst (irq_leave z (c2, m2)) = c\<lparr>c_eax := v, c_esp := c_esp c - 28\<rparr>"
proof -
  obtain u r1 where put: "irq_handler call d slash dirent0 (c_esp c - 68) s = Some (r1, u)" "running u p"
    "plist u = plist s" "proc_list u = proc_list s"
    "saves (c\<lparr>c_eax := v\<rparr>) (scast (0x80 :: u8)) (regs (procs u (proc_ptr u p)))"
    "load_regs (mem u) r1 = regs (procs u (proc_ptr u (cpid u)))"
    "ring0 (plist s (entry_ptr s (cpid u))) \<Longrightarrow> r1 = r_esp (load_regs (mem u) r1) - 76"
    by (rule system_call_put_away [OF on proc enter al ax, of call d slash dirent0]) (rule that; assumption)
  have "r1 = g1" "u = s1" using put(1) irq by simp_all
  note s1 = put(2-7) [unfolded this]
  have kept: "load_regs (mem s') g = regs (procs s1 (proc_ptr s1 p))"
    by (rule run_ticks_keeps_context [OF s1(1) refl s1(5) run turn])
  have "g = r_esp (load_regs (mem s') g) - 76"
  proof (cases "es = []")
    case True
    then show ?thesis using run turn s1(6) proc(1) by auto
  next
    case False
    have "log \<noteq> []" using run False by (cases es) (auto split: Option.bind_splits prod.splits)
    moreover have "scheduling s1" "existing s1 p" using s1(1) by (simp_all add: running_def)
    ultimately show ?thesis
      using run_ticks_last [of s1 p es log s' p g] run False turn(2) proc(1) s1(2,3) by simp
  qed
  then show ?thesis
    using irq_leaves [OF left(1)] restored_cong [OF left(2)] saves_restored [OF s1(4) [folded kept]] s1(4) kept
    by (simp add: saves_def)
qed

subsection \<open>A process alone\<close>

text \<open>Claim C11: the scheduler needs a second process. If the interrupted kernel process is the only one, it
  is resumed from a frame on the very stack the scheduler is running on: restoring it overwrites the
  return address of \<open>_irq_handler\<close> with the process's \<open>esi\<close> and the slot of its argument with
  \<open>ebp\<close>. A comment in \<open>main.c\<close> wonders why the idle process has to exist.\<close>

theorem lone_process_overwrites_return_address:
  assumes "scheduling s" "existing s p" "cpid s = p" "ring0 (plist s (entry_ptr s p))"
    and only: "\<And>q. existing s q \<Longrightarrow> q = p"
    and "enter z (irq_stub 0) (irq_common_entry f) ret (c, m) = (c1, m1)"
  shows "load32 m1 (c_esp c1) = ret
    \<and> (\<exists>gp s'. irq0_timer_handler (c_esp c - 68) (s\<lparr>mem := m1\<rparr>) = Some (gp, s')
        \<and> load32 (mem s') (c_esp c1) = c_esi c \<and> load32 (mem s') (c_esp c1 + 4) = c_ebp c)"
proof -
  note e = irq_enters [OF assms(6) [unfolded irq_stub_def]]
  obtain gp s' k where t: "irq0_timer_handler (c_esp c - 68) (s\<lparr>mem := m1\<rparr>) = Some (gp, s')"
    "cpid s' = cpid s + of_nat k" "next_in_turn s k" "plist s' = plist s" "proc_list s' = proc_list s"
    "procs s' = (if cpid s \<noteq> 0
      then (procs s)(proc_ptr s (cpid s) := procs s (proc_ptr s (cpid s))\<lparr>regs := load_regs m1 (c_esp c - 68)\<rparr>)
      else procs s)"
    "load_regs (mem s') gp = regs (procs s' (proc_ptr s' (cpid s')))"
    by (rule tick_step [OF assms(1,2), of "c_esp c - 68" m1]) (rule that; assumption)
  have "existing s (cpid s')" using t(2,3) by (simp add: existing_def next_in_turn_def)
  then have p: "cpid s' = p" by (rule only)
  have r: "load_regs (mem s') gp = load_regs m1 (c_esp c - 68)"
    using t(4-7) p assms(2,3) by (simp add: existing_def)
  have "gp = r_esp (load_regs (mem s') gp) - 76"
    using tick_frame [OF assms(1,2) t(1)] assms(4) p by simp
  then have gp: "gp = c_esp c - 96" using e(1) unfolding r by (simp add: saves_def)
  have "r_esi (load_regs (mem s') gp) = load32 (mem s') (gp + 20)" "r_ebp (load_regs (mem s') gp) = load32 (mem s') (gp + 24)"
    by (simp_all add: load_regs_def words_regs_def nth_load_words del: load_words.simps)
  moreover have "gp + 20 = c_esp c1" "gp + 24 = c_esp c1 + 4" by (simp_all add: gp e(2))
  ultimately show ?thesis using t(1) e(1,2,4) unfolding r by (simp add: saves_def)
qed

end
