(* ===== verification/Faults.thy ===== *)
theory Faults
  imports Stubs Panic
begin

text \<open>
  Processor faults from the exception to the report: where the gates of \<open>init_idt\<close> lead among the
  stubs of \<open>cpu/idt.s\<close>, what the stubs leave on the stack for \<open>_fhandler\<close>, and what the report then
  says.
\<close>

section \<open>Where the stubs are\<close>

text \<open>The lengths of the instructions in 32-bit code. A jump is two or five bytes long, as the assembler
  decides: the length of the jump that ends stub \<open>i\<close> is the parameter \<open>jmp i\<close>.\<close>

fun instr_size :: "instr \<Rightarrow> nat" where
  "instr_size Cli = 1"
| "instr_size Xchg_bx_bx = 3"
| "instr_size (Push_byte b) = 2"
| "instr_size Pusha = 1"
| "instr_size Popa = 1"
| "instr_size (Push_seg r) = (if r = Ds \<or> r = Es then 1 else 2)"
| "instr_size (Pop_seg r) = (if r = Ds \<or> r = Es then 1 else 2)"
| "instr_size (Mov_ax v) = 4"
| "instr_size (Mov_seg_ax r) = 2"
| "instr_size Mov_eax_esp = 2"
| "instr_size Mov_esp_eax = 2"
| "instr_size (Mov_eax v) = 5"
| "instr_size Push_eax = 1"
| "instr_size Pop_eax = 1"
| "instr_size (Add_esp v) = 3"

definition stub_address :: "(nat \<Rightarrow> instr list) \<Rightarrow> (nat \<Rightarrow> nat) \<Rightarrow> u32 \<Rightarrow> nat \<Rightarrow> u32" where
  "stub_address stub jmp start n = start + of_nat (\<Sum>i<n. sum_list (map instr_size (stub i)) + jmp i)"

section \<open>Properties\<close>

subsection \<open>The gates\<close>

lemma sizes [simp]:
  "sum_list (map instr_size (isr_stub n)) = (if n = 6 then 8 else 5)"
  "sum_list (map instr_size (irq_stub n)) = 5"
  by (simp_all add: isr_stub_def irq_stub_def)

lemma isr_address:
  assumes "\<forall>i < n. jmp i = j"
  shows "stub_address isr_stub jmp start n = start + of_nat (n * (5 + j) + (if 6 < n then 3 else 0))"
proof -
  have "(\<Sum>i<n. sum_list (map instr_size (isr_stub i)) + jmp i) = n * (5 + j) + (if 6 < n then 3 else 0)"
    using assms by (induction n) auto
  then show ?thesis by (simp only: stub_address_def)
qed

lemma irq_address:
  assumes "\<forall>i < n. jmp i = j"
  shows "stub_address irq_stub jmp start n = start + of_nat (n * (5 + j))"
proof -
  have "(\<Sum>i<n. sum_list (map instr_size (irq_stub i)) + jmp i) = n * (5 + j)"
    using assms by (induction n) auto
  then show ?thesis by (simp only: stub_address_def)
qed


subsection \<open>The frame\<close>

lemma load_words_17:
  "load_words m a 17 = [load32 m a, load32 m (a + 4), load32 m (a + 8), load32 m (a + 12), load32 m (a + 16), load32 m (a +
    20), load32 m (a + 24), load32 m (a + 28), load32 m (a + 32), load32 m (a + 36), load32 m (a + 40),
    load32 m (a + 44), load32 m (a + 48), load32 m (a + 52), load32 m (a + 56), load32 m (a + 60),
    load32 m (a + 64)]"
  by (simp add: eval_nat_numeral add.commute)

lemma fault_frame:
  assumes "enter_fault z n err f ret (c, m) = (c1, m1)" and "n < 32"
    and "k = (if has_error_code n then 4 else 0)" and "frame = c_esp c - 68 - k"
  shows "\<exists>gs fs es ds cs. ucast gs = c_gs c \<and> ucast fs = c_fs c \<and> ucast es = c_es c \<and> ucast ds = c_ds c
    \<and> ucast cs = c_cs c
    \<and> load_words m1 frame 17 = [es, ds, gs, fs, c_edi c, c_esi c, c_ebp c, c_esp c - 20 - k, c_ebx c,
        c_edx c, c_ecx c, c_eax c, of_nat n, 0] @ take 3 ((if has_error_code n then [err] else []) @
        [c_eip c, cs, c_eflags c])
    \<and> load32 m1 (frame - 4) = frame \<and> c_esp c1 = frame - 8"
proof -
  let ?c = "c\<lparr>c_cs := 8, c_eflags := c_eflags c AND NOT 0x34300\<rparr>"
  let ?ws = "\<lambda>cs. (if has_error_code n then [err] else []) @ [c_eip c, cs, c_eflags c]"
  obtain cs where cs: "ucast cs = c_cs c" "pushed (c, m) ?c [c_eip c, cs, c_eflags c] (accept z (c, m))"
    using pushed_accept [of "(c, m)" z] by auto
  let ?x = "if has_error_code n then push32 err (accept z (c, m)) else accept z (c, m)"
  have x: "pushed (c, m) ?c (?ws cs) ?x" using cs(2) pushed_push [OF cs(2), of err] by simp
  have b: "scast (of_nat n :: u8) = (of_nat n :: u32)"
  proof -
    have "list_all (\<lambda>n. scast (of_nat n :: u8) = (of_nat n :: u32)) [0..<32]" by code_simp
    then show ?thesis using assms(2) by (simp add: list_all_iff)
  qed
  have ent: "push32 ret (steps z ((Cli # (if n = 6 then [Xchg_bx_bx] else []) @ [Push_byte 0, Push_byte (of_nat n)])
      @ Pusha # map Push_seg [Fs, Gs, Ds, Es] @ kernel_data f) ?x) = (c1, m1)"
    using assms(1) by (simp only: enter_fault_def isr_stub_def isr_common_entry_def Let_def append.simps)
  have len: "length (?ws cs) < 40" "length [Fs, Gs, Ds, Es] = 4" "steps z (if n = 6 then [Xchg_bx_bx] else []) y = y" for y
    by simp_all
  have sp: "c_esp c - 4 * of_nat (length (?ws cs) + 14) = frame" "c_esp c - 4 * of_nat (length (?ws cs) + 2) = c_esp c - 20 - k"
    by (simp_all add: assms(3,4))
  have "\<exists>sels. map ucast sels = [c_es c, c_ds c, c_gs c, c_fs c] \<and> (\<exists>K. pushed (c, m) K
      (ret # frame # sels @ [c_edi c, c_esi c, c_ebp c, c_esp c - 20 - k, c_ebx c, c_edx c, c_ecx c,
        c_eax c, of_nat n, 0] @ ?ws cs) (c1, m1))"
    using pushed_stub [OF x len, of f ret "of_nat n"] unfolding ent b sp fst_conv by fastforce
  then obtain K es ds gs fs where p: "ucast es = c_es c" "ucast ds = c_ds c" "ucast gs = c_gs c" "ucast fs = c_fs c"
    "pushed (c, m) K (ret # frame # [es, ds, gs, fs] @ [c_edi c, c_esi c, c_ebp c, c_esp c - 20 - k, c_ebx c,
      c_edx c, c_ecx c, c_eax c, of_nat n, 0] @ ?ws cs) (c1, m1)"
    by (auto simp: map_eq_Cons_conv)
  have "load_words m1 frame 17 = [es, ds, gs, fs, c_edi c, c_esi c, c_ebp c, c_esp c - 20 - k, c_ebx c,
        c_edx c, c_ecx c, c_eax c, of_nat n, 0] @ take 3 (?ws cs) \<and> load32 m1 (frame - 4) = frame \<and> c_esp c1 = frame - 8"
  proof (cases "has_error_code n")
    case True
    show ?thesis using p(5) by (simp add: True assms(3,4) pushed_def Let_def load_words_17)
  next
    case False
    show ?thesis using p(5) by (simp add: False assms(3,4) pushed_def Let_def load_words_17)
  qed
  then show ?thesis using p(1-4) cs(1) by blast
qed

lemma fault_regs:
  assumes "load_words m a 17 = [es, ds, gs, fs, edi, esi, ebp, esp, ebx, edx, ecx, eax, no, code, w, v, u]"
  shows "load32 m (a + 4 * of_nat Panic.DS) = fs" "load32 m (a + 4 * of_nat EBP) = ebp"
    "load32 m (a + 4 * of_nat ESP) = esp" "load32 m (a + 4 * of_nat INT_NO) = no"
    "load32 m (a + 4 * of_nat ERR_CODE) = code" "load32 m (a + 4 * of_nat EIP) = w" "load32 m (a + 4 * of_nat CS) = v"
  using assms by (simp_all add: load_words_17 Panic.DS_def EBP_def ESP_def INT_NO_def ERR_CODE_def EIP_def CS_def)

text \<open>The registers the end of the common stub takes from the 17 words of a frame.\<close>

definition exception_frame :: "u32 list \<Rightarrow> u32 \<Rightarrow> core" where
  "exception_frame ws esp = \<lparr>c_eax = ws ! 11, c_ecx = ws ! 10, c_edx = ws ! 9, c_ebx = ws ! 8, c_esp = esp,
     c_ebp = ws ! 6, c_esi = ws ! 5, c_edi = ws ! 4, c_ds = ucast (ws ! 1), c_es = ucast (ws ! 0),
     c_fs = ucast (ws ! 3), c_gs = ucast (ws ! 2), c_cs = ucast (ws ! 15), c_eip = ws ! 14, c_eflags = ws ! 16\<rparr>"

text \<open>If the fault handler returned, an exception without an error code would be as invisible as an
  interrupt; one with an error code would go on at the address the code is, with the place of the fault
  as its code segment. \<open>_fhandler\<close> does not return.\<close>

lemma exception_returns:
  assumes "enter_fault z n err f ret (c, m) = (c1, m1)" and "n < 32" and "c_esp c2 = c_esp c1 + 4"
    and "load_words m2 (c_esp c1 + 4) 18 = load_words m1 (c_esp c1 + 4) 18"
  shows "fst (isr_leave z (c2, m2)) =
    (if has_error_code n then c\<lparr>c_esp := c_esp c - 4, c_eip := err, c_cs := ucast (c_eip c),
        c_eflags := c_eflags (fst (isr_leave z (c2, m2)))\<rparr> else c)"
proof -
  let ?k = "if has_error_code n then 4 else 0 :: u32" and ?a = "c_esp c - 68 - (if has_error_code n then 4 else 0)"
  obtain gs fs es ds cs where w: "ucast gs = c_gs c" "ucast fs = c_fs c" "ucast es = c_es c" "ucast ds = c_ds c"
    "ucast cs = c_cs c" "load_words m1 ?a 17 = [es, ds, gs, fs, c_edi c, c_esi c,
      c_ebp c, c_esp c - 20 - ?k, c_ebx c, c_edx c, c_ecx c, c_eax c, of_nat n, 0]
      @ take 3 ((if has_error_code n then [err] else []) @ [c_eip c, cs, c_eflags c])" "load32 m1 (?a - 4) = ?a"
    "c_esp c1 = ?a - 8"
    using fault_frame [OF assms(1,2) refl refl] by blast
  have up: "load_words x b 18 = load32 x b # load_words x (b + 4) 17" for x :: mem and b
    by (simp add: numeral_eq_Suc)
  have b: "c_esp c1 + 4 = ?a - 4" "?a - 4 + 4 = ?a" unfolding w(8) by simp_all
  have m2: "load32 m2 (c_esp c2) = ?a" "load_words m2 ?a 17 = load_words m1 ?a 17" "c_esp c2 = ?a - 4"
    using assms(3,4) w(7) unfolding b up by simp_all
  have "fst (isr_leave z (c2, m2)) = exception_frame (load_words m2 ?a 17) (?a + 68)"
    unfolding load_words_17 exception_frame_def using m2(3)
    by (cases c2) (simp add: isr_leave_def isr_common_exit_def iret_def drop_top_def top_def Let_def add.commute)
  then show ?thesis unfolding m2(2) w(6) using w(1-5)
    by (cases "has_error_code n") (simp_all add: exception_frame_def)
qed

subsection \<open>The report\<close>


end
