(* ===== verification/StubExamples.thy ===== *)
theory StubExamples
  imports Faults BootExamples
begin

text \<open>The properties of the interrupt stubs at concrete states of the processor and of the kernel.\<close>

subsection \<open>Interrupts\<close>

definition core0 :: core where
  "core0 = \<lparr>c_eax = 1, c_ecx = 2, c_edx = 3, c_ebx = 4, c_esp = 0x9000, c_ebp = 6, c_esi = 7, c_edi = 8,
     c_ds = 0x23, c_es = 0x23, c_fs = 0x10, c_gs = 0x10, c_cs = 8, c_eip = 0x1234, c_eflags = 0x202\<rparr>"

theorem interrupt_returns_transparently_witness:
  "\<exists>c1 m1. enter True (irq_stub 1) (irq_common_entry 0x5000) 0x6000 (core0, \<lambda>_. 0) = (c1, m1)
    \<and> irq_leave True (c1\<lparr>c_esp := c_esp c1 + 4, c_eax := 0\<rparr>, m1) = (core0, m1)"
proof -
  obtain c1 m1 where e: "enter True (irq_stub 1) (irq_common_entry 0x5000) 0x6000 (core0, \<lambda>_. 0) = (c1, m1)"
    by fastforce
  from interrupt_returns_transparently [OF _ e, of "c1\<lparr>c_esp := c_esp c1 + 4, c_eax := 0\<rparr>" m1] e show ?thesis
    by auto
qed

subsection \<open>Preemption\<close>

text \<open>The two processes of the scheduler's examples, in the kernel.\<close>

definition kernel_two :: "u16 \<Rightarrow> sched" where
  "kernel_two c = two_processes c\<lparr>plist := \<lambda>a. plist (two_processes c) a\<lparr>ring0 := True\<rparr>\<rparr>"

lemma kernel_two: "sched_inv (kernel_two c)" "scheduling (kernel_two c)" "cpid (kernel_two c) = c"
  "existing (kernel_two c) p \<longleftrightarrow> p = 1 \<or> p = 2" "ring0 (plist (kernel_two c) a)"
proof -
  show "sched_inv (kernel_two c)"
    using two_processes_inv [of c] sched_inv_cong [of "kernel_two c" "two_processes c"] by (simp add: kernel_two_def)
  show "existing (kernel_two c) p \<longleftrightarrow> p = 1 \<or> p = 2"
    using existing_two [of c p] by (simp add: kernel_two_def existing_def)
  show "scheduling (kernel_two c)" using two_processes_sel(3) [of c] by (simp add: kernel_two_def scheduling_def)
qed (simp_all add: kernel_two_def)

lemma kernel_two_running: "running (kernel_two 1) 1"
  using kernel_two [of 1] sched_inv_own_procs by (simp add: running_def)

theorem preemption_lowers_stack_witness:
  "\<exists>c' s'. preempts True 0x5000 0x6000 1 core0 (kernel_two 1) c' s' \<and> c' = core0\<lparr>c_esp := 0x8FE4\<rparr>"
proof -
  obtain c' s' where t: "preempts True 0x5000 0x6000 1 core0 (kernel_two 1) c' s'"
    using preempts_exists [OF kernel_two_running kernel_two(3,5)] by blast
  from preemption_lowers_stack [OF kernel_two(2,1) _ kernel_two(3,5) t] t show ?thesis
    by (auto simp: kernel_two core0_def)
qed

theorem idle_leaves_its_stack_witness:
  "\<exists>c' s'. turns True 0x5000 0x6000 1 147 core0 (kernel_two 1) c' s' \<and> c_esp c' = 0x7FEC"
proof -
  obtain c' s' where t: "turns True 0x5000 0x6000 1 147 core0 (kernel_two 1) c' s'"
    using turns_exists [OF kernel_two_running kernel_two(3,5)] by blast
  from idle_leaves_its_stack [OF kernel_two(2,1) _ kernel_two(3,5) t, of "0x8000"] t show ?thesis
    by (auto simp: kernel_two core0_def)
qed

definition kernel_one :: sched where
  "kernel_one = kernel_two 1\<lparr>proc_list := (proc_list (kernel_two 1))(2 := 0)\<rparr>"

theorem lone_process_overwrites_return_address_witness:
  "\<exists>c1 m1 gp s'. enter True (irq_stub 0) (irq_common_entry 0x5000) 0x6000 (core0, \<lambda>_. 0) = (c1, m1)
    \<and> load32 m1 (c_esp c1) = 0x6000
    \<and> irq0_timer_handler 0x8FBC (kernel_one\<lparr>mem := m1\<rparr>) = Some (gp, s') \<and> load32 (mem s') (c_esp c1) = 7"
proof -
  obtain c1 m1 where e: "enter True (irq_stub 0) (irq_common_entry 0x5000) 0x6000 (core0, \<lambda>_. 0) = (c1, m1)"
    by fastforce
  have one: "existing kernel_one q \<longleftrightarrow> q = 1" for q
    using kernel_two(4) [of 1 q] by (auto simp: kernel_one_def existing_def)
  have "scheduling kernel_one" "cpid kernel_one = 1" "ring0 (plist kernel_one (entry_ptr kernel_one 1))"
    using kernel_two(2,3,5) [of 1] by (simp_all add: kernel_one_def scheduling_def)
  from lone_process_overwrites_return_address [OF this(1) _ this(2,3) _ e] e show ?thesis
    by (auto simp: one core0_def)
qed

subsection \<open>System calls\<close>

text \<open>Process 1 asks for its pid.\<close>

theorem system_call_resumes_witness:
  "\<exists>s :: intr. \<exists>c1 g1 s1 es log s' g m2. enter True softint_stub (irq_common_entry 0x5000) 0x6000 (core0\<lparr>c_eax := 7\<rparr>, \<lambda>_. 0) = (c1, mem s)
    \<and> irq_handler (\<lambda>_ _ _. None) disk_device 0 undefined 0x8FBC s = Some (g1, s1)
    \<and> run_ticks es s1 = Some (log, s') \<and> last ((cpid s1, g1) # log) = (1, g)
    \<and> fst (irq_leave True (core0\<lparr>c_esp := g + 100\<rparr>, m2)) = core0\<lparr>c_eax := 1, c_esp := 0x8FE4\<rparr>"
proof -
  let ?c = "core0\<lparr>c_eax := 7\<rparr>"
  obtain c1 m1 where e: "enter True softint_stub (irq_common_entry 0x5000) 0x6000 (?c, \<lambda>_. 0) = (c1, m1)" by fastforce
  define s where "s = running_intr 0 0 0\<lparr>mem := m1\<rparr>"
  have s: "mem s = m1" "cpid s = 1" "scheduling s" "existing s q \<longleftrightarrow> q = 1 \<or> q = 2" "ring0 (plist s x)"
    "proc_list s = proc_list (two_processes 1)" "plist s = (\<lambda>x. plist (two_processes 1) x\<lparr>ring0 := True\<rparr>)"
    "abi (procs s (proc_ptr s 1)) = 0" "mmgr s = mmgr (two_processes 1)" for q x
    using running_intr_existing(1) [of 0 0 0] running_intr_existing(2) [of 0 0 0 q]
    by (simp_all add: s_def scheduling_def existing_def blank_proc_def)
      (simp add: running_intr_def sched.defs)
  have inv: "sched_inv s"
    using two_processes_inv [of 1] sched_inv_cong [of s "two_processes 1"] s(6,7,9) by simp
  have ex: "existing s 1" using s(4) by simp
  have esp: "c_esp ?c - 68 = 0x8FBC" by (simp add: core0_def)
  obtain a s0 where al: "sys_kumalloc (sint (c_ebx ?c div 4096 + 1)) 6 (ucast (1 :: u16)) s = (a, s0)" by fastforce
  have ax: "(c_eax ?c, 1) \<in> {(7, ucast (1 :: u16)), (8, get_proc (c_ebx ?c) s), (9, a)}" by simp
  obtain g1 s1 where step: "irq_handler (\<lambda>_ _ _. None) disk_device 0 undefined (c_esp ?c - 68) s = Some (g1, s1)"
    "running s1 1"
    by (rule system_call_put_away [OF s(3) inv ex s(2,5,8) e [folded s(1)] al ax, of "\<lambda>_ _ _. None" disk_device 0 undefined])
  from this(2) obtain es log s' g where r: "run_ticks es s1 = Some (log, s')"
    "1 \<notin> fst ` set (butlast ((cpid s1, g1) # log))" "last ((cpid s1, g1) # log) = (1, g)" by (rule first_turn)
  have "fst (irq_leave True (core0\<lparr>c_esp := g + 100\<rparr>, store32 (g + 100) g (mem s'))) =
      ?c\<lparr>c_eax := 1, c_esp := c_esp ?c - 28\<rparr>"
    by (rule system_call_resumes [OF s(3) inv ex s(2,5,8) e [folded s(1)] al ax step(1) r _ slot_above_frame]) simp
  then show ?thesis
    using e r step(1) unfolding s(1) [symmetric] esp
    by (intro exI [of _ s] exI [of _ c1] exI [of _ g1] exI [of _ s1] exI [of _ es] exI [of _ log] exI [of _ s'] exI [of _ g]
        exI [of _ "store32 (g + 100) g (mem s')"]) (simp add: core0_def)
qed

subsection \<open>Faults\<close>



end
