(* ===== verification/Spec2Isabelle.thy ===== *)
theory Spec2Isabelle
  imports MmanagerExamples SchedulerExamples StringsExamples SerialExamples DriverExamples StorageExamples
    ShellExamples BootExamples StubExamples
begin

text \<open>
  A model of the kernel of lOSt, a small operating system for 32-bit PCs written in C
  (\<open>src/kernel\<close>), and theorems about it.

  \<^bold>\<open>The program.\<close> The kernel keeps a table of 4 KiB pages (\<open>memory/mmanager.c\<close>), from which every
  other part allocates. A table of 65536 pointers holds the processes (\<open>proc/scheduler.c\<close>); the timer
  interrupt (\<open>drivers/timer.c\<close>) counts ticks and switches to the next process. Interrupts and the
  system call 0x80 arrive in \<open>cpu/idt.c\<close>, which looks the handler up in a table. The keyboard driver
  (\<open>drivers/ps2.c\<close>, \<open>kb.c\<close>) turns scancodes into characters for one registered listener, the disk
  driver (\<open>drivers/ata.c\<close>) moves sectors by polling. \<open>drivers/storage.c\<close> keeps the tables of drives
  and of mounted file systems and sends every sector to the disk driver or to the RAM disk;
  \<open>filesystems/fat.c\<close> finds files on FAT32 volumes through it, and the system calls open, read and
  write files through both. Text goes to the serial port (\<open>drivers/serial.c\<close>), whose listeners get
  every character; one of them is the shell's screen output (\<open>eshell/eshell.c\<close> on
  \<open>graphics/vga.c\<close>). The shell is a kernel process whose keyboard listener collects the command line.
  \<open>memory/string.c\<close> holds the string functions all of them use. The kernel's entry, \<open>kmain\<close> in
  \<open>main.c\<close>, starts the parts in order, identifies the processor (\<open>cpu/cpu.c\<close>), and makes the first two
  processes, an idle loop and the shell; the timer interrupt then takes over. A processor fault ends in a
  report on the screen (\<open>cpu/idt.c\<close>). The floppy driver (\<open>drivers/floppy.c\<close>, \<open>dma.c\<close>) is complete but its
  call in \<open>kmain\<close> is commented out.

  \<^bold>\<open>Machine and effects.\<close> Pointers and \<open>unsigned int\<close> are 32-bit words with wrap-around, \<open>int\<close> values
  whose sign matters are read with \<open>sint\<close>. Memory is a function from addresses to bytes (theory
  \<open>Prelude\<close>), used for strings, saved register frames and disk buffers; structures that are only
  reached through typed pointers (page table, process list, process structures) are fields of a
  state record, keyed by address where the code keys them by address. The records extend one
  another in the order the drivers build on one another: \<open>io\<close> (the trace of port accesses),
  \<open>timer\<close>, \<open>machine\<close> (memory and allocator), \<open>serial\<close>, \<open>keyboard\<close>, \<open>storage\<close>, \<open>sched\<close>, \<open>intr\<close>,
  \<open>screen\<close>, \<open>shell\<close>, \<open>cpu\<close>; \<open>floppy\<close> extends \<open>intr\<close> beside \<open>screen\<close>. What a port, the second counter or
  an inline assembly statement answers is not under \<open>src/\<close> and is a parameter: a \<open>device\<close> answers
  from the trace of all earlier accesses, so its answers may depend on everything that happened.
  A loop that may run forever is a \<open>partial_function\<close>, so \<open>None\<close> is divergence, and every theorem
  that says a function returns proves a \<open>Some\<close>. Loops bounded by a counter are functions with a
  measure, or recursion on the number of rounds; no fuel is used.

  \<^bold>\<open>Theories.\<close>
  \<^item> \<open>Prelude\<close>: words, memory, regions; \<open>Interfaces\<close>: the contracts of the page allocator, of the
    countdowns, of the tables with one handler to a slot and of round-robin queues, as locales. \<open>Mmanager\<close>,
    \<open>Timer\<close>, \<open>Keyboard\<close>, \<open>Interrupts\<close> and \<open>RoundRobin\<close> interpret them on the code's own operations.
  \<^item> \<open>Strings\<close> (\<open>memory/string.c\<close>): length, comparison, copying, number printing and parsing,
    concatenation, tokens.
  \<^item> \<open>PortIO\<close> (\<open>cpu/io.c\<close>), \<open>Timer\<close> (\<open>drivers/timer.c\<close>, \<open>cpu/ksec.c\<close>), \<open>Machine\<close> (memory, timer
    and allocator joined).
  \<^item> \<open>Mmanager\<close> (\<open>memory/mmanager.c\<close>): start-up from the memory map, first-fit allocation, freeing by
    address and by owner, counting; the invariant \<open>mm_inv\<close> of linked blocks.
  \<^item> \<open>Scheduler\<close> (\<open>proc/scheduler.c\<close>, \<open>scheduler.s\<close>): process list, \<open>fork\<close>, \<open>kfork\<close>, \<open>exec\<close>, exit,
    and the switch; the invariant \<open>sched_inv\<close>, fairness and preservation of registers.
  \<^item> \<open>Keyboard\<close> (\<open>drivers/ps2.c\<close>, \<open>kb.c\<close>): controller start-up, scancodes, the interrupt handler and
    its refinement of an abstract keyboard.
  \<^item> \<open>Ata\<close> (\<open>drivers/ata.c\<close>): polling, sector transfers, splitting of long requests.
  \<^item> \<open>Drives\<close> (\<open>drivers/storage.c\<close>, first half): the tables, the RAM disk, sector transfers, and what
    a transfer leaves alone. \<open>Fat\<close> (\<open>filesystems/fat.c\<close>): the cached allocation table, cluster chains,
    reading, writing, opening, creating, mounting. \<open>FatWrite\<close>: the cached table as a function, and what
    a write makes of the disk and of the table. \<open>Storage\<close> (\<open>drivers/storage.c\<close>, second half, and
    the identification of disks in \<open>ata.c\<close>): the partition scan, registration of drives, \<open>fopen\<close>,
    \<open>fread\<close>, \<open>fwrite\<close>.
  \<^item> \<open>Interrupts\<close> (\<open>cpu/idt.c\<close>): gates, handler tables, dispatch, system calls.
  \<^item> \<open>Serial\<close> (\<open>drivers/serial.c\<close>): port start-up, listeners, \<open>kprintf\<close>, which refines the text its
    format and arguments stand for.
  \<^item> \<open>Screen\<close> (\<open>graphics/vga.c\<close> and the output half of \<open>eshell/eshell.c\<close>): cursor, scrolling, the
    invariant \<open>screen_inv\<close>. \<open>Eshell\<close> (the other half): the commands, the command line and the
    process; keyboard driver and shell composed edit the line as the abstract keyboard types.
    \<open>ShellSession\<close>: from the keys to the command that runs, and to the end of the shell.
  \<^item> \<open>Sprintf\<close> (\<open>ksprintf\<close> of \<open>memory/string.c\<close>, apart from the rest because it allocates): it leaves in
    memory the text \<open>kprintf\<close> sends.
  \<^item> \<open>Panic\<close> (\<open>panic\<close> and \<open>_fhandler\<close> of \<open>cpu/idt.c\<close>): the report of a fault. \<open>Floppy\<close>
    (\<open>drivers/floppy.c\<close>, \<open>drivers/dma.c\<close>): start-up, recalibration, read commands. \<open>Cpu\<close> (\<open>cpu/cpu.c\<close>,
    \<open>cpu.h\<close>): the processor's identification.
  \<^item> \<open>Lifecycle\<close>: the operations on processes as a step relation; every reachable state is well formed,
    and in each the timer interrupt and the exit of a process return. \<open>RoundRobin\<close>: the scheduler
    implements a queue of processes. \<open>Boot\<close> (\<open>main.c\<close>): the kernel's
    entry, its first two processes, the shell's first turn, and what an early interrupt does.
  \<^item> \<open>Stubs\<close> (\<open>cpu/idt.s\<close>): the interrupt stubs as lists of instructions on the processor's registers and
    its stack. An interrupt whose handler returns its frame is invisible; a preemption, composed of stub,
    timer interrupts and stub, gives a process its registers back, with a stack pointer 28 bytes lower;
    a system call, followed from \<open>int 0x80\<close> to the next instruction, does so with its answer in \<open>eax\<close>.
    What the C functions in between do to memory below the stack pointer enters as a hypothesis on the
    frame, which has to survive until the stub takes it. \<open>Faults\<close>: where the gates lead among the stubs,
    and a fault from the exception to its report.
  \<^item> \<open>MmanagerExamples\<close>, \<open>SchedulerExamples\<close>, \<open>StringsExamples\<close>, \<open>SerialExamples\<close>,
    \<open>DriverExamples\<close>, \<open>StorageExamples\<close>, \<open>ShellExamples\<close>, \<open>BootExamples\<close>, \<open>StubExamples\<close>: each property applied at a
    concrete state.

  \<^bold>\<open>Where the code differs from its intent\<close> the theorems state what it does: overlapping
  allocations, permission bits that are never set, a control key that shifts, long disk requests
  that lose their full blocks, files that cannot be opened and that grow with every write, timer interrupts that are not
  acknowledged, a shell that goes deaf when memory runs out, a start-up that the first interrupt
  abandons, a floppy controller that gets parameters without their command, processes that lose 28 bytes
  of stack with every preemption, a scheduler that needs a second process, fault reports that show the
  error code as the place of the fault.

  \<^bold>\<open>Not modelled.\<close> The boot loaders and \<open>kentry.s\<close> (assembly that runs before the kernel) and the loading of
  descriptor tables (instructions that set processor registers); what \<open>cpuid\<close> and the flags register
  hold are parameters. Faults and interrupts of other privilege levels do not occur: the kernel never
  leaves ring 0. Structures no code computes with: the BIOS data area (\<open>memory/mmanager.h\<close>), the
  register layouts at the top of \<open>drivers/serial.c\<close>, \<open>vga_descriptor_t\<close>. Interrupts arrive between
  operations, not inside them; \<open>Boot\<close> says what the first one does to \<open>kmain\<close>. Where another
  component prints, the text is one event of the trace with its format and arguments; what printing does
  to the port and its listeners is in \<open>Serial\<close>, so that the screen's contents after console output is
  not tied to that trace.
\<close>

end
